(* ===== verification/Sentinel_Prelude.thy ===== *)
theory Sentinel_Prelude
  imports Main "HOL-Library.Word" "HOL-Library.Char_ord" "HOL-Library.List_Lexorder"
    "HOL-Library.Sublist"
begin

text \<open>
  The shared vocabulary of the development.

  \<^item> A Rust \<open>&str\<close> or \<open>[u8]\<close> is a \<^typ>\<open>string\<close>: an Isabelle \<^typ>\<open>char\<close> is one byte, so lengths
    and indices are byte lengths and byte offsets, as in the source. The order on strings is the
    byte-wise lexicographic order of Rust (\<open>List_Lexorder\<close> over \<open>Char_ord\<close>).
  \<^item> A Rust \<open>Result<T, E>\<close> is a sum \<open>'e + 'a\<close> with \<open>Inl\<close> for the error; \<open>res_bind\<close> is the \<open>?\<close>
    operator.
  \<^item> Machine integers that wrap, saturate or are used as bit sets are words; quantities on which
    the source only uses checked arithmetic are naturals with the bound written out.
\<close>

unbundle bit_operations_syntax

named_theorems res_simps \<open>equations that take a \<open>Result\<close> apart\<close>
named_theorems str_simps \<open>facts about the byte-string operations\<close>

type_synonym u8 = "8 word"
type_synonym u16 = "16 word"
type_synonym u32 = "32 word"
type_synonym u64 = "64 word"
type_synonym u128 = "128 word"

subsection \<open>Results\<close>

definition res_bind :: "'e + 'a \<Rightarrow> ('a \<Rightarrow> 'e + 'b) \<Rightarrow> 'e + 'b" where
  "res_bind m f = (case m of Inl e \<Rightarrow> Inl e | Inr x \<Rightarrow> f x)"

definition ok_or :: "'e \<Rightarrow> 'a option \<Rightarrow> 'e + 'a" where
  "ok_or e x = (case x of None \<Rightarrow> Inl e | Some y \<Rightarrow> Inr y)"

definition map_err :: "('e \<Rightarrow> 'f) \<Rightarrow> 'e + 'a \<Rightarrow> 'f + 'a" where
  "map_err g m = (case m of Inl e \<Rightarrow> Inl (g e) | Inr x \<Rightarrow> Inr x)"

definition res_map :: "('a \<Rightarrow> 'b) \<Rightarrow> 'e + 'a \<Rightarrow> 'e + 'b" where
  "res_map g m = (case m of Inl e \<Rightarrow> Inl e | Inr x \<Rightarrow> Inr (g x))"

definition guard_err :: "bool \<Rightarrow> 'e \<Rightarrow> 'e + unit" where
  "guard_err b e = (if b then Inl e else Inr ())"

text \<open>
  \<open>iter().enumerate().map(f).collect::<Result<Vec<_>>>()\<close> from index \<open>i\<close>: the first error wins.
\<close>

fun traverse_from :: "nat \<Rightarrow> (nat \<Rightarrow> 'a \<Rightarrow> 'e + 'b) \<Rightarrow> 'a list \<Rightarrow> 'e + 'b list" where
  "traverse_from i f [] = Inr []"
| "traverse_from i f (x # xs) =
     res_bind (f i x) (\<lambda>y. res_bind (traverse_from (Suc i) f xs) (\<lambda>ys. Inr (y # ys)))"

lemma res_bind_Inl [simp, res_simps]: "res_bind (Inl e) f = Inl e"
  by (simp add: res_bind_def)

lemma res_bind_Inr [simp, res_simps]: "res_bind (Inr x) f = f x"
  by (simp add: res_bind_def)

lemma res_bind_eq_Inr [res_simps]:
  "res_bind m f = Inr y \<longleftrightarrow> (\<exists>x. m = Inr x \<and> f x = Inr y)"
  by (cases m) auto

lemma res_bind_eq_Inl [res_simps]:
  "res_bind m f = Inl e \<longleftrightarrow> m = Inl e \<or> (\<exists>x. m = Inr x \<and> f x = Inl e)"
  by (cases m) auto

lemma res_bind_cong [fundef_cong]:
  "m = m' \<Longrightarrow> (\<And>x. m' = Inr x \<Longrightarrow> f x = g x) \<Longrightarrow> res_bind m f = res_bind m' g"
  by (cases m) auto

lemma ok_or_simps [simp, res_simps]: "ok_or e None = Inl e" "ok_or e (Some x) = Inr x"
  by (simp_all add: ok_or_def)

lemma ok_or_eq_Inr [res_simps]: "ok_or e x = Inr y \<longleftrightarrow> x = Some y"
  by (cases x) auto

lemma ok_or_eq_Inl [res_simps]: "ok_or e x = Inl e' \<longleftrightarrow> x = None \<and> e' = e"
  by (cases x) auto

lemma map_err_simps [simp, res_simps]: "map_err g (Inl e) = Inl (g e)" "map_err g (Inr x) = Inr x"
  by (simp_all add: map_err_def)

lemma map_err_eq_Inr [res_simps]: "map_err g m = Inr x \<longleftrightarrow> m = Inr x"
  by (cases m) auto

lemma res_map_simps [simp, res_simps]: "res_map g (Inl e) = Inl e" "res_map g (Inr x) = Inr (g x)"
  by (simp_all add: res_map_def)

lemma res_map_eq_Inr [res_simps]: "res_map g m = Inr y \<longleftrightarrow> (\<exists>x. m = Inr x \<and> y = g x)"
  by (cases m) auto

lemma guard_err_eq [res_simps]:
  "guard_err b e = Inr u \<longleftrightarrow> \<not> b" "guard_err b e = Inl e' \<longleftrightarrow> b \<and> e' = e"
  by (auto simp: guard_err_def)

lemma traverse_from_Inr_length:
  "traverse_from i f xs = Inr ys \<Longrightarrow> length ys = length xs"
  by (induction xs arbitrary: i ys) (auto simp: res_simps)

lemma traverse_from_Inr_nth:
  "traverse_from i f xs = Inr ys \<Longrightarrow> k < length xs \<Longrightarrow> f (i + k) (xs ! k) = Inr (ys ! k)"
proof (induction xs arbitrary: i ys k)
  case Nil
  then show ?case by simp
next
  case (Cons x xs)
  then obtain y ys' where y: "f i x = Inr y" "traverse_from (Suc i) f xs = Inr ys'" "ys = y # ys'"
    by (auto simp: res_simps)
  show ?case
  proof (cases k)
    case 0
    with y show ?thesis by simp
  next
    case (Suc k')
    with Cons.prems Cons.IH [OF y(2), of k'] y show ?thesis by simp
  qed
qed

lemma traverse_from_all:
  assumes "traverse_from i f xs = Inr ys" and "\<And>j x y. f j x = Inr y \<Longrightarrow> P y" and "y \<in> set ys"
  shows "P y"
  using assms by (induction xs arbitrary: i ys) (auto simp: res_simps)

subsection \<open>Bytes\<close>

definition is_digit :: "char \<Rightarrow> bool" where
  "is_digit c \<longleftrightarrow> CHR ''0'' \<le> c \<and> c \<le> CHR ''9''"

definition is_lower :: "char \<Rightarrow> bool" where
  "is_lower c \<longleftrightarrow> CHR ''a'' \<le> c \<and> c \<le> CHR ''z''"

definition is_upper :: "char \<Rightarrow> bool" where
  "is_upper c \<longleftrightarrow> CHR ''A'' \<le> c \<and> c \<le> CHR ''Z''"

definition is_alnum :: "char \<Rightarrow> bool" where
  "is_alnum c \<longleftrightarrow> is_digit c \<or> is_lower c \<or> is_upper c"

lemmas byte_class_defs = is_alnum_def is_digit_def is_lower_def is_upper_def

lemma is_digit_not_alpha: "is_digit c \<Longrightarrow> \<not> is_lower c" "is_digit c \<Longrightarrow> \<not> is_upper c"
  using order_trans [of "CHR ''a''" c "CHR ''9''"] order_trans [of "CHR ''A''" c "CHR ''9''"]
  by (auto simp: byte_class_defs)

subsection \<open>Decimal numbers\<close>

definition digit_char :: "nat \<Rightarrow> char" where
  "digit_char d = char_of (48 + d)"

definition digit_val :: "char \<Rightarrow> nat" where
  "digit_val c = of_char c - 48"

fun dec_nat :: "nat \<Rightarrow> string" where
  "dec_nat n = (if n < 10 then [digit_char n] else dec_nat (n div 10) @ [digit_char (n mod 10)])"

declare dec_nat.simps [simp del]

definition dec_int :: "int \<Rightarrow> string" where
  "dec_int i = (if i < 0 then CHR ''-'' # dec_nat (nat (- i)) else dec_nat (nat i))"

definition digits_val :: "string \<Rightarrow> nat" where
  "digits_val s = foldl (\<lambda>a c. 10 * a + digit_val c) 0 s"

text \<open>\<open>str::parse\<close> for the integer types: an optional sign, at least one digit, no overflow.\<close>

definition parse_unsigned :: "nat \<Rightarrow> string \<Rightarrow> nat option" where
  "parse_unsigned bits s =
     (let t = (case s of [] \<Rightarrow> s | c # r \<Rightarrow> if c = CHR ''+'' then r else s)
      in if t = [] \<or> \<not> list_all is_digit t then None
         else if digits_val t < 2 ^ bits then Some (digits_val t) else None)"

definition parse_i64 :: "string \<Rightarrow> int option" where
  "parse_i64 s =
     (case s of
        [] \<Rightarrow> None
      | c # r \<Rightarrow>
          let neg = (c = CHR ''-'');
              t = (if c = CHR ''-'' \<or> c = CHR ''+'' then r else s)
          in if t = [] \<or> \<not> list_all is_digit t then None
             else if neg then
               (if digits_val t \<le> 2 ^ 63 then Some (- int (digits_val t)) else None)
             else (if digits_val t < 2 ^ 63 then Some (int (digits_val t)) else None))"

abbreviation i64_range :: "int \<Rightarrow> bool" where
  "i64_range i \<equiv> - (2 ^ 63) \<le> i \<and> i < 2 ^ 63"

lemma of_char_digit_char: "d < 10 \<Longrightarrow> of_char (digit_char d) = (48 + d :: nat)"
  by (simp add: digit_char_def)

lemma digit_val_digit_char [simp]: "d < 10 \<Longrightarrow> digit_val (digit_char d) = d"
  by (simp add: digit_val_def of_char_digit_char)

lemma is_digit_digit_char [simp]: "d < 10 \<Longrightarrow> is_digit (digit_char d)"
  by (simp add: is_digit_def less_eq_char_def of_char_digit_char)

lemma dec_nat_nonempty [simp]: "dec_nat n \<noteq> []"
  by (subst dec_nat.simps) simp

lemma dec_nat_digits: "list_all is_digit (dec_nat n)"
proof (induction n rule: dec_nat.induct)
  case (1 n)
  then show ?case by (subst dec_nat.simps) auto
qed

lemma digits_val_snoc: "digits_val (s @ [c]) = 10 * digits_val s + digit_val c"
  by (simp add: digits_val_def)

lemma digits_val_dec_nat [simp]: "digits_val (dec_nat n) = n"
proof (induction n rule: dec_nat.induct)
  case (1 n)
  show ?case
  proof (cases "n < 10")
    case True
    then show ?thesis by (subst dec_nat.simps) (simp add: digits_val_def)
  next
    case False
    with 1 have "digits_val (dec_nat (n div 10)) = n div 10" by simp
    with False show ?thesis by (subst dec_nat.simps) (simp add: digits_val_snoc)
  qed
qed

lemma dec_nat_hd: "is_digit (hd (dec_nat n))"
  using dec_nat_digits [of n] by (cases "dec_nat n") auto

lemma parse_i64_range: "parse_i64 s = Some i \<Longrightarrow> i64_range i"
  by (auto simp: parse_i64_def Let_def split: list.splits if_splits)

lemma parse_i64_dec_int: "i64_range i \<Longrightarrow> parse_i64 (dec_int i) = Some i"
proof -
  assume r: "i64_range i"
  show ?thesis
  proof (cases "i < 0")
    case True
    with r show ?thesis by (auto simp: parse_i64_def dec_int_def dec_nat_digits Let_def)
  next
    case False
    obtain c t where ct: "dec_nat (nat i) = c # t" by (cases "dec_nat (nat i)") auto
    then have "is_digit c" using dec_nat_hd [of "nat i"] by simp
    then have "c \<noteq> CHR ''-''" "c \<noteq> CHR ''+''" by (auto simp: is_digit_def less_eq_char_def)
    moreover have "list_all is_digit (c # t)" "digits_val (c # t) = nat i"
      using dec_nat_digits [of "nat i"] digits_val_dec_nat [of "nat i"] ct by simp_all
    ultimately show ?thesis using r False ct by (simp add: parse_i64_def dec_int_def Let_def)
  qed
qed

subsection \<open>Byte-string operations of the standard library\<close>

definition strip_prefix :: "string \<Rightarrow> string \<Rightarrow> string option" where
  "strip_prefix p s = (if prefix p s then Some (drop (length p) s) else None)"

definition strip_suffix :: "string \<Rightarrow> string \<Rightarrow> string option" where
  "strip_suffix p s = (if suffix p s then Some (take (length s - length p) s) else None)"

fun split_on :: "'a \<Rightarrow> 'a list \<Rightarrow> 'a list list" where
  "split_on c [] = [[]]"
| "split_on c (x # xs) =
     (if x = c then [] # split_on c xs
      else (case split_on c xs of [] \<Rightarrow> [[x]] | y # ys \<Rightarrow> (x # y) # ys))"

fun join_with :: "'a list \<Rightarrow> 'a list list \<Rightarrow> 'a list" where
  "join_with s [] = []"
| "join_with s [x] = x"
| "join_with s (x # y # ys) = x @ s @ join_with s (y # ys)"

fun find_sub :: "'a list \<Rightarrow> 'a list \<Rightarrow> nat option" where
  "find_sub p [] = (if p = [] then Some 0 else None)"
| "find_sub p (x # xs) = (if prefix p (x # xs) then Some 0 else map_option Suc (find_sub p xs))"

fun split_once :: "'a \<Rightarrow> 'a list \<Rightarrow> ('a list \<times> 'a list) option" where
  "split_once c [] = None"
| "split_once c (x # xs) =
     (if x = c then Some ([], xs)
      else map_option (\<lambda>(a, b). (x # a, b)) (split_once c xs))"

lemma strip_prefix_Some [str_simps]: "strip_prefix p s = Some t \<longleftrightarrow> s = p @ t"
  by (auto simp: strip_prefix_def prefix_def)

lemma strip_prefix_None [str_simps]: "strip_prefix p s = None \<longleftrightarrow> \<not> prefix p s"
  by (simp add: strip_prefix_def)

lemma strip_suffix_Some [str_simps]: "strip_suffix p s = Some t \<longleftrightarrow> s = t @ p"
  by (auto simp: strip_suffix_def suffix_def)

lemma split_on_nonempty [simp]: "split_on c s \<noteq> []"
  by (induction s) (auto split: list.splits)

lemma join_split_on [simp]: "join_with [c] (split_on c s) = s"
proof (induction s)
  case Nil
  then show ?case by simp
next
  case (Cons x xs)
  obtain y ys where yys: "split_on c xs = y # ys" by (cases "split_on c xs") auto
  then show ?case using Cons by (cases ys) auto
qed

lemma split_on_no_sep: "seg \<in> set (split_on c s) \<Longrightarrow> c \<notin> set seg"
  by (induction s arbitrary: seg) (auto split: list.splits if_splits)

lemma split_on_subset: "seg \<in> set (split_on c s) \<Longrightarrow> set seg \<subseteq> set s"
  by (induction c s arbitrary: seg rule: split_on.induct) (force split: list.splits if_splits)+

lemma split_on_id: "c \<notin> set s \<Longrightarrow> split_on c s = [s]"
  by (induction s) auto

lemma split_on_append: "c \<notin> set s \<Longrightarrow> split_on c (s @ c # t) = s # split_on c t"
  by (induction s) auto

lemma split_on_join:
  "xs \<noteq> [] \<Longrightarrow> (\<And>x. x \<in> set xs \<Longrightarrow> c \<notin> set x) \<Longrightarrow> split_on c (join_with [c] xs) = xs"
  by (induction "[c]" xs rule: join_with.induct) (auto simp: split_on_id split_on_append)

lemma split_once_Some [str_simps]:
  "split_once c s = Some (a, b) \<longleftrightarrow> s = a @ c # b \<and> c \<notin> set a"
proof (induction s arbitrary: a)
  case Nil
  show ?case by simp
next
  case (Cons x xs)
  then show ?case by (cases a) auto
qed

lemma split_once_None [str_simps]: "split_once c s = None \<longleftrightarrow> c \<notin> set s"
  by (induction s) auto

lemma find_sub_Some:
  "find_sub p s = Some i \<Longrightarrow> i + length p \<le> length s \<and> prefix p (drop i s)"
  by (induction s arbitrary: i) (auto split: if_splits dest: prefix_length_le)

lemma find_sub_first: "find_sub p s = Some i \<Longrightarrow> j < i \<Longrightarrow> \<not> prefix p (drop j s)"
proof (induction s arbitrary: i j)
  case (Cons x xs)
  then show ?case by (cases j) (auto split: if_splits)
qed (auto split: if_splits)

lemma find_sub_None: "find_sub p s = None \<longleftrightarrow> \<not> sublist p s"
  by (induction s) (auto simp: sublist_Cons_right)

subsection \<open>First position of a match\<close>

text \<open>\<open>Iterator::position\<close>.\<close>

fun position :: "('a \<Rightarrow> bool) \<Rightarrow> 'a list \<Rightarrow> nat option" where
  "position P [] = None"
| "position P (x # xs) = (if P x then Some 0 else map_option Suc (position P xs))"

lemma find_SomeD: "find P xs = Some x \<Longrightarrow> x \<in> set xs \<and> P x"
  by (induction xs) (auto split: if_splits)

lemma position_None: "position P xs = None \<longleftrightarrow> (\<forall>x\<in>set xs. \<not> P x)"
  by (induction xs) auto

lemma position_Some:
  "position P xs = Some i \<longleftrightarrow> i < length xs \<and> P (xs ! i) \<and> (\<forall>j<i. \<not> P (xs ! j))"
proof (induction xs arbitrary: i)
  case (Cons x xs)
  then show ?case by (cases i) (auto simp: less_Suc_eq_0_disj)
qed simp

lemma position_distinct:
  "distinct xs \<Longrightarrow> position (\<lambda>x. x = y) xs = Some i \<longleftrightarrow> i < length xs \<and> xs ! i = y"
  by (auto simp: position_Some nth_eq_iff_index_eq)

subsection \<open>Bits of machine words\<close>

lemma and_nonzero_iff: "a AND b \<noteq> 0 \<longleftrightarrow> (\<exists>i. bit a i \<and> bit b i)" for a b :: "'a::len word"
  by (auto simp: bit_eq_iff bit_and_iff) (blast dest: bit_imp_le_length)

lemma bit_unit: "bit (push_bit n 1 :: 'a::len word) i \<longleftrightarrow> i = n \<and> n < LENGTH('a)"
  unfolding bit_push_bit_iff bit_1_iff by auto

lemma and_absorb_iff: "a AND b = b \<longleftrightarrow> (\<forall>i. bit b i \<longrightarrow> bit a i)" for a b :: "'a::len word"
  by (auto simp: bit_eq_iff bit_and_iff dest: bit_imp_le_length)

lemma and_not_zero_iff: "b AND NOT a = 0 \<longleftrightarrow> (\<forall>i. bit b i \<longrightarrow> bit a i)" for a b :: "'a::len word"
  by (auto simp: bit_eq_iff bit_and_iff bit_not_iff dest: bit_imp_le_length)

subsection \<open>Saturating 64-bit arithmetic\<close>

text \<open>\<open>i64::saturating_add\<close>, \<open>saturating_sub\<close> and \<open>saturating_mul\<close> clamp the exact result.\<close>

definition i64_clamp :: "int \<Rightarrow> int" where
  "i64_clamp x = max (- (2 ^ 63)) (min (2 ^ 63 - 1) x)"

lemma i64_clamp_range: "i64_range (i64_clamp x)"
  by (simp add: i64_clamp_def)

lemma i64_clamp_id: "i64_range x \<Longrightarrow> i64_clamp x = x"
  by (simp add: i64_clamp_def)

subsection \<open>Codes\<close>

text \<open>
  The contract of a stored or transmitted code: \<open>decode\<close> inverts \<open>encode\<close>, and nothing else decodes.
  Numeric codes and the texts of enumerations are both of this kind.
\<close>

locale code_table =
  fixes to_code :: "'a \<Rightarrow> 'c" and of_code :: "'c \<Rightarrow> 'a option"
  assumes code_round_trip: "of_code (to_code x) = Some x"
    and code_canonical: "of_code c = Some x \<Longrightarrow> to_code x = c"
begin

lemma code_iff: "of_code c = Some x \<longleftrightarrow> c = to_code x"
  using code_round_trip code_canonical by auto

lemma code_inj: "to_code x = to_code y \<longleftrightarrow> x = y"
  using code_round_trip by (metis option.inject)

end

end
