(* ===== verification/Core_State.thy ===== *)
theory Core_State
  imports Sentinel_Prelude
begin

text \<open>
  The job life cycle of \<open>crates/sentinel-core/src/state.rs\<close>, the lease fence of
  \<open>crates/sentinel-core/src/id.rs\<close> and the attempt timestamps of
  \<open>crates/sentinel-core/src/time.rs\<close>.

  \<open>job_apply\<close> is \<open>JobControl::apply\<close>; the mutated \<open>self\<close> is returned next to the \<open>Result\<close>. The
  step relation \<open>job_step\<close> states the life cycle declaratively, one rule per arrow, and
  \<open>job_apply_iff_step\<close> shows that \<open>apply\<close> succeeds exactly along its arrows. \<open>job_run\<close> interleaves
  any sequence of \<open>apply\<close> and \<open>request_cancel\<close> calls.
\<close>

subsection \<open>Fences\<close>

type_synonym fence = u64

definition fence_none :: fence where
  "fence_none = 0"

text \<open>\<open>saturating_add(1)\<close>: the largest fence stays where it is.\<close>

definition fence_next :: "fence \<Rightarrow> fence" where
  "fence_next f = (if f = - 1 then f else f + 1)"

definition fence_is_set :: "fence \<Rightarrow> bool" where
  "fence_is_set f \<longleftrightarrow> f \<noteq> 0"

lemma fence_next_greater: "f \<noteq> - 1 \<Longrightarrow> f < fence_next f"
proof -
  assume ne: "f \<noteq> - 1"
  have "unat f \<noteq> 2 ^ 64 - 1"
  proof
    assume "unat f = 2 ^ 64 - 1"
    then have "unat f = unat (- 1 :: fence)" by (simp add: unsigned_minus_1_eq_mask mask_eq_exp_minus_1)
    with ne show False by (simp only: word_unat_eq_iff)
  qed
  moreover have "unat f < 2 ^ 64" by (rule unsigned_less [THEN order_less_le_trans]) simp
  ultimately have "unat f + 1 < 2 ^ 64" by linarith
  with ne show ?thesis by (simp add: fence_next_def word_less_nat_alt unat_word_ariths)
qed

lemma fence_next_saturates: "fence_next (- 1) = - 1"
  by (simp add: fence_next_def)

subsection \<open>Outcomes, failure classes, states\<close>

datatype outcome = Passed | Skipped | Canceled | TimedOut | Failed | InfraFailed

fun outcome_code :: "outcome \<Rightarrow> nat" where
  "outcome_code Passed = 0"
| "outcome_code Skipped = 1"
| "outcome_code Canceled = 2"
| "outcome_code TimedOut = 3"
| "outcome_code Failed = 4"
| "outcome_code InfraFailed = 5"

lemma outcome_code_inject [simp]: "outcome_code a = outcome_code b \<longleftrightarrow> a = b"
  by (cases a; cases b) simp_all

text \<open>The derived \<open>PartialOrd\<close> compares discriminants.\<close>

instantiation outcome :: linorder
begin

definition less_eq_outcome :: "outcome \<Rightarrow> outcome \<Rightarrow> bool" where
  "less_eq_outcome a b \<longleftrightarrow> outcome_code a \<le> outcome_code b"

definition less_outcome :: "outcome \<Rightarrow> outcome \<Rightarrow> bool" where
  "less_outcome a b \<longleftrightarrow> outcome_code a < outcome_code b"

instance
  by standard (auto simp: less_eq_outcome_def less_outcome_def)

end

fun outcome_as_str :: "outcome \<Rightarrow> string" where
  "outcome_as_str Passed = ''passed''"
| "outcome_as_str Skipped = ''skipped''"
| "outcome_as_str Canceled = ''canceled''"
| "outcome_as_str TimedOut = ''timed_out''"
| "outcome_as_str Failed = ''failed''"
| "outcome_as_str InfraFailed = ''infra_failed''"

fun is_success :: "outcome \<Rightarrow> bool" where
  "is_success Passed = True"
| "is_success Skipped = True"
| "is_success _ = False"

datatype failure_class =
    FC_CommandFailed | FC_CommandSignaled | FC_OutOfMemory | FC_ExecutionTimeout | FC_QueueTimeout
  | FC_Canceled | FC_Preparation | FC_LeaseExpired | FC_WorkerLost | FC_Reconciled
  | FC_Publication | FC_Runtime

fun failure_as_str :: "failure_class \<Rightarrow> string" where
  "failure_as_str FC_CommandFailed = ''command_failed''"
| "failure_as_str FC_CommandSignaled = ''command_signaled''"
| "failure_as_str FC_OutOfMemory = ''out_of_memory''"
| "failure_as_str FC_ExecutionTimeout = ''execution_timeout''"
| "failure_as_str FC_QueueTimeout = ''queue_timeout''"
| "failure_as_str FC_Canceled = ''canceled''"
| "failure_as_str FC_Preparation = ''preparation''"
| "failure_as_str FC_LeaseExpired = ''lease_expired''"
| "failure_as_str FC_WorkerLost = ''worker_lost''"
| "failure_as_str FC_Reconciled = ''reconciled''"
| "failure_as_str FC_Publication = ''publication''"
| "failure_as_str FC_Runtime = ''runtime''"

fun failure_outcome :: "failure_class \<Rightarrow> outcome" where
  "failure_outcome FC_CommandFailed = Failed"
| "failure_outcome FC_CommandSignaled = Failed"
| "failure_outcome FC_OutOfMemory = Failed"
| "failure_outcome FC_ExecutionTimeout = TimedOut"
| "failure_outcome FC_QueueTimeout = TimedOut"
| "failure_outcome FC_Canceled = Canceled"
| "failure_outcome FC_Preparation = InfraFailed"
| "failure_outcome FC_LeaseExpired = InfraFailed"
| "failure_outcome FC_WorkerLost = InfraFailed"
| "failure_outcome FC_Reconciled = InfraFailed"
| "failure_outcome FC_Publication = InfraFailed"
| "failure_outcome FC_Runtime = InfraFailed"

datatype job_state =
    Blocked | Queued | Leased | Preparing | Running | Finalizing | Terminal outcome

fun is_terminal :: "job_state \<Rightarrow> bool" where
  "is_terminal (Terminal _) = True"
| "is_terminal _ = False"

fun is_worker_owned :: "job_state \<Rightarrow> bool" where
  "is_worker_owned Leased = True"
| "is_worker_owned Preparing = True"
| "is_worker_owned Running = True"
| "is_worker_owned Finalizing = True"
| "is_worker_owned _ = False"

fun job_state_as_str :: "job_state \<Rightarrow> string" where
  "job_state_as_str Blocked = ''blocked''"
| "job_state_as_str Queued = ''queued''"
| "job_state_as_str Leased = ''leased''"
| "job_state_as_str Preparing = ''preparing''"
| "job_state_as_str Running = ''running''"
| "job_state_as_str Finalizing = ''finalizing''"
| "job_state_as_str (Terminal out) = outcome_as_str out"

datatype actor = Controller | Worker fence | Reconciler

datatype event =
    Ev_DependenciesSatisfied | Ev_Skip | Ev_ConditionFailed | Ev_Leased fence | Ev_OfferLapsed
  | Ev_PreparationStarted | Ev_StepsStarted | Ev_FinalizationStarted | Ev_Passed
  | Ev_Failed failure_class | Ev_CancelBeforeStart | Ev_QueueTimedOut | Ev_LeaseExpired
  | Ev_WorkerLost | Ev_Reconciled | Ev_Rerun

datatype transition_error =
    Invalid job_state event
  | Forbidden actor event
  | StaleFence fence fence
  | AlreadyTerminal outcome

record job_control =
  jc_state :: job_state
  jc_fence :: fence
  jc_cancel_requested :: bool

definition job_new :: job_control where
  "job_new = \<lparr>jc_state = Blocked, jc_fence = fence_none, jc_cancel_requested = False\<rparr>"

definition request_cancel :: "job_control \<Rightarrow> bool \<times> job_control" where
  "request_cancel jc =
     (jc_state jc = Blocked \<or> jc_state jc = Queued, jc\<lparr>jc_cancel_requested := True\<rparr>)"

subsection \<open>\<open>JobControl::apply\<close>\<close>

text \<open>Which actor may report which event (the second \<open>match\<close> of \<open>apply\<close>).\<close>

fun actor_may :: "actor \<Rightarrow> event \<Rightarrow> bool" where
  "actor_may Controller ev = (case ev of
       Ev_DependenciesSatisfied \<Rightarrow> True | Ev_Skip \<Rightarrow> True | Ev_ConditionFailed \<Rightarrow> True
     | Ev_Leased _ \<Rightarrow> True | Ev_OfferLapsed \<Rightarrow> True | Ev_CancelBeforeStart \<Rightarrow> True
     | Ev_QueueTimedOut \<Rightarrow> True | Ev_LeaseExpired \<Rightarrow> True | Ev_WorkerLost \<Rightarrow> True
     | _ \<Rightarrow> False)"
| "actor_may (Worker _) ev = (case ev of
       Ev_PreparationStarted \<Rightarrow> True | Ev_StepsStarted \<Rightarrow> True | Ev_FinalizationStarted \<Rightarrow> True
     | Ev_Passed \<Rightarrow> True | Ev_Failed _ \<Rightarrow> True | _ \<Rightarrow> False)"
| "actor_may Reconciler ev = (case ev of
       Ev_LeaseExpired \<Rightarrow> True | Ev_WorkerLost \<Rightarrow> True | Ev_Reconciled \<Rightarrow> True | _ \<Rightarrow> False)"

text \<open>The successor table (the last \<open>match\<close> of \<open>apply\<close>): the next state and fence.\<close>

fun next_state :: "job_state \<Rightarrow> fence \<Rightarrow> event \<Rightarrow> transition_error + (job_state \<times> fence)" where
  "next_state s cur ev = (case ev of
       Ev_DependenciesSatisfied \<Rightarrow>
         if s = Blocked then Inr (Queued, cur) else Inl (Invalid s ev)
     | Ev_ConditionFailed \<Rightarrow>
         if s = Blocked then Inr (Terminal (failure_outcome FC_Preparation), cur)
         else Inl (Invalid s ev)
     | Ev_Skip \<Rightarrow>
         if s = Blocked \<or> s = Queued then Inr (Terminal Skipped, cur) else Inl (Invalid s ev)
     | Ev_CancelBeforeStart \<Rightarrow>
         if s = Blocked \<or> s = Queued then Inr (Terminal Canceled, cur) else Inl (Invalid s ev)
     | Ev_QueueTimedOut \<Rightarrow>
         if s = Blocked \<or> s = Queued then Inr (Terminal TimedOut, cur) else Inl (Invalid s ev)
     | Ev_Leased f \<Rightarrow>
         if s = Queued then (if f \<le> cur then Inl (StaleFence cur f) else Inr (Leased, f))
         else Inl (Invalid s ev)
     | Ev_OfferLapsed \<Rightarrow>
         if s = Leased then Inr (Queued, cur) else Inl (Invalid s ev)
     | Ev_PreparationStarted \<Rightarrow>
         if s = Leased then Inr (Preparing, cur) else Inl (Invalid s ev)
     | Ev_StepsStarted \<Rightarrow>
         if s = Leased \<or> s = Preparing then Inr (Running, cur) else Inl (Invalid s ev)
     | Ev_FinalizationStarted \<Rightarrow>
         if s = Preparing \<or> s = Running then Inr (Finalizing, cur) else Inl (Invalid s ev)
     | Ev_Passed \<Rightarrow>
         if s = Finalizing then Inr (Terminal Passed, cur) else Inl (Invalid s ev)
     | Ev_Failed c \<Rightarrow>
         if is_worker_owned s then Inr (Terminal (failure_outcome c), cur) else Inl (Invalid s ev)
     | Ev_LeaseExpired \<Rightarrow>
         if is_worker_owned s then Inr (Terminal (failure_outcome FC_LeaseExpired), cur)
         else Inl (Invalid s ev)
     | Ev_WorkerLost \<Rightarrow>
         if is_worker_owned s then Inr (Terminal (failure_outcome FC_WorkerLost), cur)
         else Inl (Invalid s ev)
     | Ev_Reconciled \<Rightarrow>
         if is_worker_owned s then Inr (Terminal (failure_outcome FC_Reconciled), cur)
         else Inl (Invalid s ev)
     | Ev_Rerun \<Rightarrow> Inl (Invalid s ev))"

text \<open>A worker that presents another fence than the job's is stale.\<close>

fun stale_presented :: "actor \<Rightarrow> fence \<Rightarrow> fence option" where
  "stale_presented (Worker presented) cur = (if presented \<noteq> cur then Some presented else None)"
| "stale_presented _ cur = None"

definition job_apply ::
    "job_control \<Rightarrow> actor \<Rightarrow> event \<Rightarrow> (transition_error + job_state) \<times> job_control" where
  "job_apply jc a ev =
     (case jc_state jc of
        Terminal out \<Rightarrow>
          (if ev = Ev_Rerun then
             (case a of
                Controller \<Rightarrow>
                  if \<not> jc_cancel_requested jc then (Inr Queued, jc\<lparr>jc_state := Queued\<rparr>)
                  else (Inl (Invalid (jc_state jc) ev), jc)
              | _ \<Rightarrow> (Inl (Forbidden a ev), jc))
           else (Inl (AlreadyTerminal out), jc))
      | s \<Rightarrow>
          if \<not> actor_may a ev then (Inl (Forbidden a ev), jc)
          else
            (case stale_presented a (jc_fence jc) of
               Some presented \<Rightarrow> (Inl (StaleFence (jc_fence jc) presented), jc)
             | None \<Rightarrow>
                 (case next_state s (jc_fence jc) ev of
                    Inl e \<Rightarrow> (Inl e, jc)
                  | Inr (nxt, f) \<Rightarrow> (Inr nxt, jc\<lparr>jc_state := nxt, jc_fence := f\<rparr>))))"


subsection \<open>Runs and dependencies\<close>

datatype run_state = Run_Pending | Run_Active | Run_Terminal outcome

text \<open>The accumulator of \<open>aggregate\<close>'s loop.\<close>

record agg =
  agg_worst :: "outcome option"
  agg_started :: bool
  agg_unfinished :: bool
  agg_any :: bool
  agg_all_skipped :: bool

definition agg_init :: agg where
  "agg_init = \<lparr>agg_worst = None, agg_started = False, agg_unfinished = False, agg_any = False,
     agg_all_skipped = True\<rparr>"

fun agg_step :: "agg \<Rightarrow> job_state \<Rightarrow> agg" where
  "agg_step g (Terminal out) =
     (let g = g\<lparr>agg_any := True\<rparr> in
      if out \<noteq> Skipped then
        g\<lparr>agg_all_skipped := False,
          agg_worst := Some (case agg_worst g of Some w \<Rightarrow> if out \<le> w then w else out | None \<Rightarrow> out)\<rparr>
      else g)"
| "agg_step g Blocked = g\<lparr>agg_any := True, agg_unfinished := True\<rparr>"
| "agg_step g Queued = g\<lparr>agg_any := True, agg_unfinished := True\<rparr>"
| "agg_step g _ = g\<lparr>agg_any := True, agg_started := True, agg_unfinished := True\<rparr>"

definition agg_finish :: "agg \<Rightarrow> run_state" where
  "agg_finish g =
     (if \<not> agg_any g then Run_Pending
      else if agg_unfinished g then
        (if agg_started g \<or> agg_worst g \<noteq> None then Run_Active else Run_Pending)
      else Run_Terminal
        (if agg_all_skipped g then Skipped
         else (case agg_worst g of Some w \<Rightarrow> w | None \<Rightarrow> Passed)))"

definition aggregate :: "job_state list \<Rightarrow> run_state" where
  "aggregate jobs = agg_finish (foldl agg_step agg_init jobs)"

datatype dependency_policy = OnSuccess | Always | OnFailure

fun dependency_decision :: "dependency_policy \<Rightarrow> job_state \<Rightarrow> bool option" where
  "dependency_decision policy (Terminal out) =
     Some (case policy of
             OnSuccess \<Rightarrow> is_success out
           | Always \<Rightarrow> out \<noteq> Canceled
           | OnFailure \<Rightarrow> out \<in> {Failed, TimedOut, InfraFailed})"
| "dependency_decision policy _ = None"

subsection \<open>Attempt timestamps\<close>

type_synonym unix_millis = int

record attempt_timestamps =
  ts_queued :: "unix_millis option"
  ts_leased :: "unix_millis option"
  ts_preparing :: "unix_millis option"
  ts_running :: "unix_millis option"
  ts_finalizing :: "unix_millis option"
  ts_terminal :: "unix_millis option"

definition ts_default :: attempt_timestamps where
  "ts_default = \<lparr>ts_queued = None, ts_leased = None, ts_preparing = None, ts_running = None,
     ts_finalizing = None, ts_terminal = None\<rparr>"

text \<open>\<open>if slot.is_none() { *slot = Some(at) }\<close>, which is also SQL's \<open>COALESCE(slot, at)\<close>.\<close>

definition fill_slot :: "'a option \<Rightarrow> 'a \<Rightarrow> 'a option" where
  "fill_slot slot at = (case slot of None \<Rightarrow> Some at | Some t \<Rightarrow> Some t)"

fun ts_enter :: "attempt_timestamps \<Rightarrow> job_state \<Rightarrow> unix_millis \<Rightarrow> attempt_timestamps" where
  "ts_enter t Blocked at = t"
| "ts_enter t Queued at = t\<lparr>ts_queued := fill_slot (ts_queued t) at\<rparr>"
| "ts_enter t Leased at = t\<lparr>ts_leased := fill_slot (ts_leased t) at\<rparr>"
| "ts_enter t Preparing at = t\<lparr>ts_preparing := fill_slot (ts_preparing t) at\<rparr>"
| "ts_enter t Running at = t\<lparr>ts_running := fill_slot (ts_running t) at\<rparr>"
| "ts_enter t Finalizing at = t\<lparr>ts_finalizing := fill_slot (ts_finalizing t) at\<rparr>"
| "ts_enter t (Terminal _) at = t\<lparr>ts_terminal := fill_slot (ts_terminal t) at\<rparr>"

fun ts_slot :: "attempt_timestamps \<Rightarrow> job_state \<Rightarrow> unix_millis option" where
  "ts_slot t Blocked = None"
| "ts_slot t Queued = ts_queued t"
| "ts_slot t Leased = ts_leased t"
| "ts_slot t Preparing = ts_preparing t"
| "ts_slot t Running = ts_running t"
| "ts_slot t Finalizing = ts_finalizing t"
| "ts_slot t (Terminal _) = ts_terminal t"

subsection \<open>The life cycle as a step relation\<close>

inductive job_step :: "job_control \<Rightarrow> actor \<Rightarrow> event \<Rightarrow> job_control \<Rightarrow> bool" where
  release: "jc_state jc = Blocked \<Longrightarrow>
    job_step jc Controller Ev_DependenciesSatisfied (jc\<lparr>jc_state := Queued\<rparr>)"
| condition_failed: "jc_state jc = Blocked \<Longrightarrow>
    job_step jc Controller Ev_ConditionFailed (jc\<lparr>jc_state := Terminal InfraFailed\<rparr>)"
| skip: "jc_state jc = Blocked \<or> jc_state jc = Queued \<Longrightarrow>
    job_step jc Controller Ev_Skip (jc\<lparr>jc_state := Terminal Skipped\<rparr>)"
| cancel: "jc_state jc = Blocked \<or> jc_state jc = Queued \<Longrightarrow>
    job_step jc Controller Ev_CancelBeforeStart (jc\<lparr>jc_state := Terminal Canceled\<rparr>)"
| queue_timeout: "jc_state jc = Blocked \<or> jc_state jc = Queued \<Longrightarrow>
    job_step jc Controller Ev_QueueTimedOut (jc\<lparr>jc_state := Terminal TimedOut\<rparr>)"
| lease: "jc_state jc = Queued \<Longrightarrow> jc_fence jc < f \<Longrightarrow>
    job_step jc Controller (Ev_Leased f) (jc\<lparr>jc_state := Leased, jc_fence := f\<rparr>)"
| lapse: "jc_state jc = Leased \<Longrightarrow>
    job_step jc Controller Ev_OfferLapsed (jc\<lparr>jc_state := Queued\<rparr>)"
| prepare: "jc_state jc = Leased \<Longrightarrow>
    job_step jc (Worker (jc_fence jc)) Ev_PreparationStarted (jc\<lparr>jc_state := Preparing\<rparr>)"
| steps: "jc_state jc = Leased \<or> jc_state jc = Preparing \<Longrightarrow>
    job_step jc (Worker (jc_fence jc)) Ev_StepsStarted (jc\<lparr>jc_state := Running\<rparr>)"
| finalize: "jc_state jc = Preparing \<or> jc_state jc = Running \<Longrightarrow>
    job_step jc (Worker (jc_fence jc)) Ev_FinalizationStarted (jc\<lparr>jc_state := Finalizing\<rparr>)"
| pass: "jc_state jc = Finalizing \<Longrightarrow>
    job_step jc (Worker (jc_fence jc)) Ev_Passed (jc\<lparr>jc_state := Terminal Passed\<rparr>)"
| fail: "is_worker_owned (jc_state jc) \<Longrightarrow>
    job_step jc (Worker (jc_fence jc)) (Ev_Failed c)
      (jc\<lparr>jc_state := Terminal (failure_outcome c)\<rparr>)"
| lose: "is_worker_owned (jc_state jc) \<Longrightarrow> a = Controller \<or> a = Reconciler \<Longrightarrow>
    ev = Ev_LeaseExpired \<or> ev = Ev_WorkerLost \<Longrightarrow>
    job_step jc a ev (jc\<lparr>jc_state := Terminal InfraFailed\<rparr>)"
| reconcile: "is_worker_owned (jc_state jc) \<Longrightarrow>
    job_step jc Reconciler Ev_Reconciled (jc\<lparr>jc_state := Terminal InfraFailed\<rparr>)"
| rerun: "is_terminal (jc_state jc) \<Longrightarrow> \<not> jc_cancel_requested jc \<Longrightarrow>
    job_step jc Controller Ev_Rerun (jc\<lparr>jc_state := Queued\<rparr>)"

text \<open>Any interleaving of the two mutating calls.\<close>

datatype job_op = Op_apply actor event | Op_cancel

fun job_do :: "job_control \<Rightarrow> job_op \<Rightarrow> job_control" where
  "job_do jc (Op_apply a ev) = snd (job_apply jc a ev)"
| "job_do jc Op_cancel = snd (request_cancel jc)"

definition job_run :: "job_control \<Rightarrow> job_op list \<Rightarrow> job_control" where
  "job_run jc ops = foldl job_do jc ops"

fun progress_rank :: "job_state \<Rightarrow> nat" where
  "progress_rank Blocked = 0"
| "progress_rank Queued = 1"
| "progress_rank Leased = 2"
| "progress_rank Preparing = 3"
| "progress_rank Running = 4"
| "progress_rank Finalizing = 5"
| "progress_rank (Terminal _) = 6"


subsection \<open>\<open>apply\<close> follows the step relation\<close>

lemma job_apply_error_unchanged: "job_apply jc a ev = (Inl e, jc') \<Longrightarrow> jc' = jc"
  by (auto simp: job_apply_def split: job_state.splits if_splits actor.splits option.splits
      sum.splits)

lemma job_apply_ok:
  assumes "job_apply jc a ev = (Inr s, jc')"
  shows "jc_state jc' = s \<and> jc_cancel_requested jc' = jc_cancel_requested jc"
  using assms
  by (auto simp: job_apply_def split: job_state.splits if_splits actor.splits option.splits
      sum.splits)

lemma job_apply_step:
  assumes "job_apply jc a ev = (Inr s, jc')"
  shows "job_step jc a ev jc'"
  using assms
  by (cases ev; cases a; cases "jc_state jc")
    (auto simp: job_apply_def split: if_splits intro!: job_step.intros)

lemma job_step_apply:
  assumes "job_step jc a ev jc'"
  shows "job_apply jc a ev = (Inr (jc_state jc'), jc')"
  using assms
proof (cases rule: job_step.cases)
  case lose
  then show ?thesis by (cases "jc_state jc") (auto simp: job_apply_def)
next
  case reconcile
  then show ?thesis by (cases "jc_state jc") (auto simp: job_apply_def)
next
  case fail
  then show ?thesis by (cases "jc_state jc") (auto simp: job_apply_def)
next
  case rerun
  then show ?thesis by (cases "jc_state jc") (auto simp: job_apply_def)
qed (auto simp: job_apply_def)

lemma job_apply_iff_step: "(\<exists>s. job_apply jc a ev = (Inr s, jc')) \<longleftrightarrow> job_step jc a ev jc'"
  using job_apply_step job_step_apply by blast

lemma job_step_fence_mono: "job_step jc a ev jc' \<Longrightarrow> jc_fence jc \<le> jc_fence jc'"
  by (cases rule: job_step.cases) auto

lemma job_step_worker_fence: "job_step jc (Worker f) ev jc' \<Longrightarrow> f = jc_fence jc"
  by (cases rule: job_step.cases) auto

lemma job_step_never_blocked: "job_step jc a ev jc' \<Longrightarrow> jc_state jc' \<noteq> Blocked"
  by (cases rule: job_step.cases) auto

lemma job_apply_cases:
  obtains (err) e where "job_apply jc a ev = (Inl e, jc)"
    | (ok) jc' where "job_apply jc a ev = (Inr (jc_state jc'), jc')" "job_step jc a ev jc'"
proof (cases "job_apply jc a ev")
  case (Pair r jc')
  show ?thesis
  proof (cases r)
    case (Inl e)
    with Pair have "jc' = jc" by (simp add: job_apply_error_unchanged)
    with Pair Inl err show ?thesis by simp
  next
    case (Inr s)
    with Pair have "job_step jc a ev jc'" by (simp add: job_apply_step)
    with ok show ?thesis using job_step_apply by blast
  qed
qed

lemma job_do_fence_mono: "jc_fence jc \<le> jc_fence (job_do jc op)"
proof (cases op)
  case (Op_apply a ev)
  then show ?thesis
    by (cases rule: job_apply_cases [of jc a ev]) (auto dest: job_step_fence_mono)
qed (simp add: request_cancel_def)

lemma job_run_fence_mono: "jc_fence jc \<le> jc_fence (job_run jc ops)"
proof (induction ops arbitrary: jc)
  case (Cons op ops)
  have "jc_fence jc \<le> jc_fence (job_do jc op)" by (rule job_do_fence_mono)
  also have "\<dots> \<le> jc_fence (job_run (job_do jc op) ops)" by (rule Cons)
  finally show ?case by (simp add: job_run_def)
qed (simp add: job_run_def)

subsection \<open>Aggregation\<close>

definition worst_of :: "job_state list \<Rightarrow> outcome set" where
  "worst_of jobs = {out. Terminal out \<in> set jobs \<and> out \<noteq> Skipped}"

text \<open>What \<open>aggregate\<close> promises, on the set of job states alone.\<close>

definition aggregate_spec :: "job_state list \<Rightarrow> run_state" where
  "aggregate_spec jobs =
     (if jobs = [] then Run_Pending
      else if \<exists>s\<in>set jobs. \<not> is_terminal s then
        (if (\<exists>s\<in>set jobs. is_worker_owned s) \<or> worst_of jobs \<noteq> {} then Run_Active
         else Run_Pending)
      else if worst_of jobs = {} then Run_Terminal Skipped
      else Run_Terminal (Max (worst_of jobs)))"

lemma finite_worst_of [simp]: "finite (worst_of jobs)"
proof (rule finite_subset)
  show "worst_of jobs \<subseteq> {Passed, Skipped, Canceled, TimedOut, Failed, InfraFailed}"
    using outcome.exhaust by blast
qed simp

lemma worst_of_snoc:
  "worst_of (jobs @ [s]) =
     (case s of Terminal out \<Rightarrow> if out = Skipped then worst_of jobs else insert out (worst_of jobs)
      | _ \<Rightarrow> worst_of jobs)"
  by (auto simp: worst_of_def split: job_state.splits)

definition agg_inv :: "job_state list \<Rightarrow> agg \<Rightarrow> bool" where
  "agg_inv jobs g \<longleftrightarrow>
     agg_any g = (jobs \<noteq> []) \<and>
     agg_unfinished g = (\<exists>s\<in>set jobs. \<not> is_terminal s) \<and>
     agg_started g = (\<exists>s\<in>set jobs. is_worker_owned s) \<and>
     agg_all_skipped g = (worst_of jobs = {}) \<and>
     agg_worst g = (if worst_of jobs = {} then None else Some (Max (worst_of jobs)))"

lemma agg_inv_step: "agg_inv jobs g \<Longrightarrow> agg_inv (jobs @ [s]) (agg_step g s)"
proof (cases s)
  case (Terminal out)
  assume inv: "agg_inv jobs g"
  show ?thesis
  proof (cases "out = Skipped \<or> worst_of jobs = {}")
    case True
    with inv Terminal show ?thesis by (auto simp: agg_inv_def worst_of_snoc Let_def)
  next
    case False
    then have "Max (insert out (worst_of jobs)) = max out (Max (worst_of jobs))"
      by (simp add: Max_insert)
    with False inv Terminal show ?thesis
      by (auto simp: agg_inv_def worst_of_snoc Let_def max_def)
  qed
qed (auto simp: agg_inv_def worst_of_snoc)

lemma agg_inv_fold: "agg_inv jobs (foldl agg_step agg_init jobs)"
proof (induction jobs rule: rev_induct)
  case Nil
  show ?case by (simp add: agg_inv_def agg_init_def worst_of_def)
next
  case (snoc s jobs)
  then show ?case using agg_inv_step by simp
qed

lemma aggregate_eq_spec: "aggregate jobs = aggregate_spec jobs"
  using agg_inv_fold [of jobs]
  by (auto simp: aggregate_def agg_finish_def aggregate_spec_def agg_inv_def)

subsection \<open>Timestamps\<close>

lemma fill_slot_Some [simp]: "fill_slot (Some t) at = Some t"
  by (simp add: fill_slot_def)

lemma fill_slot_not_None [simp]: "fill_slot slot at \<noteq> None"
  by (simp add: fill_slot_def split: option.splits)

lemma ts_slot_enter:
  "s \<noteq> Blocked \<Longrightarrow> ts_slot (ts_enter t s' at) s =
     (if progress_rank s' = progress_rank s then fill_slot (ts_slot t s) at else ts_slot t s)"
  by (cases s; cases s') simp_all

subsection \<open>Properties\<close>

text \<open>
  C1: fencing. Once a job's fence has passed the one a worker holds, no sequence of further calls,
  by any actors in any interleaving, brings the job back into that worker's reach: whatever it
  reports is refused and leaves the job unchanged.
\<close>

theorem fenced_out_worker_never_acts:
  assumes "presented < jc_fence jc"
  shows "\<exists>e. job_apply (job_run jc ops) (Worker presented) ev = (Inl e, job_run jc ops)"
proof (cases rule: job_apply_cases [of "job_run jc ops" "Worker presented" ev])
  case (ok jc')
  from ok(2) have "presented = jc_fence (job_run jc ops)" by (rule job_step_worker_fence)
  with assms job_run_fence_mono [of jc ops] show ?thesis by simp
qed blast

theorem fenced_out_worker_never_acts_witness:
  "\<exists>e. job_apply
       (job_run \<lparr>jc_state = Queued, jc_fence = 2, jc_cancel_requested = False\<rparr>
          [Op_apply Controller (Ev_Leased 3), Op_apply (Worker 3) Ev_StepsStarted])
       (Worker 1) Ev_Passed =
     (Inl e, job_run \<lparr>jc_state = Queued, jc_fence = 2, jc_cancel_requested = False\<rparr>
          [Op_apply Controller (Ev_Leased 3), Op_apply (Worker 3) Ev_StepsStarted])"
  by (rule fenced_out_worker_never_acts) simp

text \<open>
  C2: \<open>apply\<close> implements the life cycle. It returns \<open>Ok\<close> exactly when the life cycle has an arrow
  for this actor and event from the current state and fence, it then returns the state it has
  moved to, and every error leaves the job as it was.
\<close>

theorem job_apply_implements_life_cycle:
  "case job_apply jc a ev of
     (Inr s, jc') \<Rightarrow> job_step jc a ev jc' \<and> s = jc_state jc' \<and> s \<noteq> Blocked
   | (Inl e, jc') \<Rightarrow> jc' = jc \<and> (\<nexists>jc''. job_step jc a ev jc'')"
proof (cases rule: job_apply_cases [of jc a ev])
  case (err e)
  have "\<not> job_step jc a ev jc''" for jc''
    using err job_step_apply [of jc a ev jc''] by auto
  with err show ?thesis by simp
next
  case (ok jc')
  then show ?thesis by (simp add: job_step_never_blocked)
qed

text \<open>
  C25: no message moves a job backwards and no message counts twice. A successful event other than
  a lapsed offer or a rerun strictly advances the job, and repeating any successful message from
  the same actor at once is refused without effect.
\<close>

theorem job_apply_forward_once:
  assumes "job_apply jc a ev = (Inr s, jc')"
  shows "(ev \<in> {Ev_OfferLapsed, Ev_Rerun} \<or> progress_rank (jc_state jc) < progress_rank s)
    \<and> (\<exists>e. job_apply jc' a ev = (Inl e, jc'))"
proof -
  from assms have step: "job_step jc a ev jc'" and s: "s = jc_state jc'"
    by (auto dest: job_apply_step job_apply_ok)
  from step have "ev \<in> {Ev_OfferLapsed, Ev_Rerun} \<or>
      progress_rank (jc_state jc) < progress_rank (jc_state jc')"
    by (cases rule: job_step.cases; cases "jc_state jc") auto
  moreover from step have "\<exists>e. job_apply jc' a ev = (Inl e, jc')"
    by (cases rule: job_step.cases) (auto simp: job_apply_def)
  ultimately show ?thesis using s by blast
qed

theorem job_apply_forward_once_witness:
  "(Ev_Passed \<in> {Ev_OfferLapsed, Ev_Rerun} \<or>
      progress_rank Finalizing < progress_rank (Terminal Passed))
   \<and> (\<exists>e. job_apply \<lparr>jc_state = Terminal Passed, jc_fence = 7, jc_cancel_requested = False\<rparr>
         (Worker 7) Ev_Passed
       = (Inl e, \<lparr>jc_state = Terminal Passed, jc_fence = 7, jc_cancel_requested = False\<rparr>))"
  using job_apply_forward_once
    [of "\<lparr>jc_state = Finalizing, jc_fence = 7, jc_cancel_requested = False\<rparr>" "Worker 7" Ev_Passed
       "Terminal Passed" "\<lparr>jc_state = Terminal Passed, jc_fence = 7, jc_cancel_requested = False\<rparr>"]
  by (simp add: job_apply_def)

definition fence_inv :: "job_control \<Rightarrow> bool" where
  "fence_inv jc \<longleftrightarrow>
     (is_worker_owned (jc_state jc) \<or> jc_state jc = Terminal Passed \<longrightarrow> fence_is_set (jc_fence jc))"

lemma fence_inv_step: "job_step jc a ev jc' \<Longrightarrow> fence_inv jc \<Longrightarrow> fence_inv jc'"
proof (induction rule: job_step.induct)
  case (fail jc c)
  have "failure_outcome c \<noteq> Passed" by (cases c) simp_all
  with fail show ?case by (simp add: fence_inv_def)
next
  case (lease jc f)
  then have "f \<noteq> 0" by auto
  with lease show ?case by (simp add: fence_inv_def fence_is_set_def)
qed (auto simp: fence_inv_def)

lemma fence_inv_do: "fence_inv jc \<Longrightarrow> fence_inv (job_do jc op)"
proof (cases op)
  case (Op_apply a ev)
  assume "fence_inv jc"
  with Op_apply show ?thesis
    by (cases rule: job_apply_cases [of jc a ev]) (auto intro: fence_inv_step)
qed (simp add: request_cancel_def fence_inv_def)

lemma fence_inv_run: "fence_inv jc \<Longrightarrow> fence_inv (job_run jc ops)"
proof (induction ops arbitrary: jc)
  case (Cons op ops)
  then show ?case using fence_inv_do by (simp add: job_run_def)
qed (simp add: job_run_def)

text \<open>
  C26: nothing runs or passes without a lease. Whatever happens to a new job, if a worker owns it
  or it has passed, its fence is set, so a lease was granted; and a job that is still before its
  first lease has neither run nor passed.
\<close>

theorem owned_or_passed_implies_leased:
  "(is_worker_owned (jc_state (job_run job_new ops)) \<or> jc_state (job_run job_new ops) = Terminal Passed)
     \<longrightarrow> fence_is_set (jc_fence (job_run job_new ops))"
proof -
  have "fence_inv job_new" by (simp add: fence_inv_def job_new_def)
  then have "fence_inv (job_run job_new ops)" by (rule fence_inv_run)
  then show ?thesis by (simp add: fence_inv_def)
qed

theorem owned_or_passed_implies_leased_witness:
  "fence_is_set (jc_fence (job_run job_new
     [Op_apply Controller Ev_DependenciesSatisfied, Op_apply Controller (Ev_Leased 1),
      Op_apply (Worker 1) Ev_PreparationStarted]))"
proof -
  have "jc_state (job_run job_new
     [Op_apply Controller Ev_DependenciesSatisfied, Op_apply Controller (Ev_Leased 1),
      Op_apply (Worker 1) Ev_PreparationStarted]) = Preparing"
    by (simp add: job_run_def job_new_def job_apply_def fence_none_def)
  then show ?thesis by (intro owned_or_passed_implies_leased [THEN mp]) simp
qed

text \<open>
  C27: a run's state is a function of the set of its jobs' states. \<open>aggregate\<close>'s single pass yields
  pending for no jobs, pending or active while a job is unfinished, skipped when every job was
  skipped, and otherwise the worst outcome that is not a skip.
\<close>

theorem aggregate_is_worst_outcome: "aggregate jobs = aggregate_spec jobs"
  by (rule aggregate_eq_spec)

text \<open>
  A timestamp is the time its state was first entered. After any sequence of entries, also
  reordered or repeated ones, the slot of a state holds the time of the first entry into it.
\<close>

theorem first_entry_wins:
  assumes "s \<noteq> Blocked"
  shows "ts_slot (foldl (\<lambda>t (s', at). ts_enter t s' at) ts_default entries) s =
    map_option snd (find (\<lambda>(s', at). progress_rank s' = progress_rank s) entries)"
proof -
  have "ts_slot (foldl (\<lambda>t (s', at). ts_enter t s' at) t entries) s =
      (case ts_slot t s of Some v \<Rightarrow> Some v
       | None \<Rightarrow> map_option snd (find (\<lambda>(s', at). progress_rank s' = progress_rank s) entries))" for t
  proof (induction entries arbitrary: t)
    case Nil
    show ?case by (simp split: option.splits)
  next
    case (Cons e entries)
    then show ?case using assms
      by (cases e) (auto simp: ts_slot_enter fill_slot_def split: option.splits)
  qed
  moreover have "ts_slot ts_default s = None" by (cases s) (simp_all add: ts_default_def)
  ultimately show ?thesis by simp
qed

theorem first_entry_wins_witness:
  "ts_slot (foldl (\<lambda>t (s', at). ts_enter t s' at) ts_default
      [(Blocked, 5), (Running, 10), (Running, 20), (Terminal Passed, 30)]) Running = Some 10"
  using first_entry_wins
    [of Running "[(Blocked, 5), (Running, 10), (Running, 20), (Terminal Passed, 30)]"]
  by simp

end
