(* ===== verification/Core_Auth.thy ===== *)
theory Core_Auth
  imports Sentinel_Prelude
begin

text \<open>
  Authorization inputs (\<open>crates/sentinel-core/src/auth.rs\<close>): the permission and scope bit sets at
  their stored widths, the textual form of a scope set, the translation between scopes and
  permissions, token audiences, principals and tenant namespaces.  The two bit sets share one
  contract, the locale \<open>capability_mask\<close>, which is interpreted on both.
\<close>

subsection \<open>Roles, permissions\<close>

datatype role = Reader | Operator | TenantAdmin

primrec role_code :: "role \<Rightarrow> u8" where
  "role_code Reader = 1"
| "role_code Operator = 2"
| "role_code TenantAdmin = 3"

type_synonym permissions = u8

definition perm_NONE :: permissions where "perm_NONE = 0"
definition perm_READ :: permissions where "perm_READ = 1"
definition perm_RUN :: permissions where "perm_RUN = 2"
definition perm_WRITE_SECRETS :: permissions where "perm_WRITE_SECRETS = 4"
definition perm_TENANT_ADMIN :: permissions where "perm_TENANT_ADMIN = 8"
definition perm_PLATFORM_ADMIN :: permissions where "perm_PLATFORM_ADMIN = 16"
definition perm_REPOSITORY :: permissions where "perm_REPOSITORY = 7"
definition perm_ALL :: permissions where "perm_ALL = 31"

definition perm_union :: "permissions \<Rightarrow> permissions \<Rightarrow> permissions" where
  "perm_union self other = self OR other"

definition perm_contains :: "permissions \<Rightarrow> permissions \<Rightarrow> bool" where
  "perm_contains self required \<longleftrightarrow> self AND required = required"

definition perm_from_bits :: "u8 \<Rightarrow> permissions option" where
  "perm_from_bits bits = (if bits AND NOT perm_ALL = 0 then Some bits else None)"

subsection \<open>Scopes\<close>

type_synonym scopes = u32

definition sc_NONE :: scopes where "sc_NONE = 0"
definition sc_RUNS_READ :: scopes where "sc_RUNS_READ = push_bit 0 1"
definition sc_RUNS_WRITE :: scopes where "sc_RUNS_WRITE = push_bit 1 1"
definition sc_LOGS_READ :: scopes where "sc_LOGS_READ = push_bit 2 1"
definition sc_ARTIFACTS_READ :: scopes where "sc_ARTIFACTS_READ = push_bit 3 1"
definition sc_CACHE_READ :: scopes where "sc_CACHE_READ = push_bit 4 1"
definition sc_CACHE_WRITE :: scopes where "sc_CACHE_WRITE = push_bit 5 1"
definition sc_SECRETS_METADATA :: scopes where "sc_SECRETS_METADATA = push_bit 6 1"
definition sc_SECRETS_WRITE :: scopes where "sc_SECRETS_WRITE = push_bit 7 1"
definition sc_TENANT_ADMIN :: scopes where "sc_TENANT_ADMIN = push_bit 8 1"
definition sc_PLATFORM_ADMIN :: scopes where "sc_PLATFORM_ADMIN = push_bit 9 1"
definition sc_ALL :: scopes where "sc_ALL = 0x3FF"

definition sc_MCP :: scopes where
  "sc_MCP = sc_RUNS_READ OR sc_RUNS_WRITE OR sc_LOGS_READ OR sc_SECRETS_METADATA"

definition sc_MCP_DEFAULT :: scopes where
  "sc_MCP_DEFAULT = sc_RUNS_READ OR sc_LOGS_READ"

definition sc_MCP_NAMES :: "string list" where
  "sc_MCP_NAMES = [''runs:read'', ''runs:write'', ''logs:read'', ''secrets:metadata'']"

definition sc_CLI_DEFAULT :: scopes where
  "sc_CLI_DEFAULT = sc_RUNS_READ OR sc_RUNS_WRITE OR sc_LOGS_READ OR sc_ARTIFACTS_READ OR sc_CACHE_READ"

definition sc_NAMES :: "string list" where
  "sc_NAMES =
     [''runs:read'', ''runs:write'', ''logs:read'', ''artifacts:read'', ''cache:read'',
      ''cache:write'', ''secrets:metadata'', ''secrets:write'', ''tenant:admin'',
      ''platform:admin'']"

definition sc_READS :: scopes where
  "sc_READS = sc_RUNS_READ OR sc_LOGS_READ OR sc_ARTIFACTS_READ OR sc_CACHE_READ OR sc_SECRETS_METADATA"

definition sc_RUNS :: scopes where
  "sc_RUNS = sc_RUNS_WRITE OR sc_CACHE_WRITE"

definition sc_from_bits :: "u32 \<Rightarrow> scopes option" where
  "sc_from_bits bits = (if bits AND NOT sc_ALL = 0 then Some bits else None)"

definition sc_contains :: "scopes \<Rightarrow> scopes \<Rightarrow> bool" where
  "sc_contains self required \<longleftrightarrow> self AND required = required"

definition sc_union :: "scopes \<Rightarrow> scopes \<Rightarrow> scopes" where
  "sc_union self other = self OR other"

definition sc_intersect :: "scopes \<Rightarrow> scopes \<Rightarrow> scopes" where
  "sc_intersect self other = self AND other"

definition sc_difference :: "scopes \<Rightarrow> scopes \<Rightarrow> scopes" where
  "sc_difference self other = self AND NOT other"

definition sc_is_empty :: "scopes \<Rightarrow> bool" where
  "sc_is_empty self \<longleftrightarrow> self = 0"

datatype unknown_scope = UnknownScope

text \<open>\<open>Scopes::parse\<close>: the loop over the words of the text, from the bits gathered so far.\<close>

fun sc_parse_words :: "u32 \<Rightarrow> string list \<Rightarrow> unknown_scope + scopes" where
  "sc_parse_words bits [] = Inr bits"
| "sc_parse_words bits (name # names) =
     (case position (\<lambda>known. known = name) sc_NAMES of
        None \<Rightarrow> Inl UnknownScope
      | Some at \<Rightarrow> sc_parse_words (bits OR push_bit at 1) names)"

definition sc_parse :: "string \<Rightarrow> unknown_scope + scopes" where
  "sc_parse t = sc_parse_words 0 (filter (\<lambda>n. n \<noteq> []) (split_on (CHR '' '') t))"

definition sc_names :: "scopes \<Rightarrow> string list" where
  "sc_names self =
     map snd (filter (\<lambda>(at, _). self AND push_bit at 1 \<noteq> 0) (List.enumerate 0 sc_NAMES))"

text \<open>\<open>Scopes::write_names\<close>: a blank goes before every name but the first.\<close>

fun sc_write_from :: "nat \<Rightarrow> string list \<Rightarrow> string \<Rightarrow> string" where
  "sc_write_from index [] out = out"
| "sc_write_from index (name # names) out =
     sc_write_from (Suc index) names ((if index \<noteq> 0 then out @ '' '' else out) @ name)"

definition sc_write_names :: "scopes \<Rightarrow> string \<Rightarrow> string" where
  "sc_write_names self out = sc_write_from 0 (sc_names self) out"

definition sc_to_names :: "scopes \<Rightarrow> string" where
  "sc_to_names self = sc_write_names self []"

definition sc_ceiling :: "scopes \<Rightarrow> permissions" where
  "sc_ceiling self =
     (let bits = 0;
          bits = (if self AND sc_READS \<noteq> 0 then bits OR perm_READ else bits);
          bits = (if self AND sc_RUNS \<noteq> 0 then bits OR perm_RUN else bits);
          bits = (if self AND sc_SECRETS_WRITE \<noteq> 0 then bits OR perm_WRITE_SECRETS else bits);
          bits = (if self AND sc_TENANT_ADMIN \<noteq> 0 then bits OR perm_TENANT_ADMIN else bits);
          bits = (if self AND sc_PLATFORM_ADMIN \<noteq> 0 then bits OR perm_PLATFORM_ADMIN else bits)
      in bits)"

definition sc_from_permissions :: "permissions \<Rightarrow> scopes" where
  "sc_from_permissions p =
     (let bits = 0;
          bits = (if p AND perm_READ \<noteq> 0 then bits OR sc_READS else bits);
          bits = (if p AND perm_RUN \<noteq> 0 then bits OR sc_RUNS else bits);
          bits = (if p AND perm_WRITE_SECRETS \<noteq> 0 then bits OR sc_SECRETS_WRITE else bits);
          bits = (if p AND perm_TENANT_ADMIN \<noteq> 0 then bits OR sc_TENANT_ADMIN else bits);
          bits = (if p AND perm_PLATFORM_ADMIN \<noteq> 0 then bits OR sc_PLATFORM_ADMIN else bits)
      in bits)"

subsection \<open>Audiences, principals, namespaces\<close>

datatype audience = Api | Mcp

primrec audience_code :: "audience \<Rightarrow> u8" where
  "audience_code Api = 1"
| "audience_code Mcp = 2"

definition audience_from_code :: "u8 \<Rightarrow> audience option" where
  "audience_from_code code = (if code = 1 then Some Api else if code = 2 then Some Mcp else None)"

record ('user, 'tenant, 'repo) principal =
  pr_user :: 'user
  pr_permissions :: permissions
  pr_tenant :: "'tenant option"
  pr_repo :: "'repo option"

definition namespace_parse :: "string \<Rightarrow> string option" where
  "namespace_parse s =
     (if s = [] \<or> 63 < length s \<or> \<not> is_alnum (hd s) \<or> \<not> is_alnum (last s)
         \<or> \<not> list_all (\<lambda>b. is_lower b \<or> is_digit b \<or> b = CHR ''-'') s
      then None else Some s)"

subsection \<open>The contract of a capability mask\<close>

locale capability_mask =
  fixes defined_bits :: "'a::len word"
    and has :: "'a word \<Rightarrow> 'a word \<Rightarrow> bool"
    and join :: "'a word \<Rightarrow> 'a word \<Rightarrow> 'a word"
    and decode :: "'a word \<Rightarrow> 'a word option"
  assumes has_iff: "has a b \<longleftrightarrow> (\<forall>i. bit b i \<longrightarrow> bit a i)"
    and join_iff: "bit (join a b) i \<longleftrightarrow> bit a i \<or> bit b i"
    and decode_iff: "decode b = Some r \<longleftrightarrow> r = b \<and> has defined_bits b"
begin

lemma has_refl: "has a a"
  by (simp add: has_iff)

lemma has_trans: "has a b \<Longrightarrow> has b c \<Longrightarrow> has a c"
  by (simp add: has_iff)

lemma has_antisym: "has a b \<Longrightarrow> has b a \<Longrightarrow> a = b"
  by (auto simp: has_iff intro: bit_eqI)

lemma has_join_left: "has a c \<Longrightarrow> has (join a b) c"
  by (simp add: has_iff join_iff)

lemma has_join: "has c (join a b) \<longleftrightarrow> has c a \<and> has c b"
  by (auto simp: has_iff join_iff)

lemma decode_join: "decode a = Some a' \<Longrightarrow> decode b = Some b' \<Longrightarrow> decode (join a b) = Some (join a b)"
  by (simp add: decode_iff has_join)

lemma decode_narrower: "decode a = Some a' \<Longrightarrow> has a b \<Longrightarrow> decode b = Some b"
  by (auto simp: decode_iff intro: has_trans)

end

interpretation pm: capability_mask perm_ALL perm_contains perm_union perm_from_bits
  by unfold_locales
    (auto simp: perm_contains_def perm_union_def perm_from_bits_def and_absorb_iff and_not_zero_iff bit_or_iff)

interpretation sm: capability_mask sc_ALL sc_contains sc_union sc_from_bits
  by unfold_locales
    (auto simp: sc_contains_def sc_union_def sc_from_bits_def and_absorb_iff and_not_zero_iff bit_or_iff)

subsection \<open>The masks bit by bit\<close>

lemma bit_sc_ALL: "bit sc_ALL i \<longleftrightarrow> i < 10"
proof -
  have *: "sc_ALL = mask 10" by (simp add: sc_ALL_def mask_eq_exp_minus_1)
  show ?thesis unfolding * bit_mask_iff by auto
qed

lemma bit_perm_ALL: "bit perm_ALL i \<longleftrightarrow> i < 5"
proof -
  have *: "perm_ALL = mask 5" by (simp add: perm_ALL_def mask_eq_exp_minus_1)
  show ?thesis unfolding * bit_mask_iff by auto
qed

lemmas scope_unit_defs = sc_RUNS_READ_def sc_RUNS_WRITE_def sc_LOGS_READ_def sc_ARTIFACTS_READ_def
  sc_CACHE_READ_def sc_CACHE_WRITE_def sc_SECRETS_METADATA_def sc_SECRETS_WRITE_def
  sc_TENANT_ADMIN_def sc_PLATFORM_ADMIN_def

lemma bit_scope_groups:
  "bit sc_READS i \<longleftrightarrow> i \<in> {0, 2, 3, 4, 6}"
  "bit sc_RUNS i \<longleftrightarrow> i \<in> {1, 5}"
  "bit sc_SECRETS_WRITE i \<longleftrightarrow> i = 7"
  "bit sc_TENANT_ADMIN i \<longleftrightarrow> i = 8"
  "bit sc_PLATFORM_ADMIN i \<longleftrightarrow> i = 9"
  unfolding sc_READS_def sc_RUNS_def scope_unit_defs bit_or_iff bit_unit by auto

lemma bit_perm_units:
  "bit perm_READ i \<longleftrightarrow> i = 0" "bit perm_RUN i \<longleftrightarrow> i = 1" "bit perm_WRITE_SECRETS i \<longleftrightarrow> i = 2"
  "bit perm_TENANT_ADMIN i \<longleftrightarrow> i = 3" "bit perm_PLATFORM_ADMIN i \<longleftrightarrow> i = 4"
proof -
  have *: "perm_READ = push_bit 0 1" "perm_RUN = push_bit 1 1" "perm_WRITE_SECRETS = push_bit 2 1"
    "perm_TENANT_ADMIN = push_bit 3 1" "perm_PLATFORM_ADMIN = push_bit 4 1"
    by (simp_all add: perm_READ_def perm_RUN_def perm_WRITE_SECRETS_def perm_TENANT_ADMIN_def
        perm_PLATFORM_ADMIN_def)
  show "bit perm_READ i \<longleftrightarrow> i = 0" "bit perm_RUN i \<longleftrightarrow> i = 1" "bit perm_WRITE_SECRETS i \<longleftrightarrow> i = 2"
    "bit perm_TENANT_ADMIN i \<longleftrightarrow> i = 3" "bit perm_PLATFORM_ADMIN i \<longleftrightarrow> i = 4"
    unfolding * bit_unit by auto
qed

text \<open>The permission a scope bit stands for.\<close>

definition perm_bit :: "nat \<Rightarrow> nat" where
  "perm_bit i = (if i \<in> {0, 2, 3, 4, 6} then 0 else if i \<in> {1, 5} then 1 else i - 5)"

lemma bit_ceiling: "bit (sc_ceiling s) j \<longleftrightarrow> (\<exists>i<10. bit s i \<and> perm_bit i = j)"
proof -
  have "bit (sc_ceiling s) j \<longleftrightarrow>
      j = 0 \<and> s AND sc_READS \<noteq> 0 \<or> j = 1 \<and> s AND sc_RUNS \<noteq> 0 \<or> j = 2 \<and> s AND sc_SECRETS_WRITE \<noteq> 0
      \<or> j = 3 \<and> s AND sc_TENANT_ADMIN \<noteq> 0 \<or> j = 4 \<and> s AND sc_PLATFORM_ADMIN \<noteq> 0"
    by (auto simp: sc_ceiling_def Let_def bit_or_iff bit_perm_units)
  also have "\<dots> \<longleftrightarrow> (\<exists>i\<in>{0..<10}. bit s i \<and> perm_bit i = j)"
    unfolding and_nonzero_iff bit_scope_groups atLeastLessThan_nat_numeral perm_bit_def
    by (auto simp: atLeastLessThan_nat_numeral)
  finally show ?thesis by auto
qed

lemma bit_from_permissions: "bit (sc_from_permissions p) i \<longleftrightarrow> i < 10 \<and> bit p (perm_bit i)"
proof -
  have "bit (sc_from_permissions p) i \<longleftrightarrow>
      i \<in> {0, 2, 3, 4, 6} \<and> bit p 0 \<or> i \<in> {1, 5} \<and> bit p 1 \<or> i = 7 \<and> bit p 2
      \<or> i = 8 \<and> bit p 3 \<or> i = 9 \<and> bit p 4"
    by (auto simp: sc_from_permissions_def Let_def bit_or_iff bit_scope_groups and_nonzero_iff
        bit_perm_units)
  also have "\<dots> \<longleftrightarrow> i < 10 \<and> bit p (perm_bit i)"
    by (auto simp: perm_bit_def numeral_eq_Suc less_Suc_eq)
  finally show ?thesis .
qed

lemma ceiling_le_iff:
  assumes "sc_contains sc_ALL s"
  shows "perm_contains p (sc_ceiling s) \<longleftrightarrow> sc_contains (sc_from_permissions p) s"
  using assms by (auto simp: pm.has_iff sm.has_iff bit_ceiling bit_from_permissions bit_sc_ALL)

subsection \<open>The textual form\<close>

lemma sc_NAMES_facts: "distinct sc_NAMES" "length sc_NAMES = 10"
  "n \<in> set sc_NAMES \<Longrightarrow> n \<noteq> [] \<and> CHR '' '' \<notin> set n"
  by (auto simp: sc_NAMES_def)

lemma sc_parse_words_Inr:
  "sc_parse_words bits ws = Inr s \<longleftrightarrow>
     set ws \<subseteq> set sc_NAMES \<and> (\<forall>i. bit s i \<longleftrightarrow> bit bits i \<or> i < 10 \<and> sc_NAMES ! i \<in> set ws)"
proof (induction bits ws rule: sc_parse_words.induct)
  case (1 bits)
  show ?case by (auto intro: bit_eqI)
next
  case (2 bits name names)
  show ?case
  proof (cases "position (\<lambda>known. known = name) sc_NAMES")
    case None
    then have "name \<notin> set sc_NAMES" by (auto simp: position_None)
    with None show ?thesis by auto
  next
    case (Some at)
    then have at: "at < 10" "sc_NAMES ! at = name" "name \<in> set sc_NAMES"
      by (auto simp: position_Some sc_NAMES_facts)
    have "bit (bits OR push_bit at 1) i \<longleftrightarrow> bit bits i \<or> i < 10 \<and> sc_NAMES ! i = name" for i
      unfolding bit_or_iff bit_unit
      using at nth_eq_iff_index_eq [OF sc_NAMES_facts(1)] by (auto simp: sc_NAMES_facts(2))
    then show ?thesis using Some 2 at by auto
  qed
qed

lemma sc_parse_Inr:
  "sc_parse t = Inr s \<longleftrightarrow>
     set (split_on (CHR '' '') t) - {[]} \<subseteq> set sc_NAMES
     \<and> (\<forall>i. bit s i \<longleftrightarrow> i < 10 \<and> sc_NAMES ! i \<in> set (split_on (CHR '' '') t))"
proof -
  have "sc_NAMES ! i \<noteq> []" if "i < 10" for i
    using that sc_NAMES_facts(3) [of "sc_NAMES ! i"] by (simp add: sc_NAMES_facts(2))
  then show ?thesis by (auto simp: sc_parse_def sc_parse_words_Inr)
qed

lemma set_sc_names: "set (sc_names s) = {sc_NAMES ! i | i. i < 10 \<and> bit s i}"
proof -
  have "s AND push_bit i 1 \<noteq> 0 \<longleftrightarrow> bit s i" if "i < 10" for i
    unfolding and_nonzero_iff bit_unit using that by auto
  then show ?thesis
    by (force simp: sc_names_def in_set_enumerate_eq sc_NAMES_facts image_iff)
qed

lemma sc_write_from_eq:
  "sc_write_from index ws out =
     out @ (if index \<noteq> 0 \<and> ws \<noteq> [] then '' '' else []) @ join_with '' '' ws"
proof (induction index ws out rule: sc_write_from.induct)
  case (2 index name names out)
  then show ?case by (cases names) auto
qed simp

lemma sc_to_names_eq: "sc_to_names s = join_with '' '' (sc_names s)"
  by (simp add: sc_to_names_def sc_write_names_def sc_write_from_eq)

lemma words_of_names: "set (split_on (CHR '' '') (sc_to_names s)) - {[]} = set (sc_names s)"
proof (cases "sc_names s = []")
  case False
  have "set (sc_names s) \<subseteq> set sc_NAMES"
    by (auto simp: set_sc_names sc_NAMES_facts(2))
  then have "split_on (CHR '' '') (sc_to_names s) = sc_names s" "[] \<notin> set (sc_names s)"
    using False sc_NAMES_facts(3) by (auto simp: sc_to_names_eq intro!: split_on_join)
  then show ?thesis by auto
qed (simp add: sc_to_names_eq)

subsection \<open>Properties\<close>

text \<open>
  The printed scope list is the canonical text of a scope set. Every set of defined scopes is
  parsed back from its text exactly, and whatever \<open>parse\<close> accepts is a set of defined scopes.
\<close>

theorem scope_text_round_trip:
  "(sc_from_bits s = Some s \<longrightarrow> sc_parse (sc_to_names s) = Inr s)
   \<and> (sc_parse t = Inr s \<longrightarrow> sc_from_bits s = Some s)"
proof (intro conjI impI)
  assume "sc_from_bits s = Some s"
  then have "bit s i \<Longrightarrow> i < 10" for i by (simp add: sm.decode_iff sm.has_iff bit_sc_ALL)
  moreover have "sc_NAMES ! i \<in> set (split_on (CHR '' '') (sc_to_names s)) \<longleftrightarrow> bit s i" if "i < 10" for i
  proof -
    have "sc_NAMES ! i \<noteq> []"
      using that sc_NAMES_facts(3) [of "sc_NAMES ! i"] by (simp add: sc_NAMES_facts(2))
    then have "sc_NAMES ! i \<in> set (split_on (CHR '' '') (sc_to_names s)) \<longleftrightarrow> sc_NAMES ! i \<in> set (sc_names s)"
      using words_of_names [of s] by auto
    then show ?thesis
      using that by (auto simp: set_sc_names sc_NAMES_facts nth_eq_iff_index_eq)
  qed
  ultimately show "sc_parse (sc_to_names s) = Inr s"
    unfolding sc_parse_Inr words_of_names by (auto simp: set_sc_names sc_NAMES_facts)
next
  assume "sc_parse t = Inr s"
  then show "sc_from_bits s = Some s"
    by (simp add: sc_parse_Inr sm.decode_iff sm.has_iff bit_sc_ALL)
qed

theorem scope_text_round_trip_witness:
  "sc_parse (sc_to_names sc_MCP) = Inr sc_MCP \<and> sc_from_bits sc_MCP = Some sc_MCP"
proof -
  have "sc_from_bits sc_MCP = Some sc_MCP"
    by (simp add: sc_from_bits_def sc_MCP_def scope_unit_defs sc_ALL_def)
  then show ?thesis using scope_text_round_trip [of sc_MCP "[]"] by blast
qed

text \<open>
  C29: scopes and permissions form a Galois connection. The permissions a defined scope set can
  exercise fit into \<open>p\<close> exactly when the scope set fits into the scopes \<open>p\<close> is translated to, and
  translating defined permissions to scopes and back changes nothing, so a credential issued
  before scopes existed keeps exactly its authority.
\<close>

theorem scope_permission_galois:
  assumes "sc_from_bits s = Some s" and "perm_from_bits p = Some p"
  shows "(perm_contains p (sc_ceiling s) \<longleftrightarrow> sc_contains (sc_from_permissions p) s)
    \<and> sc_ceiling (sc_from_permissions p) = p"
proof
  show "perm_contains p (sc_ceiling s) \<longleftrightarrow> sc_contains (sc_from_permissions p) s"
    using assms(1) by (simp add: ceiling_le_iff sm.decode_iff)
  have "\<exists>i<10. perm_bit i = j" if "j < 5" for j
    using that by (intro exI [of _ "[0, 1, 7, 8, 9] ! j"])
      (auto simp: perm_bit_def numeral_eq_Suc less_Suc_eq)
  moreover have "j < 5" if "bit p j" for j
    using assms(2) that by (simp add: pm.decode_iff pm.has_iff bit_perm_ALL)
  ultimately show "sc_ceiling (sc_from_permissions p) = p"
    by (intro bit_eqI) (auto simp: bit_ceiling bit_from_permissions)
qed

theorem scope_permission_galois_witness:
  "(perm_contains perm_READ (sc_ceiling sc_LOGS_READ)
      \<longleftrightarrow> sc_contains (sc_from_permissions perm_READ) sc_LOGS_READ)
   \<and> sc_ceiling (sc_from_permissions perm_READ) = perm_READ"
  by (rule scope_permission_galois)
    (simp_all add: sc_from_bits_def sc_LOGS_READ_def sc_ALL_def perm_from_bits_def perm_READ_def
      perm_ALL_def)

end
