(* ===== verification/Core_Id.thy ===== *)
theory Core_Id
  imports Sentinel_Prelude
begin

text \<open>
  Typed identifiers (\<open>crates/sentinel-core/src/id.rs\<close>): what the \<open>identifier!\<close> macro generates for
  each of its 19 instances.  The text codec of the \<open>uuid\<close> crate is a parameter; the locale
  \<open>uuid_text\<close> holds what its documentation promises of \<open>encode_lower\<close> and \<open>try_parse\<close> on the
  36-byte hyphenated form, and is interpreted on the RFC 4122 layout.
\<close>

subsection \<open>Model\<close>

datatype invalid_id = InvalidId

datatype id_kind = UserId | TenantId | RepoId | SecretId | RunId | JobId | AttemptId | WorkerId
  | TokenId | PoolId | SessionId | InvitationId | MailId | InstallationId | DeliveryId | CheckId
  | UploadId | ArtifactId | GrantId

primrec id_prefix :: "id_kind \<Rightarrow> string" where
  "id_prefix UserId = ''usr''"
| "id_prefix TenantId = ''tnt''"
| "id_prefix RepoId = ''rep''"
| "id_prefix SecretId = ''sec''"
| "id_prefix RunId = ''run''"
| "id_prefix JobId = ''job''"
| "id_prefix AttemptId = ''att''"
| "id_prefix WorkerId = ''wrk''"
| "id_prefix TokenId = ''tok''"
| "id_prefix PoolId = ''pol''"
| "id_prefix SessionId = ''ses''"
| "id_prefix InvitationId = ''inv''"
| "id_prefix MailId = ''mal''"
| "id_prefix InstallationId = ''ins''"
| "id_prefix DeliveryId = ''dlv''"
| "id_prefix CheckId = ''chk''"
| "id_prefix UploadId = ''upl''"
| "id_prefix ArtifactId = ''arf''"
| "id_prefix GrantId = ''grt''"

definition id_text_len :: "id_kind \<Rightarrow> nat" where
  "id_text_len k = length (id_prefix k) + 1 + 36"

text \<open>A \<open>Uuid\<close> is its 16 bytes.\<close>

type_synonym uuid = "u8 list"

definition id_from_bytes :: "u8 list \<Rightarrow> invalid_id + uuid" where
  "id_from_bytes bytes =
     (if drop_bit 4 (bytes ! 6) \<noteq> 4 \<or> (bytes ! 8) AND 0xC0 \<noteq> 0x80 then Inl InvalidId
      else Inr bytes)"

definition id_display :: "(uuid \<Rightarrow> string) \<Rightarrow> id_kind \<Rightarrow> uuid \<Rightarrow> string" where
  "id_display encode_lower k u = id_prefix k @ ''_'' @ encode_lower u"

definition id_from_str :: "(string \<Rightarrow> uuid option) \<Rightarrow> id_kind \<Rightarrow> string \<Rightarrow> invalid_id + uuid" where
  "id_from_str try_parse k s =
     (if length s \<noteq> id_text_len k then Inl InvalidId
      else res_bind (ok_or InvalidId (strip_prefix (id_prefix k @ ''_'') s)) (\<lambda>raw.
        if list_ex is_upper raw then Inl InvalidId
        else res_bind (ok_or InvalidId (try_parse raw)) id_from_bytes))"

subsection \<open>What the uuid crate documents\<close>

locale uuid_text =
  fixes encode_lower :: "uuid \<Rightarrow> string"
    and try_parse :: "string \<Rightarrow> uuid option"
  assumes encode_length: "length u = 16 \<Longrightarrow> length (encode_lower u) = 36"
    and encode_is_lower: "length u = 16 \<Longrightarrow> \<not> list_ex is_upper (encode_lower u)"
    and parse_encode: "length u = 16 \<Longrightarrow> try_parse (encode_lower u) = Some u"
    and parse_length: "try_parse s = Some u \<Longrightarrow> length u = 16"
    and encode_parse: "length s = 36 \<Longrightarrow> \<not> list_ex is_upper s \<Longrightarrow> try_parse s = Some u \<Longrightarrow>
      encode_lower u = s"
begin

lemma from_str_display:
  "length u = 16 \<Longrightarrow> id_from_bytes u = Inr u \<Longrightarrow>
     id_from_str try_parse k (id_display encode_lower k u) = Inr u"
  using encode_length [of u] encode_is_lower [of u] parse_encode [of u]
    strip_prefix_Some [of "id_prefix k @ ''_''" "id_prefix k @ ''_'' @ encode_lower u" "encode_lower u"]
  by (simp add: id_from_str_def id_display_def id_text_len_def ok_or_def)

lemma from_str_canonical:
  assumes "id_from_str try_parse k s = Inr u"
  shows "length u = 16" "id_from_bytes u = Inr u" "id_display encode_lower k u = s"
proof -
  from assms obtain raw v where
    "length s = id_text_len k" "s = id_prefix k @ ''_'' @ raw" "\<not> list_ex is_upper raw"
    "try_parse raw = Some v" "id_from_bytes v = Inr u"
    by (auto simp: id_from_str_def res_bind_eq_Inr ok_or_eq_Inr strip_prefix_Some split: if_splits)
  moreover from \<open>id_from_bytes v = Inr u\<close> have "v = u"
    by (auto simp: id_from_bytes_def split: if_splits)
  ultimately show "length u = 16" "id_from_bytes u = Inr u" "id_display encode_lower k u = s"
    using parse_length encode_parse [of raw u] by (auto simp: id_text_len_def id_display_def)
qed

end

lemma id_prefix_inj: "id_prefix k = id_prefix k' \<longleftrightarrow> k = k'"
  by (cases k; cases k') simp_all

lemma id_prefix_length [simp]: "length (id_prefix k) = 3"
  by (cases k) simp_all

subsection \<open>The RFC 4122 text layout\<close>

definition hex_lower :: string where "hex_lower = ''0123456789abcdef''"
definition hex_upper :: string where "hex_upper = ''ABCDEF''"

definition hex_digit :: "nat \<Rightarrow> char" where
  "hex_digit n = hex_lower ! n"

definition hex_val :: "char \<Rightarrow> nat option" where
  "hex_val c = (case position (\<lambda>d. d = c) hex_lower of
     Some n \<Rightarrow> Some n
   | None \<Rightarrow> map_option (\<lambda>n. n + 10) (position (\<lambda>d. d = c) hex_upper))"

fun hex_bytes :: "u8 list \<Rightarrow> string" where
  "hex_bytes [] = []"
| "hex_bytes (b # bs) = hex_digit (unat b div 16) # hex_digit (unat b mod 16) # hex_bytes bs"

fun unhex_bytes :: "string \<Rightarrow> u8 list option" where
  "unhex_bytes [] = Some []"
| "unhex_bytes [_] = None"
| "unhex_bytes (a # b # s) =
     (case (hex_val a, hex_val b, unhex_bytes s) of
        (Some x, Some y, Some bs) \<Rightarrow> Some (of_nat (16 * x + y) # bs)
      | _ \<Rightarrow> None)"

definition rfc_encode :: "uuid \<Rightarrow> string" where
  "rfc_encode u = join_with ''-''
     [hex_bytes (take 4 u), hex_bytes (take 2 (drop 4 u)), hex_bytes (take 2 (drop 6 u)),
      hex_bytes (take 2 (drop 8 u)), hex_bytes (drop 10 u)]"

definition rfc_parse :: "string \<Rightarrow> uuid option" where
  "rfc_parse s =
     (case split_on (CHR ''-'') s of
        [a, b, c, d, e] \<Rightarrow>
          if map length [a, b, c, d, e] = [8, 4, 4, 4, 12]
          then unhex_bytes (a @ b @ c @ d @ e) else None
      | _ \<Rightarrow> None)"

lemma hex_lower_facts: "length hex_lower = 16" "distinct hex_lower"
  "c \<in> set hex_lower \<Longrightarrow> \<not> is_upper c \<and> c \<noteq> CHR ''-''" "c \<in> set hex_upper \<Longrightarrow> is_upper c"
  by (auto simp: hex_lower_def hex_upper_def byte_class_defs)

lemma hex_digit_facts:
  assumes "n < 16"
  shows "hex_val (hex_digit n) = Some n" "\<not> is_upper (hex_digit n)" "hex_digit n \<noteq> CHR ''-''"
proof -
  from assms have "position (\<lambda>d. d = hex_digit n) hex_lower = Some n" and "hex_digit n \<in> set hex_lower"
    by (simp_all add: position_distinct hex_lower_facts hex_digit_def)
  then show "hex_val (hex_digit n) = Some n" "\<not> is_upper (hex_digit n)" "hex_digit n \<noteq> CHR ''-''"
    using hex_lower_facts(3) by (auto simp: hex_val_def)
qed

lemma hex_val_Some:
  assumes "hex_val c = Some n" "\<not> is_upper c"
  shows "n < 16" "hex_digit n = c"
proof -
  have "position (\<lambda>d. d = c) hex_upper = None"
    using assms(2) hex_lower_facts(4) by (auto simp: position_None)
  with assms(1) have "position (\<lambda>d. d = c) hex_lower = Some n"
    by (auto simp: hex_val_def split: option.splits)
  then show "n < 16" "hex_digit n = c"
    by (simp_all add: position_distinct hex_lower_facts hex_digit_def)
qed

lemma length_hex_bytes [simp]: "length (hex_bytes bs) = 2 * length bs"
  by (induction bs) auto

lemma unat_u8_less: "unat (b :: u8) < 256"
  by (rule unsigned_less [THEN order_less_le_trans]) simp

lemma hex_bytes_chars: "c \<in> set (hex_bytes bs) \<Longrightarrow> \<not> is_upper c \<and> c \<noteq> CHR ''-''"
proof (induction bs)
  case (Cons b bs)
  have "unat b div 16 < 16" "unat b mod 16 < 16" using unat_u8_less [of b] by auto
  with Cons show ?case by (auto simp: hex_digit_facts)
qed simp

lemma unhex_hex [simp]: "unhex_bytes (hex_bytes bs) = Some bs"
proof (induction bs)
  case (Cons b bs)
  have "unat b div 16 < 16" "unat b mod 16 < 16" using unat_u8_less [of b] by auto
  moreover have "of_nat (16 * (unat b div 16) + unat b mod 16) = b" by simp
  ultimately show ?case using Cons by (simp add: hex_digit_facts)
qed simp

lemma hex_unhex:
  "unhex_bytes s = Some bs \<Longrightarrow> \<not> list_ex is_upper s \<Longrightarrow> hex_bytes bs = s"
proof (induction s arbitrary: bs rule: unhex_bytes.induct)
  case (3 a b s)
  then obtain x y cs where xy: "hex_val a = Some x" "hex_val b = Some y" "unhex_bytes s = Some cs"
    and bs: "bs = of_nat (16 * x + y) # cs"
    by (auto split: option.splits)
  have "x < 16" "y < 16" "hex_digit x = a" "hex_digit y = b"
    using 3(3) hex_val_Some [OF xy(1)] hex_val_Some [OF xy(2)] by auto
  moreover from this have "unat (of_nat (16 * x + y) :: u8) = 16 * x + y"
    unfolding unat_of_nat by simp
  ultimately show ?case using 3 xy bs by simp
qed auto

lemma unhex_length: "unhex_bytes s = Some bs \<Longrightarrow> length s = 2 * length bs"
  by (induction s arbitrary: bs rule: unhex_bytes.induct) (auto split: option.splits)

lemma hex_bytes_append: "hex_bytes (bs @ cs) = hex_bytes bs @ hex_bytes cs"
  by (induction bs) auto

lemma hex_no_dash: "CHR ''-'' \<notin> set (hex_bytes bs)"
  using hex_bytes_chars by blast

lemma rfc_groups:
  "split_on (CHR ''-'') (rfc_encode u) =
     [hex_bytes (take 4 u), hex_bytes (take 2 (drop 4 u)), hex_bytes (take 2 (drop 6 u)),
      hex_bytes (take 2 (drop 8 u)), hex_bytes (drop 10 u)]"
  unfolding rfc_encode_def by (rule split_on_join) (auto simp: hex_no_dash)

lemma take_drop_groups:
  "take 4 u @ take 2 (drop 4 u) @ take 2 (drop 6 u) @ take 2 (drop 8 u) @ drop 10 u = u"
proof -
  have "take 2 (drop n u) @ drop (n + 2) u = drop n u" for n
    using append_take_drop_id [of 2 "drop n u"] by (simp add: add.commute)
  from this [of 8] this [of 6] this [of 4] show ?thesis by simp
qed

lemma rfc_parse_encode: "length u = 16 \<Longrightarrow> rfc_parse (rfc_encode u) = Some u"
  by (simp add: rfc_parse_def rfc_groups flip: hex_bytes_append)
    (simp add: take_drop_groups)

lemma rfc_parse_Some:
  assumes "rfc_parse s = Some u"
  obtains a b c d e where "s = join_with ''-'' [a, b, c, d, e]"
    "length a = 8" "length b = 4" "length c = 4" "length d = 4" "length e = 12"
    "unhex_bytes (a @ b @ c @ d @ e) = Some u"
proof -
  from assms obtain a b c d e where split: "split_on (CHR ''-'') s = [a, b, c, d, e]"
    and rest: "length a = 8" "length b = 4" "length c = 4" "length d = 4" "length e = 12"
      "unhex_bytes (a @ b @ c @ d @ e) = Some u"
    by (auto simp: rfc_parse_def split: list.splits if_splits)
  from split have "s = join_with ''-'' [a, b, c, d, e]"
    using join_split_on [of "CHR ''-''" s] by simp
  with rest show thesis using that by blast
qed

lemma rfc_encode_parse:
  assumes "\<not> list_ex is_upper s" and "rfc_parse s = Some u"
  shows "rfc_encode u = s"
proof -
  from assms(2) obtain a b c d e where s: "s = join_with ''-'' [a, b, c, d, e]"
    and len: "length a = 8" "length b = 4" "length c = 4" "length d = 4" "length e = 12"
    and u: "unhex_bytes (a @ b @ c @ d @ e) = Some u"
    by (rule rfc_parse_Some)
  from s assms(1) have "\<not> list_ex is_upper (a @ b @ c @ d @ e)" by auto
  with u have hex: "hex_bytes u = a @ b @ c @ d @ e" by (rule hex_unhex)
  moreover have "hex_bytes u = hex_bytes (take 4 u) @ hex_bytes (take 2 (drop 4 u)) @
      hex_bytes (take 2 (drop 6 u)) @ hex_bytes (take 2 (drop 8 u)) @ hex_bytes (drop 10 u)"
    by (simp add: take_drop_groups flip: hex_bytes_append)
  moreover have "length u = 16" using unhex_length [OF u] len by simp
  ultimately have "hex_bytes (take 4 u) = a \<and> hex_bytes (take 2 (drop 4 u)) = b \<and>
      hex_bytes (take 2 (drop 6 u)) = c \<and> hex_bytes (take 2 (drop 8 u)) = d \<and> hex_bytes (drop 10 u) = e"
    using len by (simp add: append_eq_append_conv)
  then show ?thesis using s by (simp add: rfc_encode_def)
qed

interpretation rfc: uuid_text rfc_encode rfc_parse
proof
  fix u :: uuid assume u: "length u = 16"
  show "length (rfc_encode u) = 36" using u by (simp add: rfc_encode_def)
  show "\<not> list_ex is_upper (rfc_encode u)"
    using hex_bytes_chars by (auto simp: rfc_encode_def list_ex_iff byte_class_defs)
  show "rfc_parse (rfc_encode u) = Some u" using u by (rule rfc_parse_encode)
next
  fix s u assume "rfc_parse s = Some u"
  then show "length u = 16" by (rule rfc_parse_Some) (auto dest: unhex_length)
next
  fix s u assume "\<not> list_ex is_upper s" "rfc_parse s = Some u"
  then show "rfc_encode u = s" by (rule rfc_encode_parse)
qed

subsection \<open>Properties\<close>

text \<open>
  C30: identifiers have one text each. Under what the uuid crate documents, a text parses as an
  identifier of a kind exactly when the identifier is a version 4 UUID and the text is the one it
  prints, with the prefix of that kind.
\<close>

theorem id_text_canonical:
  assumes "uuid_text encode_lower try_parse"
  shows "id_from_str try_parse k s = Inr u \<longleftrightarrow>
      length u = 16 \<and> id_from_bytes u = Inr u \<and> s = id_display encode_lower k u"
    (is "?parsed k \<longleftrightarrow> ?text")
proof
  assume "?parsed k"
  then show ?text using uuid_text.from_str_canonical [OF assms] by blast
next
  assume ?text
  then show "?parsed k" using uuid_text.from_str_display [OF assms] by blast
qed

theorem id_text_canonical_witness:
  "id_from_str rfc_parse RunId ''run_00112233-4455-4677-8899-aabbccddeeff'' =
     Inr [0, 0x11, 0x22, 0x33, 0x44, 0x55, 0x46, 0x77, 0x88, 0x99, 0xAA, 0xBB, 0xCC, 0xDD, 0xEE, 0xFF]"
proof -
  have "uuid_text rfc_encode rfc_parse" ..
  then show ?thesis
    by (rule id_text_canonical [THEN iffD2])
      (simp add: id_from_bytes_def id_display_def rfc_encode_def hex_digit_def hex_lower_def)
qed

end
