(* ===== verification/Glob_Match.thy ===== *)
theory Glob_Match
  imports Sentinel_Prelude
begin

text \<open>
  The two wildcard matchers of the pipeline crate: \<open>glob::segment\<close>
  (\<open>crates/sentinel-pipeline/src/glob.rs\<close>) on the bytes of a path segment and
  \<open>policy::pattern_matches\<close> (\<open>crates/sentinel-pipeline/src/policy.rs\<close>) on the segments of a ref.
  Both are loops that keep only the last wildcard as a backtrack point.  The locale
  \<open>last_star_matcher\<close> states the loop equation they share; in it the loop is proved to return, and
  to return the answer of a declarative specification, and both loops are interpretations of it.
\<close>

subsection \<open>The loops\<close>

text \<open>\<open>while pi < p.len() && p[pi] == star { pi += 1 }; pi == p.len()\<close>.\<close>

definition only_stars_left :: "('p \<Rightarrow> bool) \<Rightarrow> 'p list \<Rightarrow> nat \<Rightarrow> bool" where
  "only_stars_left is_star p pi \<longleftrightarrow> dropWhile is_star (drop pi p) = []"

partial_function (option) segment_loop ::
    "string \<Rightarrow> string \<Rightarrow> nat \<Rightarrow> nat \<Rightarrow> (nat \<times> nat) option \<Rightarrow> bool option" where
  "segment_loop p n pi ni star =
     (if ni < length n then
        if pi < length p \<and> p ! pi = CHR ''*'' then segment_loop p n (pi + 1) ni (Some (pi, ni))
        else if pi < length p \<and> p ! pi = n ! ni then segment_loop p n (pi + 1) (ni + 1) star
        else (case star of
            Some (sp, sn) \<Rightarrow> segment_loop p n (sp + 1) (sn + 1) (Some (sp, sn + 1))
          | None \<Rightarrow> Some False)
      else Some (only_stars_left (\<lambda>c. c = CHR ''*'') p pi))"

definition glob_segment :: "string \<Rightarrow> string \<Rightarrow> bool" where
  "glob_segment pattern name = (segment_loop pattern name 0 0 None = Some True)"

partial_function (option) pattern_loop ::
    "string list \<Rightarrow> string list \<Rightarrow> nat \<Rightarrow> nat \<Rightarrow> (nat \<times> nat) option \<Rightarrow> bool option" where
  "pattern_loop p v pi vi star =
     (if vi < length v then
        if pi < length p \<and> p ! pi \<noteq> ''**'' \<and> glob_segment (p ! pi) (v ! vi)
        then pattern_loop p v (pi + 1) (vi + 1) star
        else if pi < length p \<and> p ! pi = ''**'' then pattern_loop p v (pi + 1) vi (Some (pi, vi))
        else (case star of
            Some (sp, sv) \<Rightarrow> pattern_loop p v (sp + 1) (sv + 1) (Some (sp, sv + 1))
          | None \<Rightarrow> Some False)
      else Some (only_stars_left (\<lambda>s. s = ''**'') p pi))"

definition pattern_matches :: "string \<Rightarrow> string \<Rightarrow> bool" where
  "pattern_matches pattern s =
     (pattern_loop (split_on (CHR ''/'') pattern) (split_on (CHR ''/'') s) 0 0 None = Some True)"

subsection \<open>The specification\<close>

text \<open>
  A pattern matches a list when the list is cut into consecutive pieces, one per pattern element:
  any piece for a wildcard, one accepted item for any other element.
\<close>

definition glob_spec :: "('p \<Rightarrow> bool) \<Rightarrow> ('p \<Rightarrow> 'v \<Rightarrow> bool) \<Rightarrow> 'p list \<Rightarrow> 'v list \<Rightarrow> bool" where
  "glob_spec is_star accepts p n \<longleftrightarrow>
     (\<exists>pieces. concat pieces = n \<and>
        list_all2 (\<lambda>x piece. is_star x \<or> (\<exists>v. piece = [v] \<and> accepts x v)) p pieces)"

fun wild :: "('p \<Rightarrow> bool) \<Rightarrow> ('p \<Rightarrow> 'v \<Rightarrow> bool) \<Rightarrow> 'p list \<Rightarrow> 'v list \<Rightarrow> bool" where
  "wild is_star accepts [] n \<longleftrightarrow> n = []"
| "wild is_star accepts (x # p) n \<longleftrightarrow>
     (if is_star x then \<exists>k\<le>length n. wild is_star accepts p (drop k n)
      else (case n of [] \<Rightarrow> False | v # n' \<Rightarrow> accepts x v \<and> wild is_star accepts p n'))"

lemma glob_spec_Cons:
  "glob_spec is_star accepts (x # p) n \<longleftrightarrow>
     (\<exists>piece m. n = piece @ m \<and> (is_star x \<or> (\<exists>v. piece = [v] \<and> accepts x v))
        \<and> glob_spec is_star accepts p m)"
  (is "?l \<longleftrightarrow> ?r")
proof
  assume ?l
  then obtain piece pieces where "concat (piece # pieces) = n"
    and "is_star x \<or> (\<exists>v. piece = [v] \<and> accepts x v)"
    and "list_all2 (\<lambda>x piece. is_star x \<or> (\<exists>v. piece = [v] \<and> accepts x v)) p pieces"
    unfolding glob_spec_def list_all2_Cons1 by blast
  then show ?r unfolding glob_spec_def by (intro exI [of _ piece] exI [of _ "concat pieces"]) auto
next
  assume ?r
  then obtain piece pieces where "n = piece @ concat pieces"
    and "is_star x \<or> (\<exists>v. piece = [v] \<and> accepts x v)"
    and "list_all2 (\<lambda>x piece. is_star x \<or> (\<exists>v. piece = [v] \<and> accepts x v)) p pieces"
    unfolding glob_spec_def by blast
  then show ?l unfolding glob_spec_def by (intro exI [of _ "piece # pieces"]) simp
qed

lemma wild_iff_spec: "wild is_star accepts p n \<longleftrightarrow> glob_spec is_star accepts p n"
proof (induction p arbitrary: n)
  case Nil
  show ?case by (auto simp: glob_spec_def)
next
  case (Cons x p)
  show ?case
  proof (cases "is_star x")
    case True
    have "(\<exists>piece m. n = piece @ m \<and> Q m) \<longleftrightarrow> (\<exists>k\<le>length n. Q (drop k n))" for Q
    proof
      assume "\<exists>piece m. n = piece @ m \<and> Q m"
      then obtain piece m where "n = piece @ m" "Q m" by blast
      then show "\<exists>k\<le>length n. Q (drop k n)" by (intro exI [of _ "length piece"]) simp
    next
      assume "\<exists>k\<le>length n. Q (drop k n)"
      then obtain k where "Q (drop k n)" by blast
      then show "\<exists>piece m. n = piece @ m \<and> Q m"
        by (intro exI [of _ "take k n"] exI [of _ "drop k n"]) simp
    qed
    then show ?thesis using True by (simp add: glob_spec_Cons Cons.IH)
  next
    case False
    then have "glob_spec is_star accepts (x # p) n \<longleftrightarrow>
        (\<exists>v m. n = [v] @ m \<and> accepts x v \<and> glob_spec is_star accepts p m)"
      unfolding glob_spec_Cons by blast
    with False show ?thesis by (cases n) (auto simp: Cons.IH)
  qed
qed

lemma wild_literals:
  assumes "\<forall>x\<in>set lits. \<not> is_star x"
  shows "wild is_star accepts (lits @ q) m \<longleftrightarrow>
    length lits \<le> length m \<and> list_all2 accepts lits (take (length lits) m)
      \<and> wild is_star accepts q (drop (length lits) m)"
  using assms by (induction lits arbitrary: m) (auto split: list.splits)

lemma wild_nil: "wild is_star accepts p [] \<longleftrightarrow> (\<forall>x\<in>set p. is_star x)"
  by (induction p) auto

lemma only_stars_left_iff: "only_stars_left is_star p pi \<longleftrightarrow> (\<forall>x\<in>set (drop pi p). is_star x)"
  by (simp add: only_stars_left_def dropWhile_eq_Nil_conv)

subsection \<open>The shared loop\<close>

text \<open>
  Where the last wildcard leaves the loop: pattern elements from \<open>bp\<close> on are to be matched from
  some position at or after \<open>bn\<close>; the elements before \<open>pi\<close> have been matched one by one against
  the items before \<open>ni\<close>.
\<close>

definition loop_base :: "(nat \<times> nat) option \<Rightarrow> nat \<times> nat" where
  "loop_base star = (case star of None \<Rightarrow> (0, 0) | Some (sp, sn) \<Rightarrow> (Suc sp, sn))"

definition loop_inv ::
    "('p \<Rightarrow> bool) \<Rightarrow> ('p \<Rightarrow> 'v \<Rightarrow> bool) \<Rightarrow> 'p list \<Rightarrow> 'v list \<Rightarrow> nat \<Rightarrow> nat \<Rightarrow> (nat \<times> nat) option \<Rightarrow> bool" where
  "loop_inv is_star accepts p n pi ni star \<longleftrightarrow>
     (case loop_base star of (bp, bn) \<Rightarrow>
       bp \<le> pi \<and> pi \<le> length p \<and> bn \<le> ni \<and> ni \<le> length n \<and> pi - bp = ni - bn
       \<and> (\<forall>i < pi - bp. \<not> is_star (p ! (bp + i)) \<and> accepts (p ! (bp + i)) (n ! (bn + i))))"

definition loop_answer ::
    "('p \<Rightarrow> bool) \<Rightarrow> ('p \<Rightarrow> 'v \<Rightarrow> bool) \<Rightarrow> 'p list \<Rightarrow> 'v list \<Rightarrow> (nat \<times> nat) option \<Rightarrow> bool" where
  "loop_answer is_star accepts p n star \<longleftrightarrow>
     (case star of
        None \<Rightarrow> wild is_star accepts p n
      | Some (sp, sn) \<Rightarrow> \<exists>k. sn \<le> k \<and> k \<le> length n \<and> wild is_star accepts (drop (Suc sp) p) (drop k n))"

definition loop_measure :: "'p list \<Rightarrow> 'v list \<Rightarrow> nat \<Rightarrow> (nat \<times> nat) option \<Rightarrow> nat \<times> nat \<times> nat" where
  "loop_measure p n pi star =
     (case loop_base star of (bp, bn) \<Rightarrow> (length p - bp, length n - bn, length p - pi))"

definition loop_order :: "((nat \<times> nat \<times> nat) \<times> nat \<times> nat \<times> nat) set" where
  "loop_order = less_than <*lex*> less_than <*lex*> less_than"

lemma wf_loop_order: "wf loop_order"
  unfolding loop_order_def by (intro wf_lex_prod wf_less_than)

locale last_star_matcher =
  fixes is_star :: "'p \<Rightarrow> bool"
    and accepts :: "'p \<Rightarrow> 'v \<Rightarrow> bool"
    and loop :: "'p list \<Rightarrow> 'v list \<Rightarrow> nat \<Rightarrow> nat \<Rightarrow> (nat \<times> nat) option \<Rightarrow> bool option"
  assumes loop_eq:
    "loop p n pi ni star =
       (if ni < length n then
          if pi < length p \<and> is_star (p ! pi) then loop p n (pi + 1) ni (Some (pi, ni))
          else if pi < length p \<and> accepts (p ! pi) (n ! ni) then loop p n (pi + 1) (ni + 1) star
          else (case star of
              Some (sp, sn) \<Rightarrow> loop p n (sp + 1) (sn + 1) (Some (sp, sn + 1))
            | None \<Rightarrow> Some False)
        else Some (only_stars_left is_star p pi))"
begin

lemma wild_from_base:
  assumes inv: "loop_inv is_star accepts p n pi ni star" and base: "loop_base star = (bp, bn)"
    and le: "bn \<le> k" "k \<le> length n"
  shows "wild is_star accepts (drop bp p) (drop k n) \<longleftrightarrow>
    (k + (pi - bp) \<le> length n
     \<and> (\<forall>i < pi - bp. accepts (p ! (bp + i)) (n ! (k + i)))
     \<and> wild is_star accepts (drop pi p) (drop (k + (pi - bp)) n))"
proof -
  let ?lits = "take (pi - bp) (drop bp p)"
  have inv': "bp \<le> pi" "pi \<le> length p" "\<forall>i < pi - bp. \<not> is_star (p ! (bp + i))"
    using inv base by (auto simp: loop_inv_def)
  have "drop bp p = ?lits @ drop pi p"
    using inv' append_take_drop_id [of "pi - bp" "drop bp p"] by simp
  moreover have "\<forall>x\<in>set ?lits. \<not> is_star x"
    using inv' by (auto simp: in_set_conv_nth)
  moreover have "length ?lits = pi - bp" using inv' by simp
  ultimately have "wild is_star accepts (drop bp p) (drop k n) \<longleftrightarrow>
      pi - bp \<le> length (drop k n) \<and> list_all2 accepts ?lits (take (pi - bp) (drop k n))
      \<and> wild is_star accepts (drop pi p) (drop (pi - bp) (drop k n))"
    using wild_literals [of ?lits is_star accepts "drop pi p" "drop k n"] by simp
  then show ?thesis
    using inv' le by (auto simp: list_all2_conv_all_nth add.commute)
qed

lemma answer_at_base:
  assumes "loop_base star = (bp, bn)"
  shows "loop_answer is_star accepts p n star \<longleftrightarrow>
    (case star of None \<Rightarrow> wild is_star accepts (drop bp p) (drop bn n)
     | Some _ \<Rightarrow> \<exists>k. bn \<le> k \<and> k \<le> length n \<and> wild is_star accepts (drop bp p) (drop k n))"
  using assms by (auto simp: loop_answer_def loop_base_def split: option.splits)

lemma answer_star:
  assumes inv: "loop_inv is_star accepts p n pi ni star"
    and star: "pi < length p" "is_star (p ! pi)" and ni: "ni < length n"
  shows "loop_answer is_star accepts p n star \<longleftrightarrow> loop_answer is_star accepts p n (Some (pi, ni))"
proof -
  obtain bp bn where base: "loop_base star = (bp, bn)" by (cases "loop_base star")
  note wfb = wild_from_base [OF inv base]
  have inv': "bp \<le> pi" "bn \<le> ni" "pi - bp = ni - bn"
    "\<forall>i < pi - bp. accepts (p ! (bp + i)) (n ! (bn + i))"
    using inv base by (auto simp: loop_inv_def)
  have "drop pi p = p ! pi # drop (Suc pi) p" using star(1) by (simp add: Cons_nth_drop_Suc)
  then have rest: "wild is_star accepts (drop pi p) (drop j n) \<longleftrightarrow>
      (\<exists>k. j \<le> k \<and> k \<le> length n \<and> wild is_star accepts (drop (Suc pi) p) (drop k n))"
    if "j \<le> length n" for j
  proof -
    have "(\<exists>k\<le>length (drop j n). P (drop k (drop j n))) \<longleftrightarrow>
        (\<exists>k. j \<le> k \<and> k \<le> length n \<and> P (drop k n))" for P
    proof
      assume "\<exists>k\<le>length (drop j n). P (drop k (drop j n))"
      then obtain k where "k \<le> length n - j" "P (drop (k + j) n)" by auto
      then show "\<exists>k. j \<le> k \<and> k \<le> length n \<and> P (drop k n)"
        using that by (intro exI [of _ "k + j"]) auto
    next
      assume "\<exists>k. j \<le> k \<and> k \<le> length n \<and> P (drop k n)"
      then obtain k where "j \<le> k" "k \<le> length n" "P (drop k n)" by blast
      then show "\<exists>k\<le>length (drop j n). P (drop k (drop j n))"
        by (intro exI [of _ "k - j"]) auto
    qed
    then show ?thesis using \<open>drop pi p = _\<close> star(2) by simp
  qed
  have at_bn: "wild is_star accepts (drop bp p) (drop bn n) \<longleftrightarrow>
      (\<exists>k. ni \<le> k \<and> k \<le> length n \<and> wild is_star accepts (drop (Suc pi) p) (drop k n))"
    using wfb [of bn] inv' ni by (simp add: rest)
  have earliest: "wild is_star accepts (drop bp p) (drop bn n)"
    if k: "wild is_star accepts (drop bp p) (drop k n)" "bn \<le> k" "k \<le> length n" for k
  proof -
    have len: "k + (pi - bp) \<le> length n"
      and "wild is_star accepts (drop pi p) (drop (k + (pi - bp)) n)"
      using k wfb [OF k(2,3)] by blast+
    then obtain k' where "k + (pi - bp) \<le> k'" "k' \<le> length n"
      "wild is_star accepts (drop (Suc pi) p) (drop k' n)"
      unfolding rest [OF len] by blast
    moreover have "ni \<le> k + (pi - bp)" using inv'(2,3) k(2) by linarith
    ultimately show ?thesis unfolding at_bn by (intro exI [of _ k']) simp
  qed
  have "loop_answer is_star accepts p n star \<longleftrightarrow> wild is_star accepts (drop bp p) (drop bn n)"
  proof (cases star)
    case None
    then show ?thesis unfolding answer_at_base [OF base] by simp
  next
    case (Some a)
    have "bn \<le> length n" using inv'(2) ni by simp
    with Some show ?thesis unfolding answer_at_base [OF base] using earliest by auto
  qed
  then show ?thesis unfolding at_bn by (simp add: loop_answer_def)
qed

lemma base_mismatch:
  assumes inv: "loop_inv is_star accepts p n pi ni star" and base: "loop_base star = (bp, bn)"
    and ni: "ni < length n"
    and mismatch: "\<not> (pi < length p \<and> is_star (p ! pi))" "\<not> (pi < length p \<and> accepts (p ! pi) (n ! ni))"
  shows "\<not> wild is_star accepts (drop bp p) (drop bn n)"
proof
  assume "wild is_star accepts (drop bp p) (drop bn n)"
  moreover have le: "bn \<le> ni" "pi - bp = ni - bn" "pi \<le> length p"
    using inv base by (auto simp: loop_inv_def)
  ultimately have rest: "wild is_star accepts (drop pi p) (drop ni n)"
    using wild_from_base [OF inv base, of bn] ni by simp
  have n: "drop ni n = n ! ni # drop (Suc ni) n" using ni by (simp add: Cons_nth_drop_Suc)
  show False
  proof (cases "pi < length p")
    case True
    then have "drop pi p = p ! pi # drop (Suc pi) p" by (simp add: Cons_nth_drop_Suc)
    with rest n True mismatch show False by simp
  next
    case False
    with rest n show False by simp
  qed
qed

lemma answer_mismatch:
  assumes inv: "loop_inv is_star accepts p n pi ni star" and ni: "ni < length n"
    and mismatch: "\<not> (pi < length p \<and> is_star (p ! pi))" "\<not> (pi < length p \<and> accepts (p ! pi) (n ! ni))"
  shows "loop_answer is_star accepts p n star \<longleftrightarrow>
    (case star of None \<Rightarrow> False
     | Some (sp, sn) \<Rightarrow> loop_answer is_star accepts p n (Some (sp, Suc sn)))"
proof (cases star)
  case None
  then have "loop_base star = (0, 0)" by (simp add: loop_base_def)
  from base_mismatch [OF inv this ni mismatch] show ?thesis using None by (simp add: loop_answer_def)
next
  case (Some a)
  obtain sp sn where a: "a = (sp, sn)" by (cases a)
  then have "loop_base star = (Suc sp, sn)" using Some by (simp add: loop_base_def)
  from base_mismatch [OF inv this ni mismatch]
  have "\<not> wild is_star accepts (drop (Suc sp) p) (drop sn n)" .
  then have "sn \<le> k \<and> wild is_star accepts (drop (Suc sp) p) (drop k n) \<longleftrightarrow>
      Suc sn \<le> k \<and> wild is_star accepts (drop (Suc sp) p) (drop k n)" for k
    by (metis le_antisym not_less_eq_eq Suc_leD)
  then show ?thesis using Some a by (auto simp: loop_answer_def)
qed

lemma answer_exit:
  assumes inv: "loop_inv is_star accepts p n pi ni star" and ni: "\<not> ni < length n"
  shows "loop_answer is_star accepts p n star \<longleftrightarrow> only_stars_left is_star p pi"
proof -
  obtain bp bn where base: "loop_base star = (bp, bn)" by (cases "loop_base star")
  note wfb = wild_from_base [OF inv base]
  have inv': "bp \<le> pi" "bn \<le> ni" "ni = length n" "pi - bp = ni - bn"
    "\<forall>i < pi - bp. accepts (p ! (bp + i)) (n ! (bn + i))"
    using inv base ni by (auto simp: loop_inv_def)
  then have at_bn: "wild is_star accepts (drop bp p) (drop bn n) \<longleftrightarrow> only_stars_left is_star p pi"
    using wfb [of bn] by (simp add: wild_nil only_stars_left_iff)
  moreover have "k = bn" if "wild is_star accepts (drop bp p) (drop k n)" "bn \<le> k" "k \<le> length n" for k
    using that wfb [OF that(2,3)] inv' by linarith
  ultimately show ?thesis
    unfolding answer_at_base [OF base] using inv' by (auto split: option.splits)
qed

lemma step_star:
  assumes "loop_inv is_star accepts p n pi ni star" "ni < length n" "pi < length p" "is_star (p ! pi)"
  shows "loop_inv is_star accepts p n (pi + 1) ni (Some (pi, ni))"
    and "(loop_measure p n (pi + 1) (Some (pi, ni)), loop_measure p n pi star) \<in> loop_order"
  using assms
  by (auto simp: loop_inv_def loop_base_def loop_measure_def loop_order_def split: option.splits)

lemma step_item:
  assumes "loop_inv is_star accepts p n pi ni star" "ni < length n" "pi < length p"
    "\<not> is_star (p ! pi)" "accepts (p ! pi) (n ! ni)"
  shows "loop_inv is_star accepts p n (pi + 1) (ni + 1) star"
    and "(loop_measure p n (pi + 1) star, loop_measure p n pi star) \<in> loop_order"
proof -
  obtain bp bn where base: "loop_base star = (bp, bn)" by (cases "loop_base star")
  with assms(1) have "bp \<le> pi" "bn \<le> ni" "pi - bp = ni - bn" by (auto simp: loop_inv_def)
  then have "bp + ni - bn = pi" by linarith
  then show "loop_inv is_star accepts p n (pi + 1) (ni + 1) star"
    using assms base by (auto simp: loop_inv_def less_Suc_eq Suc_diff_le)
  show "(loop_measure p n (pi + 1) star, loop_measure p n pi star) \<in> loop_order"
    using assms(3) base by (simp add: loop_measure_def loop_order_def)
qed

lemma step_retry:
  assumes "loop_inv is_star accepts p n pi ni (Some (sp, sn))" "ni < length n"
  shows "loop_inv is_star accepts p n (sp + 1) (sn + 1) (Some (sp, sn + 1))"
    and "(loop_measure p n (sp + 1) (Some (sp, sn + 1)), loop_measure p n pi (Some (sp, sn))) \<in> loop_order"
  using assms by (auto simp: loop_inv_def loop_base_def loop_measure_def loop_order_def)

lemma loop_correct:
  "loop_inv is_star accepts p n pi ni star \<Longrightarrow>
     loop p n pi ni star = Some (loop_answer is_star accepts p n star)"
proof (induction "loop_measure p n pi star" arbitrary: pi ni star rule: wf_induct_rule [OF wf_loop_order])
  case (1 pi star ni)
  note inv = 1(2) and unfold = loop_eq [of p n pi ni]
  consider (exit) "\<not> ni < length n"
    | (star) "ni < length n" "pi < length p" "is_star (p ! pi)"
    | (item) "ni < length n" "pi < length p" "\<not> is_star (p ! pi)" "accepts (p ! pi) (n ! ni)"
    | (mismatch) "ni < length n" "\<not> (pi < length p \<and> is_star (p ! pi))"
        "\<not> (pi < length p \<and> accepts (p ! pi) (n ! ni))"
    by blast
  then show ?case
  proof cases
    case exit
    then show ?thesis using answer_exit [OF inv exit] unfold [of star] by simp
  next
    case star
    then show ?thesis
      using 1(1) [OF step_star(2,1) [OF inv star]] answer_star [OF inv star(2,3,1)] unfold [of star]
      by simp
  next
    case item
    then show ?thesis using 1(1) [OF step_item(2,1) [OF inv item]] unfold [of star] by simp
  next
    case mismatch
    show ?thesis
    proof (cases star)
      case None
      then show ?thesis using mismatch answer_mismatch [OF inv mismatch] unfold [of None] by auto
    next
      case (Some a)
      obtain sp sn where a: "star = Some (sp, sn)" using Some by (cases a) auto
      then have "loop p n (sp + 1) (sn + 1) (Some (sp, sn + 1)) =
          Some (loop_answer is_star accepts p n (Some (sp, sn + 1)))"
        using 1(1) step_retry inv mismatch(1) by blast
      then show ?thesis
        using a mismatch answer_mismatch [OF inv mismatch] unfold [of "Some (sp, sn)"] by auto
    qed
  qed
qed

lemma loop_result: "loop p n 0 0 None = Some (glob_spec is_star accepts p n)"
proof -
  have "loop_inv is_star accepts p n 0 0 None" by (simp add: loop_inv_def loop_base_def)
  then show ?thesis by (simp add: loop_correct loop_answer_def flip: wild_iff_spec)
qed

end

interpretation seg: last_star_matcher "\<lambda>c. c = CHR ''*''" "(=)" segment_loop
  by unfold_locales (subst segment_loop.simps, rule refl)

lemma pattern_loop_reordered:
  "pattern_loop p v pi vi star =
     (if vi < length v then
        if pi < length p \<and> p ! pi = ''**'' then pattern_loop p v (pi + 1) vi (Some (pi, vi))
        else if pi < length p \<and> glob_segment (p ! pi) (v ! vi)
        then pattern_loop p v (pi + 1) (vi + 1) star
        else (case star of
            Some (sp, sv) \<Rightarrow> pattern_loop p v (sp + 1) (sv + 1) (Some (sp, sv + 1))
          | None \<Rightarrow> Some False)
      else Some (only_stars_left (\<lambda>s. s = ''**'') p pi))"
  by (subst pattern_loop.simps) (cases "pi < length p"; cases "p ! pi = ''**''"; simp)

interpretation pat: last_star_matcher "\<lambda>s. s = ''**''" glob_segment pattern_loop
  by unfold_locales (rule pattern_loop_reordered)

lemma glob_segment_iff: "glob_segment pattern name \<longleftrightarrow> glob_spec (\<lambda>c. c = CHR ''*'') (=) pattern name"
  by (simp add: glob_segment_def seg.loop_result)

lemma pattern_matches_iff:
  "pattern_matches pattern s \<longleftrightarrow>
     glob_spec (\<lambda>s. s = ''**'') glob_segment (split_on (CHR ''/'') pattern) (split_on (CHR ''/'') s)"
  by (simp add: pattern_matches_def pat.loop_result)

end
