(* ===== verification/Trigger_Policy.thy ===== *)
theory Trigger_Policy
  imports Glob_Match
begin

text \<open>
  Which events a pipeline runs for (\<open>crates/sentinel-pipeline/src/policy.rs\<close>): the trigger table,
  its ref filters, the events an adapter hands in, and the validation of ref patterns.
\<close>

subsection \<open>Model\<close>

definition MAX_REF_PATTERNS :: nat where "MAX_REF_PATTERNS = 32"
definition MAX_REF_PATTERN_BYTES :: nat where "MAX_REF_PATTERN_BYTES = 256"

record ref_filter =
  rf_branches :: "string list"
  rf_tags :: "string list"

record triggers =
  tr_push :: "ref_filter option"
  tr_pull_request :: "ref_filter option"
  tr_tag :: "ref_filter option"
  tr_manual :: bool

definition accepts_branch :: "ref_filter \<Rightarrow> string \<Rightarrow> bool" where
  "accepts_branch self branch \<longleftrightarrow>
     rf_branches self = [] \<or> list_ex (\<lambda>p. pattern_matches p branch) (rf_branches self)"

definition accepts_tag :: "ref_filter \<Rightarrow> string \<Rightarrow> bool" where
  "accepts_tag self tag \<longleftrightarrow> rf_tags self = [] \<or> list_ex (\<lambda>p. pattern_matches p tag) (rf_tags self)"

definition triggers_is_empty :: "triggers \<Rightarrow> bool" where
  "triggers_is_empty self \<longleftrightarrow>
     tr_push self = None \<and> tr_pull_request self = None \<and> tr_tag self = None \<and> \<not> tr_manual self"

datatype event_kind = EK_Push | EK_PullRequest | EK_Tag | EK_Manual

primrec event_kind_as_str :: "event_kind \<Rightarrow> string" where
  "event_kind_as_str EK_Push = ''push''"
| "event_kind_as_str EK_PullRequest = ''pull_request''"
| "event_kind_as_str EK_Tag = ''tag''"
| "event_kind_as_str EK_Manual = ''manual''"

definition event_kind_parse :: "string \<Rightarrow> event_kind option" where
  "event_kind_parse s =
     (if s = ''push'' then Some EK_Push
      else if s = ''pull_request'' then Some EK_PullRequest
      else if s = ''tag'' then Some EK_Tag
      else if s = ''manual'' then Some EK_Manual
      else None)"

record trigger_event =
  te_kind :: event_kind
  te_ref_name :: string

definition event_push :: "string \<Rightarrow> trigger_event" where
  "event_push ref_name = \<lparr>te_kind = EK_Push, te_ref_name = ref_name\<rparr>"

definition event_tag :: "string \<Rightarrow> trigger_event" where
  "event_tag ref_name = \<lparr>te_kind = EK_Tag, te_ref_name = ref_name\<rparr>"

definition event_pull_request :: "string \<Rightarrow> trigger_event" where
  "event_pull_request base_ref = \<lparr>te_kind = EK_PullRequest, te_ref_name = base_ref\<rparr>"

definition event_manual :: trigger_event where
  "event_manual = \<lparr>te_kind = EK_Manual, te_ref_name = []\<rparr>"

definition event_branch :: "trigger_event \<Rightarrow> string option" where
  "event_branch self = strip_prefix ''refs/heads/'' (te_ref_name self)"

definition event_tag_name :: "trigger_event \<Rightarrow> string option" where
  "event_tag_name self = strip_prefix ''refs/tags/'' (te_ref_name self)"

definition is_some_and :: "'a option \<Rightarrow> ('a \<Rightarrow> bool) \<Rightarrow> bool" where
  "is_some_and x f = (case x of None \<Rightarrow> False | Some y \<Rightarrow> f y)"

definition triggers_admits :: "triggers \<Rightarrow> trigger_event \<Rightarrow> bool" where
  "triggers_admits self ev = (case te_kind ev of
       EK_Push \<Rightarrow>
         is_some_and (tr_push self) (\<lambda>f. is_some_and (event_branch ev) (accepts_branch f))
     | EK_PullRequest \<Rightarrow>
         is_some_and (tr_pull_request self) (\<lambda>f. is_some_and (event_branch ev) (accepts_branch f))
     | EK_Tag \<Rightarrow>
         is_some_and (tr_tag self) (\<lambda>f. is_some_and (event_tag_name ev) (accepts_tag f))
     | EK_Manual \<Rightarrow> tr_manual self)"

text \<open>The bytes a pattern segment must not have: control bytes, blank, DEL and \<open>~^:?[\<close>, backslash.\<close>

definition forbidden_ref_byte :: "char \<Rightarrow> bool" where
  "forbidden_ref_byte b \<longleftrightarrow>
     of_char b \<le> (32::nat) \<or> of_char b = (127::nat) \<or> b \<in> set ''~^:?['' \<or> b = CHR 0x5C"

fun valid_segments :: "string list \<Rightarrow> string + unit" where
  "valid_segments [] = Inr ()"
| "valid_segments (segment # rest) =
     (if segment = [] \<or> segment = ''.'' \<or> segment = ''..'' then Inl ''must be a relative ref path''
      else if segment \<noteq> ''**'' \<and>
        (find_sub ''**'' segment \<noteq> None \<or> list_ex forbidden_ref_byte segment)
      then Inl ''must not contain `**` inside a segment or forbidden characters''
      else valid_segments rest)"

definition valid_pattern :: "string \<Rightarrow> string + unit" where
  "valid_pattern pattern =
     (if pattern = [] \<or> MAX_REF_PATTERN_BYTES < length pattern then Inl ''must be 1-256 bytes''
      else if prefix ''/'' pattern \<or> suffix ''/'' pattern \<or> find_sub ''//'' pattern \<noteq> None
      then Inl ''must be a relative ref path''
      else valid_segments (split_on (CHR ''/'') pattern))"

subsection \<open>Lemmas\<close>

lemma is_some_and_iff: "is_some_and x f \<longleftrightarrow> (\<exists>y. x = Some y \<and> f y)"
  by (cases x) (auto simp: is_some_and_def)

lemma glob_spec_literal:
  assumes "\<forall>x\<in>set p. \<not> is_star x" "\<And>x v. x \<in> set p \<Longrightarrow> accepts x v \<longleftrightarrow> v = x"
  shows "glob_spec is_star accepts p n \<longleftrightarrow> n = p"
  unfolding wild_iff_spec [symmetric] using assms
  by (induction p arbitrary: n) (auto split: list.splits)

lemma glob_segment_literal: "CHR ''*'' \<notin> set p \<Longrightarrow> glob_segment p n \<longleftrightarrow> n = p"
  unfolding glob_segment_iff by (rule glob_spec_literal) auto

lemma pattern_matches_literal:
  assumes "CHR ''*'' \<notin> set pattern"
  shows "pattern_matches pattern s \<longleftrightarrow> s = pattern"
proof -
  let ?p = "split_on (CHR ''/'') pattern" and ?v = "split_on (CHR ''/'') s"
  have "CHR ''*'' \<notin> set x" if "x \<in> set ?p" for x
    using split_on_subset [OF that] assms by blast
  then have "pattern_matches pattern s \<longleftrightarrow> ?v = ?p"
    unfolding pattern_matches_iff
    by (intro glob_spec_literal) (force simp: glob_segment_literal)+
  also have "\<dots> \<longleftrightarrow> s = pattern" using join_split_on by metis
  finally show ?thesis .
qed

subsection \<open>Properties\<close>

text \<open>
  C24: both wildcard loops always return, and their answer is the declarative one. A ref matches a
  pattern exactly when its segments can be cut into consecutive pieces, any run of segments for
  each \<open>**\<close> and one segment for every other pattern segment, whose bytes in turn can be cut into
  any run of bytes for each \<open>*\<close> and one equal byte for every other pattern byte.
\<close>

theorem pattern_matches_meets_spec:
  "segment_loop sp sn 0 0 None = Some (glob_segment sp sn)
   \<and> pattern_loop (split_on (CHR ''/'') pattern) (split_on (CHR ''/'') s) 0 0 None
      = Some (pattern_matches pattern s)
   \<and> (pattern_matches pattern s \<longleftrightarrow>
       glob_spec (\<lambda>seg. seg = ''**'') (glob_spec (\<lambda>c. c = CHR ''*'') (=))
         (split_on (CHR ''/'') pattern) (split_on (CHR ''/'') s))"
proof (intro conjI)
  show "segment_loop sp sn 0 0 None = Some (glob_segment sp sn)"
    by (simp add: glob_segment_def seg.loop_result)
  show "pattern_loop (split_on (CHR ''/'') pattern) (split_on (CHR ''/'') s) 0 0 None
      = Some (pattern_matches pattern s)"
    by (simp add: pattern_matches_def pat.loop_result)
  have "glob_segment = glob_spec (\<lambda>c. c = CHR ''*'') (=)"
    by (intro ext) (rule glob_segment_iff)
  then show "pattern_matches pattern s \<longleftrightarrow>
      glob_spec (\<lambda>seg. seg = ''**'') (glob_spec (\<lambda>c. c = CHR ''*'') (=))
        (split_on (CHR ''/'') pattern) (split_on (CHR ''/'') s)"
    by (simp only: pattern_matches_iff)
qed

text \<open>
  A push trigger that names branches without wildcards runs for exactly those branches, and
  for no tag, pull request or manual event that the trigger table does not list.
\<close>

theorem literal_branches_admit_exactly:
  assumes "tr_push t = Some f" and "rf_branches f \<noteq> []"
    and "\<forall>b\<in>set (rf_branches f). CHR ''*'' \<notin> set b"
    and "tr_pull_request t = None" and "tr_tag t = None" and "\<not> tr_manual t"
  shows "triggers_admits t ev \<longleftrightarrow>
    te_kind ev = EK_Push \<and> (\<exists>b\<in>set (rf_branches f). te_ref_name ev = ''refs/heads/'' @ b)"
proof (cases "te_kind ev")
  case EK_Push
  have "accepts_branch f b \<longleftrightarrow> b \<in> set (rf_branches f)" for b
    using assms(2,3) by (auto simp: accepts_branch_def list_ex_iff pattern_matches_literal)
  moreover have "triggers_admits t ev \<longleftrightarrow> (\<exists>b. event_branch ev = Some b \<and> accepts_branch f b)"
    using assms(1) EK_Push by (simp add: triggers_admits_def is_some_and_iff)
  moreover have "event_branch ev = Some b \<longleftrightarrow> te_ref_name ev = ''refs/heads/'' @ b" for b
    unfolding event_branch_def by (rule strip_prefix_Some)
  ultimately show ?thesis using EK_Push by blast
qed (simp_all add: triggers_admits_def is_some_and_def assms)

theorem literal_branches_admit_exactly_witness:
  "triggers_admits \<lparr>tr_push = Some \<lparr>rf_branches = [''main'', ''dev''], rf_tags = []\<rparr>,
      tr_pull_request = None, tr_tag = None, tr_manual = False\<rparr> (event_push ''refs/heads/main'')"
  using literal_branches_admit_exactly
    [of "\<lparr>tr_push = Some \<lparr>rf_branches = [''main'', ''dev''], rf_tags = []\<rparr>,
      tr_pull_request = None, tr_tag = None, tr_manual = False\<rparr>"
      "\<lparr>rf_branches = [''main'', ''dev''], rf_tags = []\<rparr>" "event_push ''refs/heads/main''"]
  by (simp add: event_push_def)

end
