(* ===== verification/Schema_Names.thy ===== *)
theory Schema_Names
  imports Sentinel_Prelude
begin

text \<open>
  The name and path rules of \<open>crates/sentinel-pipeline/src/schema.rs\<close> that the expression language
  and the schema share.
\<close>

definition MAX_ID_BYTES :: nat where "MAX_ID_BYTES = 64"

definition valid_id :: "string \<Rightarrow> bool" where
  "valid_id s \<longleftrightarrow>
     s \<noteq> [] \<and> length s \<le> MAX_ID_BYTES \<and> (is_lower (hd s) \<or> is_digit (hd s))
     \<and> list_all (\<lambda>c. is_lower c \<or> is_digit c \<or> c = CHR ''_'' \<or> c = CHR ''-'') s"

definition valid_relative_path :: "string \<Rightarrow> bool" where
  "valid_relative_path s \<longleftrightarrow>
     s \<noteq> [] \<and> length s \<le> 256 \<and> \<not> prefix ''/'' s \<and> CHR 0x5C \<notin> set s \<and> CHR 0x00 \<notin> set s
     \<and> find_sub ''//'' s = None \<and> \<not> suffix ''/'' s
     \<and> list_all (\<lambda>seg. seg \<noteq> [] \<and> seg \<noteq> ''.'' \<and> seg \<noteq> ''..'') (split_on (CHR ''/'') s)"

definition valid_cache_path :: "string \<Rightarrow> bool" where
  "valid_cache_path s =
     (case strip_prefix ''/'' s of
        Some rest \<Rightarrow> rest \<noteq> [] \<and> valid_relative_path rest
      | None \<Rightarrow> valid_relative_path s)"

end
