(* ===== verification/Expr_Syntax.thy ===== *)
theory Expr_Syntax
  imports Schema_Names
begin

text \<open>
  The expression language of pipelines (\<open>crates/sentinel-pipeline/src/expr.rs\<close>), first part: phases,
  values, functions, the expression tree, its printed form, and what is computed from the tree
  alone: the phase an expression needs, its type, the jobs it names.
\<close>

subsection \<open>Limits and phases\<close>

definition MAX_EXPR_BYTES :: nat where "MAX_EXPR_BYTES = 1024"
definition MAX_TOKENS :: nat where "MAX_TOKENS = 256"
definition MAX_DEPTH :: nat where "MAX_DEPTH = 16"
definition MAX_ARGS :: nat where "MAX_ARGS = 8"
definition MAX_PATH_SEGMENTS :: nat where "MAX_PATH_SEGMENTS = 4"
definition MAX_HASH_PATTERNS :: nat where "MAX_HASH_PATTERNS = 8"
definition MAX_HASH_FILES :: nat where "MAX_HASH_FILES = 10000"
definition MAX_HASH_BYTES :: u64 where "MAX_HASH_BYTES = push_bit 20 256"

datatype phase = Compile | Dispatch | Schedule | WorkerPhase

primrec phase_code :: "phase \<Rightarrow> nat" where
  "phase_code Compile = 0"
| "phase_code Dispatch = 1"
| "phase_code Schedule = 2"
| "phase_code WorkerPhase = 3"

lemma phase_code_inject [simp]: "phase_code p = phase_code q \<longleftrightarrow> p = q"
  by (cases p; cases q) simp_all

instantiation phase :: linorder
begin

definition less_eq_phase :: "phase \<Rightarrow> phase \<Rightarrow> bool" where
  "less_eq_phase p q \<longleftrightarrow> phase_code p \<le> phase_code q"

definition less_phase :: "phase \<Rightarrow> phase \<Rightarrow> bool" where
  "less_phase p q \<longleftrightarrow> phase_code p < phase_code q"

instance
  by standard (auto simp: less_eq_phase_def less_phase_def)

end

lemma Compile_least [simp]: "Compile \<le> p"
  by (simp add: less_eq_phase_def)

subsection \<open>Values, functions, expressions\<close>

datatype val = V_Null | V_Bool bool | V_Int int | V_Str string

primrec type_name :: "val \<Rightarrow> string" where
  "type_name V_Null = ''null''"
| "type_name (V_Bool _) = ''boolean''"
| "type_name (V_Int _) = ''integer''"
| "type_name (V_Str _) = ''string''"

fun as_condition :: "val \<Rightarrow> bool option" where
  "as_condition (V_Bool b) = Some b"
| "as_condition _ = None"

datatype func = Success | Failure | Always | Cancelled | Contains | StartsWith | EndsWith | HashFiles

definition func_parse :: "string \<Rightarrow> func option" where
  "func_parse name =
     (if name = ''success'' then Some Success
      else if name = ''failure'' then Some Failure
      else if name = ''always'' then Some Always
      else if name = ''cancelled'' then Some Cancelled
      else if name = ''contains'' then Some Contains
      else if name = ''starts_with'' then Some StartsWith
      else if name = ''ends_with'' then Some EndsWith
      else if name = ''hash_files'' then Some HashFiles
      else None)"

primrec func_name :: "func \<Rightarrow> string" where
  "func_name Success = ''success''"
| "func_name Failure = ''failure''"
| "func_name Always = ''always''"
| "func_name Cancelled = ''cancelled''"
| "func_name Contains = ''contains''"
| "func_name StartsWith = ''starts_with''"
| "func_name EndsWith = ''ends_with''"
| "func_name HashFiles = ''hash_files''"

primrec func_arity :: "func \<Rightarrow> nat \<times> nat" where
  "func_arity Success = (0, 0)"
| "func_arity Failure = (0, 0)"
| "func_arity Always = (0, 0)"
| "func_arity Cancelled = (0, 0)"
| "func_arity Contains = (2, 2)"
| "func_arity StartsWith = (2, 2)"
| "func_arity EndsWith = (2, 2)"
| "func_arity HashFiles = (1, MAX_HASH_PATTERNS)"

primrec func_min_phase :: "func \<Rightarrow> phase" where
  "func_min_phase Success = Schedule"
| "func_min_phase Failure = Schedule"
| "func_min_phase Always = Schedule"
| "func_min_phase Cancelled = Dispatch"
| "func_min_phase Contains = Compile"
| "func_min_phase StartsWith = Compile"
| "func_min_phase EndsWith = Compile"
| "func_min_phase HashFiles = WorkerPhase"

datatype bin_op = Op_Eq | Op_Ne | Op_And | Op_Or

datatype expr =
    E_Lit val
  | E_Path "string list"
  | E_Not expr
  | E_Bin bin_op expr expr
  | E_Call func "expr list"

subsection \<open>Printing\<close>

text \<open>\<open>s.replace('\'', "''")\<close>.\<close>

fun double_quotes :: "string \<Rightarrow> string" where
  "double_quotes [] = []"
| "double_quotes (c # s) =
     (if c = CHR 0x27 then CHR 0x27 # CHR 0x27 # double_quotes s else c # double_quotes s)"

primrec bool_str :: "bool \<Rightarrow> string" where
  "bool_str True = ''true''"
| "bool_str False = ''false''"

primrec display_val :: "val \<Rightarrow> string" where
  "display_val V_Null = ''null''"
| "display_val (V_Bool b) = bool_str b"
| "display_val (V_Int i) = dec_int i"
| "display_val (V_Str s) = CHR 0x27 # double_quotes s @ [CHR 0x27]"

primrec op_sym :: "bin_op \<Rightarrow> string" where
  "op_sym Op_Eq = ''==''"
| "op_sym Op_Ne = ''!=''"
| "op_sym Op_And = ''&&''"
| "op_sym Op_Or = ''||''"

fun display_expr :: "expr \<Rightarrow> string" where
  "display_expr (E_Lit v) = display_val v"
| "display_expr (E_Path p) = join_with ''.'' p"
| "display_expr (E_Not e) = ''!'' @ display_expr e"
| "display_expr (E_Bin op a b) =
     ''('' @ display_expr a @ '' '' @ op_sym op @ '' '' @ display_expr b @ '')''"
| "display_expr (E_Call f args) = func_name f @ ''('' @ join_with '', '' (map display_expr args) @ '')''"

subsection \<open>What the tree determines\<close>

text \<open>
  \<open>p[0]\<close> of a path; a parsed path has at least one segment (\<open>parse_expr_wf\<close> below), so the first
  equation stands for no path the code has.
\<close>

fun path_root :: "string list \<Rightarrow> string" where
  "path_root [] = []"
| "path_root (s # _) = s"

fun min_phase :: "expr \<Rightarrow> phase" where
  "min_phase (E_Lit _) = Compile"
| "min_phase (E_Path p) = (if path_root p = ''needs'' then Schedule else Dispatch)"
| "min_phase (E_Not e) = min_phase e"
| "min_phase (E_Bin _ a b) = max (min_phase a) (min_phase b)"
| "min_phase (E_Call f args) = fold (\<lambda>p acc. max acc p) (map min_phase args) (func_min_phase f)"

fun uses_status_function :: "expr \<Rightarrow> bool" where
  "uses_status_function (E_Lit _) = False"
| "uses_status_function (E_Path _) = False"
| "uses_status_function (E_Not e) = uses_status_function e"
| "uses_status_function (E_Bin _ a b) = (uses_status_function a \<or> uses_status_function b)"
| "uses_status_function (E_Call f args) =
     (f = Success \<or> f = Failure \<or> f = Always \<or> list_ex uses_status_function args)"

text \<open>
  \<open>referenced_needs\<close> appends to \<open>out\<close>; \<open>p[1]\<close> of a path rooted at \<open>needs\<close> is the job, and a
  validated path of that root has three segments.
\<close>

definition push_new :: "string \<Rightarrow> string list \<Rightarrow> string list" where
  "push_new x out = (if x \<in> set out then out else out @ [x])"

fun path_job :: "string list \<Rightarrow> string" where
  "path_job (_ # j # _) = j"
| "path_job _ = []"

fun referenced_needs :: "expr \<Rightarrow> string list \<Rightarrow> string list" where
  "referenced_needs (E_Lit _) out = out"
| "referenced_needs (E_Path p) out =
     (if path_root p = ''needs'' then push_new (path_job p) out else out)"
| "referenced_needs (E_Not e) out = referenced_needs e out"
| "referenced_needs (E_Bin _ a b) out = referenced_needs b (referenced_needs a out)"
| "referenced_needs (E_Call _ args) out = fold referenced_needs args out"

end
