(* ===== verification/Expr_Parse.thy ===== *)
theory Expr_Parse
  imports Expr_Syntax
begin

text \<open>
  The expression language, second part: the tokenizer and the recursive-descent parser of
  \<open>crates/sentinel-pipeline/src/expr.rs\<close>.  The source walks indices; here the tokenizer carries the
  suffix of the text it has not read and the parser the suffix of the token list, so that a
  position is the full length less the suffix's.  Loops are recursive functions of the suffix.
  Strings are their UTF-8 bytes: the source copies a string literal one character at a time,
  which copies the same bytes, because no byte of a multi-byte character is a quote.
\<close>

subsection \<open>Tokens\<close>

record parse_error =
  pe_at :: nat
  pe_message :: string

definition perr :: "nat \<Rightarrow> string \<Rightarrow> parse_error" where
  "perr at m = \<lparr>pe_at = at, pe_message = m\<rparr>"

datatype tok = T_Str string | T_Int int | T_Ident string | T_Dot | T_Comma | T_LParen | T_RParen
  | T_Bang | T_EqEq | T_NotEq | T_AndAnd | T_OrOr

definition is_blank :: "char \<Rightarrow> bool" where
  "is_blank c \<longleftrightarrow> c = CHR '' '' \<or> c = CHR 0x09 \<or> c = CHR 0x0A \<or> c = CHR 0x0D"

definition ident_start :: "char \<Rightarrow> bool" where
  "ident_start c \<longleftrightarrow> is_lower c \<or> is_upper c \<or> c = CHR ''_''"

definition ident_part :: "char \<Rightarrow> bool" where
  "ident_part c \<longleftrightarrow> is_alnum c \<or> c = CHR ''_'' \<or> c = CHR ''-''"

text \<open>The body of a string literal after its opening quote: the text and what follows it.\<close>

fun lex_string :: "string \<Rightarrow> string \<Rightarrow> (string \<times> string) option" where
  "lex_string s [] = None"
| "lex_string s (c # r) =
     (if c = CHR 0x27 then
        (case r of
           d # r' \<Rightarrow> if d = CHR 0x27 then lex_string (s @ [CHR 0x27]) r' else Some (s, r)
         | [] \<Rightarrow> Some (s, r))
      else lex_string (s @ [c]) r)"

text \<open>\<open>b.get(i + 1) == Some(&d)\<close>.\<close>

definition next_is :: "char \<Rightarrow> string \<Rightarrow> bool" where
  "next_is d r \<longleftrightarrow> r \<noteq> [] \<and> hd r = d"

text \<open>One turn of the tokenizer at \<open>c\<close>: an error, a blank, or a token, and the text after it.\<close>

definition lex_one :: "char \<Rightarrow> string \<Rightarrow> string + (tok option \<times> string)" where
  "lex_one c r =
     (if is_blank c then Inr (None, r)
      else if c = CHR ''('' then Inr (Some T_LParen, r)
      else if c = CHR '')'' then Inr (Some T_RParen, r)
      else if c = CHR '','' then Inr (Some T_Comma, r)
      else if c = CHR ''.'' then Inr (Some T_Dot, r)
      else if c = CHR ''!'' \<and> next_is (CHR ''='') r then Inr (Some T_NotEq, tl r)
      else if c = CHR ''!'' then Inr (Some T_Bang, r)
      else if c = CHR ''='' \<and> next_is (CHR ''='') r then Inr (Some T_EqEq, tl r)
      else if c = CHR ''&'' \<and> next_is (CHR ''&'') r then Inr (Some T_AndAnd, tl r)
      else if c = CHR ''|'' \<and> next_is (CHR ''|'') r then Inr (Some T_OrOr, tl r)
      else if c = CHR 0x27 then
        (case lex_string [] r of
           None \<Rightarrow> Inl ''unterminated string''
         | Some (s, r') \<Rightarrow> Inr (Some (T_Str s), r'))
      else if is_digit c \<or> c = CHR ''-'' then
        (case parse_i64 (c # takeWhile is_digit r) of
           None \<Rightarrow> Inl ''invalid integer''
         | Some v \<Rightarrow> Inr (Some (T_Int v), dropWhile is_digit r))
      else if ident_start c then
        Inr (Some (T_Ident (c # takeWhile ident_part r)), dropWhile ident_part r)
      else Inl ''unexpected character'')"

lemma lex_string_length: "lex_string s r = Some (t, r') \<Longrightarrow> length r' < length r"
  by (induction s r rule: lex_string.induct) (auto split: if_splits list.splits)

lemma lex_one_shrinks:
  "case lex_one c r of Inl _ \<Rightarrow> True | Inr (_, r') \<Rightarrow> length r' \<le> length r"
  unfolding lex_one_def
  by (simp split: option.split prod.split)
    (auto simp: length_dropWhile_le dest: lex_string_length)

lemma lex_one_length: "lex_one c r = Inr (t, r') \<Longrightarrow> length r' \<le> length r"
  using lex_one_shrinks [where c = c and r = r] by simp

function tokenize_from :: "nat \<Rightarrow> string \<Rightarrow> (nat \<times> tok) list \<Rightarrow> parse_error + (nat \<times> tok) list" where
  "tokenize_from len [] out = Inr out"
| "tokenize_from len (c # r) out =
     (let start = len - length (c # r) in
      case lex_one c r of
        Inl m \<Rightarrow> Inl (perr start m)
      | Inr (None, r') \<Rightarrow> tokenize_from len r' out
      | Inr (Some t, r') \<Rightarrow>
          let out' = out @ [(start, t)] in
          if MAX_TOKENS < length out' then Inl (perr start ''expression has too many tokens'')
          else tokenize_from len r' out')"
  by pat_completeness auto
termination
  by (relation "measure (\<lambda>(_, s, _). length s)") (auto dest!: lex_one_length)

definition tokenize :: "string \<Rightarrow> parse_error + (nat \<times> tok) list" where
  "tokenize src = tokenize_from (length src) src []"

subsection \<open>Context paths\<close>

text \<open>
  \<open>validate_path\<close>: the first three segments are matched together, \<open>None\<close> past the end; only the
  arm for \<open>needs\<close> looks at the fourth.
\<close>

definition path_seg :: "string list \<Rightarrow> nat \<Rightarrow> string option" where
  "path_seg path i = (if i < length path then Some (path ! i) else None)"

definition validate_path :: "string list \<Rightarrow> string + unit" where
  "validate_path path =
     (let s0 = path_seg path 0; s1 = path_seg path 1; s2 = path_seg path 2 in
      if s0 = Some ''event'' \<and> s2 = None \<and>
        s1 \<in> Some ` {''name'', ''ref'', ''base_ref'', ''sha'', ''key'', ''pr_number''} then Inr ()
      else if s0 = Some ''repo'' \<and> s1 \<in> Some ` {''id'', ''name''} \<and> s2 = None then Inr ()
      else if s0 = Some ''run'' \<and> s1 = Some ''id'' \<and> s2 = None then Inr ()
      else if s0 = Some ''job'' \<and> s1 \<in> Some ` {''id'', ''name''} \<and> s2 = None then Inr ()
      else if s0 = Some ''needs'' \<and> s1 \<noteq> None \<and> s2 = Some ''result'' \<and> path_seg path 3 = None then
        (if valid_id (the s1) then Inr () else Inl ''needs.<job> must be a valid job name'')
      else if s0 \<in> Some ` {''event'', ''repo'', ''run'', ''job'', ''needs''} then
        Inl ''unknown context field''
      else Inl ''unknown context; expected event, repo, run, job or needs'')"

subsection \<open>The parser\<close>

type_synonym ptoks = "(nat \<times> tok) list"

fun peek :: "ptoks \<Rightarrow> tok option" where
  "peek [] = None"
| "peek ((_, t) # _) = Some t"

fun tok_at :: "nat \<Rightarrow> ptoks \<Rightarrow> nat" where
  "tok_at en [] = en"
| "tok_at en ((a, _) # _) = a"

definition expect :: "nat \<Rightarrow> tok \<Rightarrow> string \<Rightarrow> ptoks \<Rightarrow> parse_error + ptoks" where
  "expect en want what ts = (if peek ts = Some want then Inr (tl ts) else Inl (perr (tok_at en ts) what))"

fun eq_op :: "tok option \<Rightarrow> bin_op option" where
  "eq_op (Some T_EqEq) = Some Op_Eq"
| "eq_op (Some T_NotEq) = Some Op_Ne"
| "eq_op _ = None"

text \<open>The loop over \<open>.segment\<close> after the first segment of a path.\<close>

function parse_path :: "nat \<Rightarrow> string list \<Rightarrow> ptoks \<Rightarrow> parse_error + (string list \<times> ptoks)" where
  "parse_path en path ts =
     (if peek ts = Some T_Dot then
        (case tl ts of
           (_, T_Ident seg) # ts' \<Rightarrow>
             if MAX_PATH_SEGMENTS < length (path @ [seg])
             then Inl (perr (tok_at en ts') ''context path too long'')
             else parse_path en (path @ [seg]) ts'
         | _ \<Rightarrow> Inl (perr (tok_at en (tl (tl ts))) ''expected a name after `.`''))
      else Inr (path, ts))"
  by auto
termination
  by (relation "measure (\<lambda>(_, _, ts). length ts)") (auto simp: tl_def split: list.splits)

text \<open>The checks on a call once its arguments are read.\<close>

definition hash_pattern_ok :: "expr \<Rightarrow> bool" where
  "hash_pattern_ok a = (case a of E_Lit (V_Str p) \<Rightarrow> valid_relative_path p | _ \<Rightarrow> False)"

definition check_call :: "nat \<Rightarrow> string \<Rightarrow> func \<Rightarrow> expr list \<Rightarrow> parse_error + unit" where
  "check_call at name f args =
     (case func_arity f of (mn, mx) \<Rightarrow>
        if length args < mn \<or> mx < length args then
          Inl (perr at (''`'' @ name @ ''` takes '' @ dec_nat mn @ '' to '' @ dec_nat mx @ '' arguments''))
        else if f = HashFiles \<and> \<not> list_all hash_pattern_ok args then
          Inl (perr at ''hash_files patterns must be literal relative paths'')
        else Inr ())"

function parse_or :: "nat \<Rightarrow> nat \<Rightarrow> ptoks \<Rightarrow> parse_error + (expr \<times> ptoks)"
  and or_loop :: "nat \<Rightarrow> nat \<Rightarrow> expr \<Rightarrow> ptoks \<Rightarrow> parse_error + (expr \<times> ptoks)"
  and parse_and :: "nat \<Rightarrow> nat \<Rightarrow> ptoks \<Rightarrow> parse_error + (expr \<times> ptoks)"
  and and_loop :: "nat \<Rightarrow> nat \<Rightarrow> expr \<Rightarrow> ptoks \<Rightarrow> parse_error + (expr \<times> ptoks)"
  and parse_eq :: "nat \<Rightarrow> nat \<Rightarrow> ptoks \<Rightarrow> parse_error + (expr \<times> ptoks)"
  and parse_unary :: "nat \<Rightarrow> nat \<Rightarrow> ptoks \<Rightarrow> parse_error + (expr \<times> ptoks)"
  and parse_primary :: "nat \<Rightarrow> nat \<Rightarrow> ptoks \<Rightarrow> parse_error + (expr \<times> ptoks)"
  and parse_args :: "nat \<Rightarrow> nat \<Rightarrow> expr list \<Rightarrow> ptoks \<Rightarrow> parse_error + (expr list \<times> ptoks)" where
  "parse_or en depth ts =
     res_bind (parse_and en depth ts) (\<lambda>(lhs, ts1). or_loop en depth lhs ts1)"
| "or_loop en depth lhs ts =
     (if peek ts = Some T_OrOr then
        res_bind (parse_and en depth (tl ts)) (\<lambda>(rhs, ts1).
          or_loop en depth (E_Bin Op_Or lhs rhs) ts1)
      else Inr (lhs, ts))"
| "parse_and en depth ts =
     res_bind (parse_eq en depth ts) (\<lambda>(lhs, ts1). and_loop en depth lhs ts1)"
| "and_loop en depth lhs ts =
     (if peek ts = Some T_AndAnd then
        res_bind (parse_eq en depth (tl ts)) (\<lambda>(rhs, ts1).
          and_loop en depth (E_Bin Op_And lhs rhs) ts1)
      else Inr (lhs, ts))"
| "parse_eq en depth ts =
     res_bind (parse_unary en depth ts) (\<lambda>(lhs, ts1).
       case eq_op (peek ts1) of
         None \<Rightarrow> Inr (lhs, ts1)
       | Some op \<Rightarrow>
           res_bind (parse_unary en depth (tl ts1)) (\<lambda>(rhs, ts2).
             if peek ts2 = Some T_EqEq \<or> peek ts2 = Some T_NotEq then
               Inl (perr (tok_at en ts2) ''comparisons cannot be chained; use parentheses'')
             else Inr (E_Bin op lhs rhs, ts2)))"
| "parse_unary en depth ts =
     (if MAX_DEPTH < depth then Inl (perr (tok_at en ts) ''expression nests too deeply'')
      else if peek ts = Some T_Bang then
        res_bind (parse_unary en (depth + 1) (tl ts)) (\<lambda>(e, ts1). Inr (E_Not e, ts1))
      else parse_primary en depth ts)"
| "parse_primary en depth ts =
     (case ts of
        [] \<Rightarrow> Inl (perr en ''unexpected end of expression'')
      | (at, t) # ts1 \<Rightarrow>
          (case t of
             T_Str s \<Rightarrow> Inr (E_Lit (V_Str s), ts1)
           | T_Int i \<Rightarrow> Inr (E_Lit (V_Int i), ts1)
           | T_LParen \<Rightarrow>
               res_bind (parse_or en (depth + 1) ts1) (\<lambda>(inner, ts2).
                 res_bind (expect en T_RParen ''expected `)`'' ts2) (\<lambda>ts3. Inr (inner, ts3)))
           | T_Ident name \<Rightarrow>
               if peek ts1 = Some T_LParen then
                 (case func_parse name of
                    None \<Rightarrow> Inl (perr at (''unknown function `'' @ name @ ''`''))
                  | Some f \<Rightarrow>
                      res_bind
                        (if peek (tl ts1) \<noteq> Some T_RParen then parse_args en depth [] (tl ts1)
                         else Inr ([], tl ts1)) (\<lambda>(args, ts2).
                      res_bind (expect en T_RParen ''expected `)`'' ts2) (\<lambda>ts3.
                      res_bind (check_call at name f args) (\<lambda>_.
                        Inr (E_Call f args, ts3)))))
               else if name = ''true'' then Inr (E_Lit (V_Bool True), ts1)
               else if name = ''false'' then Inr (E_Lit (V_Bool False), ts1)
               else if name = ''null'' then Inr (E_Lit V_Null, ts1)
               else
                 res_bind (parse_path en [name] ts1) (\<lambda>(path, ts2).
                 res_bind (map_err (perr at) (validate_path path)) (\<lambda>_.
                   Inr (E_Path path, ts2)))
           | _ \<Rightarrow> Inl (perr at ''unexpected token'')))"
| "parse_args en depth args ts =
     (if MAX_ARGS \<le> length args then Inl (perr (tok_at en ts) ''too many arguments'')
      else
        res_bind (parse_or en (depth + 1) ts) (\<lambda>(a, ts1).
          if peek ts1 = Some T_Comma then parse_args en depth (args @ [a]) (tl ts1)
          else Inr (args @ [a], ts1)))"
  by pat_completeness auto

text \<open>
  Termination: every parsing function that succeeds leaves fewer tokens than it was given, the
  loops no more, so a recursive call after another one is on a shorter suffix.
\<close>

lemma peek_Some_length: "peek ts = Some t \<Longrightarrow> length ts = Suc (length (tl ts))"
  by (cases ts) auto

lemma expect_length: "expect en want what ts = Inr r \<Longrightarrow> length ts = Suc (length r)"
  by (auto simp: expect_def dest: peek_Some_length split: if_splits)

lemma eq_op_Some_length: "eq_op (peek ts) = Some op \<Longrightarrow> length ts = Suc (length (tl ts))"
  by (cases ts) auto

declare parse_path.simps [simp del]

lemma parse_path_length: "parse_path en path ts = Inr (p, r) \<Longrightarrow> length r \<le> length ts"
proof (induction en path ts rule: parse_path.induct)
  case (1 en path ts)
  show ?case
  proof (cases "peek ts = Some T_Dot")
    case True
    with 1(2) obtain a seg ts' where ts: "tl ts = (a, T_Ident seg) # ts'"
      and path: "\<not> MAX_PATH_SEGMENTS < length (path @ [seg])"
      and rest: "parse_path en (path @ [seg]) ts' = Inr (p, r)"
      by (subst (asm) parse_path.simps) (auto split: list.splits prod.splits tok.splits if_splits)
    from 1(1) [OF True ts refl refl path rest] ts show ?thesis by (cases ts) auto
  next
    case False
    with 1(2) show ?thesis by (subst (asm) parse_path.simps) simp
  qed
qed

lemma parse_consumes:
  "parse_or_or_loop_parse_and_and_loop_parse_eq_parse_unary_parse_primary_parse_args_dom
     (Inl (Inl (Inl (en, depth, ts)))) \<Longrightarrow>
     (\<forall>e r. parse_or en depth ts = Inr (e, r) \<longrightarrow> length r < length ts)"
  "parse_or_or_loop_parse_and_and_loop_parse_eq_parse_unary_parse_primary_parse_args_dom
     (Inl (Inl (Inr (en, depth, lhs, ts)))) \<Longrightarrow>
     (\<forall>e r. or_loop en depth lhs ts = Inr (e, r) \<longrightarrow> length r \<le> length ts)"
  "parse_or_or_loop_parse_and_and_loop_parse_eq_parse_unary_parse_primary_parse_args_dom
     (Inl (Inr (Inl (en, depth, ts)))) \<Longrightarrow>
     (\<forall>e r. parse_and en depth ts = Inr (e, r) \<longrightarrow> length r < length ts)"
  "parse_or_or_loop_parse_and_and_loop_parse_eq_parse_unary_parse_primary_parse_args_dom
     (Inl (Inr (Inr (en, depth, lhs, ts)))) \<Longrightarrow>
     (\<forall>e r. and_loop en depth lhs ts = Inr (e, r) \<longrightarrow> length r \<le> length ts)"
  "parse_or_or_loop_parse_and_and_loop_parse_eq_parse_unary_parse_primary_parse_args_dom
     (Inr (Inl (Inl (en, depth, ts)))) \<Longrightarrow>
     (\<forall>e r. parse_eq en depth ts = Inr (e, r) \<longrightarrow> length r < length ts)"
  "parse_or_or_loop_parse_and_and_loop_parse_eq_parse_unary_parse_primary_parse_args_dom
     (Inr (Inl (Inr (en, depth, ts)))) \<Longrightarrow>
     (\<forall>e r. parse_unary en depth ts = Inr (e, r) \<longrightarrow> length r < length ts)"
  "parse_or_or_loop_parse_and_and_loop_parse_eq_parse_unary_parse_primary_parse_args_dom
     (Inr (Inr (Inl (en, depth, ts)))) \<Longrightarrow>
     (\<forall>e r. parse_primary en depth ts = Inr (e, r) \<longrightarrow> length r < length ts)"
  "parse_or_or_loop_parse_and_and_loop_parse_eq_parse_unary_parse_primary_parse_args_dom
     (Inr (Inr (Inr (en, depth, args, ts)))) \<Longrightarrow>
     (\<forall>es r. parse_args en depth args ts = Inr (es, r) \<longrightarrow> length r < length ts)"
proof (induction en depth ts and en depth lhs ts and en depth ts and en depth lhs ts and
    en depth ts and en depth ts and en depth ts and en depth args ts
    rule: parse_or_or_loop_parse_and_and_loop_parse_eq_parse_unary_parse_primary_parse_args.pinduct)
  case (1 en depth ts)
  then show ?case by (fastforce simp: parse_or.psimps res_bind_eq_Inr)
next
  case (2 en depth lhs ts)
  then show ?case
    by (fastforce simp: or_loop.psimps res_bind_eq_Inr dest: peek_Some_length split: if_splits)
next
  case (3 en depth ts)
  then show ?case by (fastforce simp: parse_and.psimps res_bind_eq_Inr)
next
  case (4 en depth lhs ts)
  then show ?case
    by (fastforce simp: and_loop.psimps res_bind_eq_Inr dest: peek_Some_length split: if_splits)
next
  case (5 en depth ts)
  then show ?case
    by (fastforce simp: parse_eq.psimps res_bind_eq_Inr dest: eq_op_Some_length
        split: if_splits option.splits)
next
  case (6 en depth ts)
  then show ?case
    by (fastforce simp: parse_unary.psimps res_bind_eq_Inr dest: peek_Some_length split: if_splits)
next
  case (7 en depth ts)
  then show ?case
    by (fastforce simp: parse_primary.psimps res_bind_eq_Inr dest: peek_Some_length expect_length
        parse_path_length split: if_splits list.splits tok.splits option.splits prod.splits)
next
  case (8 en depth args ts)
  then show ?case
    by (fastforce simp: parse_args.psimps res_bind_eq_Inr dest: peek_Some_length split: if_splits)
qed

termination parse_or
proof (relation "measure (case_sum
      (case_sum
        (case_sum (\<lambda>(_, _, ts). 10 * length ts + 7) (\<lambda>(_, _, _, ts). 10 * length ts))
        (case_sum (\<lambda>(_, _, ts). 10 * length ts + 6) (\<lambda>(_, _, _, ts). 10 * length ts)))
      (case_sum
        (case_sum (\<lambda>(_, _, ts). 10 * length ts + 5) (\<lambda>(_, _, ts). 10 * length ts + 4))
        (case_sum (\<lambda>(_, _, ts). 10 * length ts + 3) (\<lambda>(_, _, _, ts). 10 * length ts + 8))))",
    goal_cases)
qed (auto dest!: parse_consumes peek_Some_length eq_op_Some_length)

declare parse_or.simps [simp del] or_loop.simps [simp del] parse_and.simps [simp del]
  and_loop.simps [simp del] parse_eq.simps [simp del] parse_unary.simps [simp del]
  parse_primary.simps [simp del] parse_args.simps [simp del]

definition parse_expr :: "string \<Rightarrow> parse_error + expr" where
  "parse_expr src =
     (if MAX_EXPR_BYTES < length src then
        Inl (perr 0 (''expression longer than '' @ dec_nat MAX_EXPR_BYTES @ '' bytes''))
      else
        res_bind (tokenize src) (\<lambda>toks.
        if toks = [] then Inl (perr 0 ''empty expression'')
        else
          res_bind (parse_or (length src) 0 toks) (\<lambda>(e, ts).
          if ts \<noteq> [] then Inl (perr (tok_at (length src) ts) ''unexpected trailing input'')
          else Inr e)))"

subsection \<open>Parsed expressions are well formed\<close>

definition ident_ok :: "string \<Rightarrow> bool" where
  "ident_ok s \<longleftrightarrow> s \<noteq> [] \<and> ident_start (hd s) \<and> list_all ident_part (tl s)"

fun tok_ok :: "tok \<Rightarrow> bool" where
  "tok_ok (T_Ident s) = ident_ok s"
| "tok_ok (T_Int i) = i64_range i"
| "tok_ok _ = True"

abbreviation toks_ok :: "ptoks \<Rightarrow> bool" where
  "toks_ok ts \<equiv> list_all (\<lambda>p. tok_ok (snd p)) ts"

fun wf_val :: "val \<Rightarrow> bool" where
  "wf_val (V_Int i) = i64_range i"
| "wf_val _ = True"

fun wf_expr :: "expr \<Rightarrow> bool" where
  "wf_expr (E_Lit v) = wf_val v"
| "wf_expr (E_Path p) = (validate_path p = Inr () \<and> list_all ident_ok p)"
| "wf_expr (E_Not e) = wf_expr e"
| "wf_expr (E_Bin _ a b) = (wf_expr a \<and> wf_expr b)"
| "wf_expr (E_Call f args) =
     (fst (func_arity f) \<le> length args \<and> length args \<le> snd (func_arity f)
      \<and> (f = HashFiles \<longrightarrow> list_all hash_pattern_ok args) \<and> list_all wf_expr args)"

lemma lex_one_ok:
  "case lex_one c r of Inr (Some t, _) \<Rightarrow> tok_ok t | _ \<Rightarrow> True"
  unfolding lex_one_def
  by (simp add: ident_ok_def list_all_iff split: option.split prod.split)
    (auto dest: parse_i64_range set_takeWhileD)

lemma tokenize_from_ok: "tokenize_from n s out = Inr ts \<Longrightarrow> toks_ok out \<Longrightarrow> toks_ok ts"
proof (induction n s out rule: tokenize_from.induct)
  case (2 len c r out)
  then show ?case
    using lex_one_ok [where c = c and r = r]
    by (auto simp: Let_def split: sum.splits option.splits prod.splits if_splits)
qed simp

lemma tokenize_ok: "tokenize src = Inr ts \<Longrightarrow> toks_ok ts"
  by (simp add: tokenize_def tokenize_from_ok)

lemma toks_ok_tl [simp]: "toks_ok ts \<Longrightarrow> toks_ok (tl ts)"
  by (cases ts) auto

lemma expect_ok: "expect en want what ts = Inr r \<Longrightarrow> toks_ok ts \<Longrightarrow> toks_ok r"
  by (auto simp: expect_def split: if_splits)

lemma parse_path_ok:
  "parse_path en path ts = Inr (p, r) \<Longrightarrow> toks_ok ts \<Longrightarrow> list_all ident_ok path \<Longrightarrow>
     list_all ident_ok p \<and> toks_ok r"
proof (induction en path ts rule: parse_path.induct)
  case (1 en path ts)
  show ?case
  proof (cases "peek ts = Some T_Dot")
    case True
    with 1(2) obtain a seg ts' where ts: "tl ts = (a, T_Ident seg) # ts'"
      and path: "\<not> MAX_PATH_SEGMENTS < length (path @ [seg])"
      and rest: "parse_path en (path @ [seg]) ts' = Inr (p, r)"
      by (subst (asm) parse_path.simps) (auto split: list.splits prod.splits tok.splits if_splits)
    have "toks_ok (tl ts)" using 1(3) by simp
    then show ?thesis using 1(1) [OF True ts refl refl path rest] 1(4) ts by simp
  next
    case False
    with 1 show ?thesis by (subst (asm) (2) parse_path.simps) simp
  qed
qed

lemma parse_ident_cases:
  assumes "parse_primary en depth ((at, T_Ident name) # ts1) = Inr (e, r)"
  obtains (call) f args ts2 where "peek ts1 = Some T_LParen" "func_parse name = Some f"
      "if peek (tl ts1) \<noteq> Some T_RParen then parse_args en depth [] (tl ts1) = Inr (args, ts2)
       else args = [] \<and> ts2 = tl ts1"
      "expect en T_RParen ''expected `)`'' ts2 = Inr r" "check_call at name f args = Inr ()"
      "e = E_Call f args"
  | (lit) v where "e = E_Lit v" "wf_val v" "r = ts1"
  | (path) path where "parse_path en [name] ts1 = Inr (path, r)" "validate_path path = Inr ()"
      "e = E_Path path"
proof (cases "peek ts1 = Some T_LParen")
  case True
  with assms obtain f where f: "func_parse name = Some f"
    by (auto simp: parse_primary.simps [of en depth "(at, T_Ident name) # ts1"] split: option.splits)
  with True assms obtain args ts2 where
    "(if peek (tl ts1) \<noteq> Some T_RParen then parse_args en depth [] (tl ts1) else Inr ([], tl ts1))
       = Inr (args, ts2)"
    "expect en T_RParen ''expected `)`'' ts2 = Inr r" "check_call at name f args = Inr ()"
    "e = E_Call f args"
    by (auto simp: parse_primary.simps [of en depth "(at, T_Ident name) # ts1"] res_bind_eq_Inr)
  with True f show thesis by (intro call [of f args ts2]) (auto split: if_splits)
next
  case False
  show thesis
  proof (cases "name = ''true'' \<or> name = ''false'' \<or> name = ''null''")
    case True
    with False assms obtain v where "e = E_Lit v" "wf_val v" "r = ts1"
      by (auto simp: parse_primary.simps [of en depth "(at, T_Ident name) # ts1"])
    then show thesis by (rule lit)
  next
    case name: False
    with False assms obtain path where "parse_path en [name] ts1 = Inr (path, r)"
      "validate_path path = Inr ()" "e = E_Path path"
      by (auto simp: parse_primary.simps [of en depth "(at, T_Ident name) # ts1"] res_bind_eq_Inr
          map_err_eq_Inr)
    then show thesis by (rule path)
  qed
qed

lemma check_call_ok:
  "check_call at name f args = Inr u \<Longrightarrow> list_all wf_expr args \<Longrightarrow> wf_expr (E_Call f args)"
  by (auto simp: check_call_def split: prod.splits if_splits)

lemma parse_wf:
  "toks_ok ts \<longrightarrow> (\<forall>e r. parse_or en depth ts = Inr (e, r) \<longrightarrow> wf_expr e \<and> toks_ok r)"
  "toks_ok ts \<longrightarrow> wf_expr lhs \<longrightarrow>
     (\<forall>e r. or_loop en depth lhs ts = Inr (e, r) \<longrightarrow> wf_expr e \<and> toks_ok r)"
  "toks_ok ts \<longrightarrow> (\<forall>e r. parse_and en depth ts = Inr (e, r) \<longrightarrow> wf_expr e \<and> toks_ok r)"
  "toks_ok ts \<longrightarrow> wf_expr lhs \<longrightarrow>
     (\<forall>e r. and_loop en depth lhs ts = Inr (e, r) \<longrightarrow> wf_expr e \<and> toks_ok r)"
  "toks_ok ts \<longrightarrow> (\<forall>e r. parse_eq en depth ts = Inr (e, r) \<longrightarrow> wf_expr e \<and> toks_ok r)"
  "toks_ok ts \<longrightarrow> (\<forall>e r. parse_unary en depth ts = Inr (e, r) \<longrightarrow> wf_expr e \<and> toks_ok r)"
  "toks_ok ts \<longrightarrow> (\<forall>e r. parse_primary en depth ts = Inr (e, r) \<longrightarrow> wf_expr e \<and> toks_ok r)"
  "toks_ok ts \<longrightarrow> list_all wf_expr args \<longrightarrow>
     (\<forall>es r. parse_args en depth args ts = Inr (es, r) \<longrightarrow> list_all wf_expr es \<and> toks_ok r)"
proof (induction en depth ts and en depth lhs ts and en depth ts and en depth lhs ts and
    en depth ts and en depth ts and en depth ts and en depth args ts
    rule: parse_or_or_loop_parse_and_and_loop_parse_eq_parse_unary_parse_primary_parse_args.induct)
  case (1 en depth ts)
  then show ?case unfolding parse_or.simps [of en depth ts] by (fastforce simp: res_bind_eq_Inr)
next
  case (2 en depth lhs ts)
  then show ?case
    unfolding or_loop.simps [of en depth lhs ts] by (fastforce simp: res_bind_eq_Inr split: if_splits)
next
  case (3 en depth ts)
  then show ?case unfolding parse_and.simps [of en depth ts] by (fastforce simp: res_bind_eq_Inr)
next
  case (4 en depth lhs ts)
  then show ?case
    unfolding and_loop.simps [of en depth lhs ts] by (fastforce simp: res_bind_eq_Inr split: if_splits)
next
  case (5 en depth ts)
  then show ?case
    unfolding parse_eq.simps [of en depth ts]
    by (fastforce simp: res_bind_eq_Inr split: if_splits option.splits)
next
  case (6 en depth ts)
  then show ?case
    unfolding parse_unary.simps [of en depth ts] by (fastforce simp: res_bind_eq_Inr split: if_splits)
next
  case (7 en depth ts)
  show ?case
  proof (cases ts)
    case (Cons p ts1)
    obtain at t where p: "p = (at, t)" by (cases p)
    show ?thesis
    proof (cases t)
      case (T_Ident name)
      show ?thesis
      proof (intro impI allI)
        fix e r assume ok: "toks_ok ts" and parsed: "parse_primary en depth ts = Inr (e, r)"
        have ts: "ts = (at, T_Ident name) # ts1" using Cons p T_Ident by simp
        from parsed [unfolded ts] show "wf_expr e \<and> toks_ok r"
        proof (cases rule: parse_ident_cases)
          case (call f args ts2)
          have "list_all wf_expr args \<and> toks_ok ts2"
            using call(3) 7(1) [OF ts refl refl call(1,2)] ok ts by (auto split: if_splits)
          then show ?thesis using check_call_ok [OF call(5)] expect_ok [OF call(4)] call(6) by blast
        qed (use ok ts in \<open>auto dest: parse_path_ok\<close>)
      qed
    next
      case T_LParen
      with 7 Cons p show ?thesis
        unfolding parse_primary.simps [of en depth ts]
        by (fastforce simp: res_bind_eq_Inr dest: expect_ok)
    qed (use Cons p in \<open>auto simp: parse_primary.simps\<close>)
  qed (simp add: parse_primary.simps)
next
  case (8 en depth args ts)
  then show ?case
    unfolding parse_args.simps [of en depth args ts]
    by (fastforce simp: res_bind_eq_Inr split: if_splits)
qed

lemma parse_expr_wf: "parse_expr src = Inr e \<Longrightarrow> wf_expr e"
  using tokenize_ok parse_wf(1)
  by (fastforce simp: parse_expr_def res_bind_eq_Inr split: if_splits)

end
