(* ===== verification/Expr_RoundTrip.thy ===== *)
theory Expr_RoundTrip
  imports Expr_Parse
begin

text \<open>
  Printing and parsing: the tokens of a printed expression, and that \<open>Expr::parse\<close> reads back what
  \<open>Display\<close> writes, as far as the parser's limits on bytes, tokens and nesting allow.
\<close>

subsection \<open>The tokens of a printed expression\<close>

primrec op_tok :: "bin_op \<Rightarrow> tok" where
  "op_tok Op_Eq = T_EqEq"
| "op_tok Op_Ne = T_NotEq"
| "op_tok Op_And = T_AndAnd"
| "op_tok Op_Or = T_OrOr"

primrec val_toks :: "val \<Rightarrow> tok list" where
  "val_toks V_Null = [T_Ident ''null'']"
| "val_toks (V_Bool b) = [T_Ident (bool_str b)]"
| "val_toks (V_Int i) = [T_Int i]"
| "val_toks (V_Str s) = [T_Str s]"

fun expr_toks :: "expr \<Rightarrow> tok list" where
  "expr_toks (E_Lit v) = val_toks v"
| "expr_toks (E_Path p) = join_with [T_Dot] (map (\<lambda>s. [T_Ident s]) p)"
| "expr_toks (E_Not e) = T_Bang # expr_toks e"
| "expr_toks (E_Bin op a b) = T_LParen # expr_toks a @ op_tok op # expr_toks b @ [T_RParen]"
| "expr_toks (E_Call f args) =
     T_Ident (func_name f) # T_LParen # join_with [T_Comma] (map expr_toks args) @ [T_RParen]"

text \<open>How deep the parser nests on the printed form.\<close>

fun print_depth :: "expr \<Rightarrow> nat" where
  "print_depth (E_Lit _) = 0"
| "print_depth (E_Path _) = 0"
| "print_depth (E_Not e) = Suc (print_depth e)"
| "print_depth (E_Bin _ a b) = Suc (max (print_depth a) (print_depth b))"
| "print_depth (E_Call _ args) = foldr (\<lambda>e n. max (Suc (print_depth e)) n) args 0"

subsection \<open>Tokenizing the printed form\<close>

text \<open>\<open>lex_to s ts s'\<close>: from \<open>s\<close> the tokenizer emits \<open>ts\<close> and goes on at \<open>s'\<close>.\<close>

definition lex_to :: "string \<Rightarrow> tok list \<Rightarrow> string \<Rightarrow> bool" where
  "lex_to s ts s' \<longleftrightarrow>
     (\<forall>len out. length out + length ts \<le> MAX_TOKENS \<longrightarrow>
        (\<exists>ps. map snd ps = ts \<and> tokenize_from len s out = tokenize_from len s' (out @ ps)))"

lemma lex_to_refl [simp]: "lex_to s [] s"
  by (simp add: lex_to_def)

lemma lex_to_trans: "lex_to s t1 s1 \<Longrightarrow> lex_to s1 t2 s2 \<Longrightarrow> lex_to s (t1 @ t2) s2"
proof (unfold lex_to_def, intro allI impI, goal_cases)
  case (1 len out)
  then have "length out + length t1 \<le> MAX_TOKENS" by simp
  with 1(1) obtain p1 where p1: "map snd p1 = t1"
    and e1: "tokenize_from len s out = tokenize_from len s1 (out @ p1)" by blast
  from p1 have "length p1 = length t1" by (metis length_map)
  then have "length (out @ p1) + length t2 \<le> MAX_TOKENS" using 1(3) by simp
  with 1(2) obtain p2 where "map snd p2 = t2"
    and "tokenize_from len s1 (out @ p1) = tokenize_from len s2 ((out @ p1) @ p2)" by blast
  with p1 e1 show ?case by (intro exI [of _ "p1 @ p2"]) simp
qed

lemma lex_to_tok: "lex_one c r = Inr (Some t, r') \<Longrightarrow> lex_to (c # r) [t] r'"
proof (unfold lex_to_def, intro allI impI, goal_cases)
  case (1 len out)
  then show ?case by (intro exI [of _ "[(len - Suc (length r), t)]"]) (simp add: Let_def)
qed

lemma lex_to_blank: "lex_to (CHR '' '' # r) [] r"
  by (simp add: lex_to_def lex_one_def is_blank_def)

lemma lex_to_Cons: "lex_to s [t] s1 \<Longrightarrow> lex_to s1 ts s2 \<Longrightarrow> lex_to s (t # ts) s2"
  using lex_to_trans [of s "[t]" s1 ts s2] by simp

text \<open>What may follow a token without changing it.\<close>

definition stops :: "string \<Rightarrow> bool" where
  "stops s \<longleftrightarrow> s = [] \<or> \<not> ident_part (hd s) \<and> hd s \<noteq> CHR 0x27"

lemma stops_digit: "stops s \<Longrightarrow> s = [] \<or> \<not> is_digit (hd s)"
  by (auto simp: stops_def ident_part_def byte_class_defs)

lemma ident_start_other:
  assumes "ident_start c"
  shows "\<not> is_blank c" "\<not> is_digit c" "c \<noteq> CHR ''-''" "c \<noteq> CHR ''(''" "c \<noteq> CHR '')''"
    "c \<noteq> CHR '',''" "c \<noteq> CHR ''.''" "c \<noteq> CHR ''!''" "c \<noteq> CHR ''=''" "c \<noteq> CHR ''&''"
    "c \<noteq> CHR ''|''" "c \<noteq> CHR 0x27"
proof -
  show "\<not> is_digit c"
    using assms is_digit_not_alpha [of c] by (auto simp: ident_start_def byte_class_defs)
qed (use assms in \<open>auto simp: ident_start_def is_blank_def byte_class_defs\<close>)

lemma lex_ident:
  assumes "ident_ok s" "stops r"
  shows "lex_to (s @ r) [T_Ident s] r"
proof -
  obtain c t where s: "s = c # t" using assms(1) by (cases s) (auto simp: ident_ok_def)
  then have c: "ident_start c" and t: "list_all ident_part t" using assms(1) by (auto simp: ident_ok_def)
  have "takeWhile ident_part (t @ r) = t" "dropWhile ident_part (t @ r) = r"
    using t assms(2) by (cases r; auto simp: list_all_iff stops_def)+
  moreover have "lex_one c (t @ r) = Inr (Some (T_Ident (c # takeWhile ident_part (t @ r))),
      dropWhile ident_part (t @ r))"
    using c by (simp add: lex_one_def ident_start_other)
  ultimately show ?thesis using s by (auto intro: lex_to_tok)
qed

lemma lex_string_doubled:
  "stops r \<Longrightarrow> lex_string acc (double_quotes s @ CHR 0x27 # r) = Some (acc @ s, r)"
  by (induction s arbitrary: acc) (auto simp: stops_def split: list.splits)

lemma lex_one_quote:
  "lex_one (CHR 0x27) r = (case lex_string [] r of
     None \<Rightarrow> Inl ''unterminated string'' | Some (s, r') \<Rightarrow> Inr (Some (T_Str s), r'))"
  by (simp add: lex_one_def is_blank_def)

lemma lex_str: "stops r \<Longrightarrow> lex_to (CHR 0x27 # double_quotes s @ CHR 0x27 # r) [T_Str s] r"
  by (rule lex_to_tok) (simp add: lex_one_quote lex_string_doubled)

lemma lex_one_digit:
  assumes "is_digit c \<or> c = CHR ''-''"
  shows "lex_one c r = (case parse_i64 (c # takeWhile is_digit r) of
     None \<Rightarrow> Inl ''invalid integer'' | Some v \<Rightarrow> Inr (Some (T_Int v), dropWhile is_digit r))"
proof -
  have "\<not> is_blank c" "c \<noteq> CHR ''(''" "c \<noteq> CHR '')''" "c \<noteq> CHR '',''" "c \<noteq> CHR ''.''"
    "c \<noteq> CHR ''!''" "c \<noteq> CHR ''=''" "c \<noteq> CHR ''&''" "c \<noteq> CHR ''|''" "c \<noteq> CHR 0x27"
    using assms by (auto simp: is_blank_def byte_class_defs)
  with assms show ?thesis by (auto simp: lex_one_def)
qed

lemma lex_int:
  assumes "i64_range i" "stops r"
  shows "lex_to (dec_int i @ r) [T_Int i] r"
proof -
  obtain c ds where i: "dec_int i = c # ds" and c: "is_digit c \<or> c = CHR ''-''"
    and ds: "list_all is_digit ds"
  proof (cases "i < 0")
    case True
    then show thesis using that dec_nat_digits by (simp add: dec_int_def)
  next
    case False
    then show thesis using that dec_nat_digits [of "nat i"]
      by (cases "dec_nat (nat i)") (auto simp: dec_int_def)
  qed
  have "takeWhile is_digit (ds @ r) = ds" "dropWhile is_digit (ds @ r) = r"
    using ds stops_digit [OF assms(2)] by (cases r; auto simp: list_all_iff)+
  then have "lex_one c (ds @ r) = Inr (Some (T_Int i), r)"
    using parse_i64_dec_int [OF assms(1)] i by (simp add: lex_one_digit [OF c])
  then show ?thesis using i by (auto intro: lex_to_tok)
qed

lemma stops_simps [simp]: "stops []" "stops (CHR '' '' # s)" "stops (CHR '','' # s)"
  "stops (CHR '')'' # s)" "stops (CHR ''('' # s)" "stops (CHR ''.'' # s)"
  by (simp_all add: stops_def ident_part_def byte_class_defs)

lemma lex_punct:
  "lex_to (CHR ''('' # s) [T_LParen] s" "lex_to (CHR '')'' # s) [T_RParen] s"
  "lex_to (CHR '','' # s) [T_Comma] s" "lex_to (CHR ''.'' # s) [T_Dot] s"
  "s = [] \<or> hd s \<noteq> CHR ''='' \<Longrightarrow> lex_to (CHR ''!'' # s) [T_Bang] s"
  by (auto simp: lex_one_def is_blank_def next_is_def intro!: lex_to_tok)

lemma lex_op: "lex_to (op_sym op @ s) [op_tok op] s"
  by (cases op) (auto simp: lex_one_def is_blank_def next_is_def intro!: lex_to_tok)

lemma lex_path:
  "p \<noteq> [] \<Longrightarrow> list_all ident_ok p \<Longrightarrow> stops s \<Longrightarrow>
     lex_to (join_with ''.'' p @ s) (join_with [T_Dot] (map (\<lambda>s. [T_Ident s]) p)) s"
proof (induction "''.''" p rule: join_with.induct)
  case (2 x)
  then show ?case by (simp add: lex_ident)
next
  case (3 x y ys)
  have "lex_to (x @ CHR ''.'' # join_with ''.'' (y # ys) @ s) [T_Ident x]
      (CHR ''.'' # join_with ''.'' (y # ys) @ s)"
    using 3 by (intro lex_ident) auto
  moreover have "lex_to (CHR ''.'' # join_with ''.'' (y # ys) @ s) [T_Dot] (join_with ''.'' (y # ys) @ s)"
    by (rule lex_punct)
  ultimately show ?case using 3 by (auto intro: lex_to_Cons)
qed simp

lemma func_name_ident: "ident_ok (func_name f)"
  by (cases f) (auto simp: ident_ok_def ident_start_def ident_part_def byte_class_defs)

lemma bool_str_ident: "ident_ok (bool_str b)" "ident_ok ''null''"
  by (cases b; auto simp: ident_ok_def ident_start_def ident_part_def byte_class_defs)+

lemma validate_path_nonempty: "validate_path p = Inr () \<Longrightarrow> p \<noteq> []"
  by (auto simp: validate_path_def path_seg_def)

lemma display_starts:
  assumes "wf_expr e"
  obtains c s where "display_expr e = c # s" "c \<noteq> CHR ''=''"
proof (cases e)
  case (E_Lit v)
  then show thesis
  proof (cases v)
    case (V_Int i)
    have "d \<noteq> CHR ''=''" if "dec_nat n = d # ds" for n d ds
      using dec_nat_digits [of n] that by (auto simp: byte_class_defs)
    moreover have "dec_nat (nat i) \<noteq> []" by simp
    ultimately show thesis using E_Lit V_Int that
      by (cases "i < 0"; cases "dec_nat (nat i)") (auto simp: dec_int_def)
  next
    case (V_Bool b)
    then show thesis using E_Lit that by (cases b) auto
  qed (use that in auto)
next
  case (E_Path p)
  then have "p \<noteq> []" "list_all ident_ok p" using assms by (auto dest: validate_path_nonempty)
  then obtain x q where p: "p = x # q" and x: "ident_ok x" by (cases p) auto
  then obtain c t where c: "x = c # t" "ident_start c" by (cases x) (auto simp: ident_ok_def)
  then have "join_with ''.'' p = c # t @ (case q of [] \<Rightarrow> [] | _ \<Rightarrow> ''.'' @ join_with ''.'' q)"
    using p by (cases q) auto
  then show thesis using E_Path that ident_start_other(9) [OF c(2)] by auto
next
  case (E_Call f args)
  then show thesis using that by (cases f) auto
qed (use that in auto)

lemma lex_args:
  assumes "\<And>a s. a \<in> set args \<Longrightarrow> stops s \<Longrightarrow> lex_to (display_expr a @ s) (expr_toks a) s"
  shows "lex_to (join_with '', '' (map display_expr args) @ CHR '')'' # s)
    (join_with [T_Comma] (map expr_toks args)) (CHR '')'' # s)"
  using assms
proof (induction args)
  case (Cons a args)
  show ?case
  proof (cases args)
    case Nil
    then show ?thesis using Cons(2) by simp
  next
    case (Cons b bs)
    let ?rest = "join_with '', '' (map display_expr args) @ CHR '')'' # s"
    have "lex_to (display_expr a @ '', '' @ ?rest) (expr_toks a) ('', '' @ ?rest)"
      using Cons.prems by simp
    moreover have "lex_to ('', '' @ ?rest) [T_Comma] (CHR '' '' # ?rest)"
      using lex_punct(3) by simp
    moreover have "lex_to (CHR '' '' # ?rest) [] ?rest" by (rule lex_to_blank)
    moreover have "lex_to ?rest (join_with [T_Comma] (map expr_toks args)) (CHR '')'' # s)"
      using Cons.IH Cons.prems by simp
    ultimately have "lex_to (display_expr a @ '', '' @ ?rest)
        (expr_toks a @ [T_Comma] @ [] @ join_with [T_Comma] (map expr_toks args)) (CHR '')'' # s)"
      by (blast intro: lex_to_trans)
    then show ?thesis using Cons by simp
  qed
qed simp

lemma lex_display: "wf_expr e \<Longrightarrow> stops s \<Longrightarrow> lex_to (display_expr e @ s) (expr_toks e) s"
proof (induction e arbitrary: s rule: display_expr.induct)
  case (1 v)
  then show ?case by (cases v) (auto simp: lex_int lex_str lex_ident bool_str_ident(1)
      lex_ident [OF bool_str_ident(2), simplified])
next
  case (2 p)
  then show ?case by (simp add: lex_path validate_path_nonempty)
next
  case (3 e)
  obtain c t where "display_expr e = c # t" "c \<noteq> CHR ''=''"
    using display_starts 3(2) by auto
  then have "lex_to (CHR ''!'' # display_expr e @ s) [T_Bang] (display_expr e @ s)"
    by (intro lex_punct) simp
  then show ?case using 3 by (auto intro: lex_to_Cons)
next
  case (4 op a b)
  let ?s1 = "'' '' @ op_sym op @ '' '' @ display_expr b @ '')'' @ s"
  have "lex_to (CHR ''('' # display_expr a @ ?s1) [T_LParen] (display_expr a @ ?s1)"
    by (rule lex_punct)
  moreover have "lex_to (display_expr a @ ?s1) (expr_toks a) ?s1" using 4 by simp
  moreover have "lex_to ?s1 [op_tok op] ('' '' @ display_expr b @ '')'' @ s)"
    using lex_to_trans [OF lex_to_blank lex_op] by simp
  moreover have "lex_to ('' '' @ display_expr b @ '')'' @ s) (expr_toks b) ('')'' @ s)"
    using lex_to_trans [OF lex_to_blank 4(2)] 4(3) by simp
  moreover have "lex_to ('')'' @ s) [T_RParen] s" using lex_punct by simp
  ultimately have "lex_to (CHR ''('' # display_expr a @ ?s1)
      ([T_LParen] @ expr_toks a @ [op_tok op] @ expr_toks b @ [T_RParen]) s"
    by (blast intro: lex_to_trans)
  then show ?case by simp
next
  case (5 f args)
  let ?s1 = "join_with '', '' (map display_expr args) @ CHR '')'' # s"
  have "lex_to (func_name f @ CHR ''('' # ?s1) [T_Ident (func_name f)] (CHR ''('' # ?s1)"
    by (simp add: lex_ident func_name_ident)
  moreover have "lex_to (CHR ''('' # ?s1) [T_LParen] ?s1" by (rule lex_punct)
  moreover have "lex_to ?s1 (join_with [T_Comma] (map expr_toks args)) (CHR '')'' # s)"
    using 5 by (intro lex_args) (auto simp: list_all_iff)
  moreover have "lex_to (CHR '')'' # s) [T_RParen] s" by (rule lex_punct)
  ultimately have "lex_to (func_name f @ CHR ''('' # ?s1)
      ([T_Ident (func_name f)] @ [T_LParen] @ join_with [T_Comma] (map expr_toks args) @ [T_RParen]) s"
    by (blast intro: lex_to_trans)
  then show ?case by simp
qed

lemma tokenize_display:
  assumes "wf_expr e" "length (expr_toks e) \<le> MAX_TOKENS"
  obtains ts where "tokenize (display_expr e) = Inr ts" "map snd ts = expr_toks e"
proof -
  have "lex_to (display_expr e @ []) (expr_toks e) []" using assms(1) by (intro lex_display) simp_all
  then obtain ts where "map snd ts = expr_toks e"
    "tokenize_from (length (display_expr e)) (display_expr e) [] = Inr ts"
    unfolding lex_to_def using assms(2)
    by (elim allE [of _ "length (display_expr e)"] allE [of _ "[]"]) auto
  then show thesis using that by (simp add: tokenize_def)
qed
subsection \<open>Parsing the printed form\<close>

text \<open>No token list of an expression goes on after it with one of these.\<close>

definition follows :: "tok list \<Rightarrow> bool" where
  "follows ts \<longleftrightarrow> ts = [] \<or> hd ts \<notin> {T_Dot, T_LParen}"

definition closes :: "tok list \<Rightarrow> bool" where
  "closes ts \<longleftrightarrow> ts = [] \<or> hd ts \<notin> {T_Dot, T_LParen, T_EqEq, T_NotEq, T_AndAnd, T_OrOr}"

lemma peek_map: "peek ts = (case map snd ts of [] \<Rightarrow> None | t # _ \<Rightarrow> Some t)"
  by (cases ts) auto

lemma parse_eq_single:
  "parse_unary en depth ts = Inr (e, r) \<Longrightarrow> eq_op (peek r) = None \<Longrightarrow> parse_eq en depth ts = Inr (e, r)"
  by (simp add: parse_eq.simps)

lemma parse_and_single:
  "parse_unary en depth ts = Inr (e, r) \<Longrightarrow> eq_op (peek r) = None \<Longrightarrow> peek r \<noteq> Some T_AndAnd \<Longrightarrow>
     parse_and en depth ts = Inr (e, r)"
  by (simp add: parse_and.simps parse_eq_single and_loop.simps)

lemma closes_peek:
  "map snd r = rest \<Longrightarrow> closes rest \<Longrightarrow>
     eq_op (peek r) = None \<and> peek r \<noteq> Some T_AndAnd \<and> peek r \<noteq> Some T_OrOr
     \<and> peek r \<noteq> Some T_EqEq \<and> peek r \<noteq> Some T_NotEq"
  by (cases r; cases "snd (hd r)") (auto simp: closes_def peek_map)

lemma parse_or_single:
  "parse_unary en depth ts = Inr (e, r) \<Longrightarrow> map snd r = rest \<Longrightarrow> closes rest \<Longrightarrow>
     parse_or en depth ts = Inr (e, r)"
  by (simp add: parse_or.simps parse_and_single or_loop.simps closes_peek)

lemma parse_or_bin:
  assumes a: "parse_unary en depth ts = Inr (a, (p, op_tok op) # ts1)"
    and b: "parse_unary en depth ts1 = Inr (b, r)" and r: "map snd r = rest" "closes rest"
  shows "parse_or en depth ts = Inr (E_Bin op a b, r)"
proof -
  note c = closes_peek [OF r]
  show ?thesis
  proof (cases op)
    case Op_Eq
    with a b c show ?thesis
      by (simp add: parse_or.simps or_loop.simps parse_and.simps and_loop.simps parse_eq.simps)
  next
    case Op_Ne
    with a b c show ?thesis
      by (simp add: parse_or.simps or_loop.simps parse_and.simps and_loop.simps parse_eq.simps)
  next
    case Op_And
    have "parse_eq en depth ts = Inr (a, (p, T_AndAnd) # ts1)"
      using a Op_And by (intro parse_eq_single) simp_all
    moreover have "parse_eq en depth ts1 = Inr (b, r)" using b c by (intro parse_eq_single) simp_all
    ultimately show ?thesis using c Op_And
      by (simp add: parse_or.simps parse_and.simps or_loop.simps and_loop.simps [of en depth a]
          and_loop.simps [of en depth "E_Bin Op_And a b"])
  next
    case Op_Or
    have "parse_and en depth ts = Inr (a, (p, T_OrOr) # ts1)"
      using a Op_Or by (intro parse_and_single) simp_all
    moreover have "parse_and en depth ts1 = Inr (b, r)" using b c by (intro parse_and_single) simp_all
    ultimately show ?thesis using c Op_Or
      by (simp add: parse_or.simps or_loop.simps [of en depth a]
          or_loop.simps [of en depth "E_Bin Op_Or a b"])
  qed
qed

lemma parse_path_toks:
  assumes "map snd ts = concat (map (\<lambda>s. [T_Dot, T_Ident s]) segs) @ rest" "follows rest"
    "length path + length segs \<le> MAX_PATH_SEGMENTS"
  obtains r where "parse_path en path ts = Inr (path @ segs, r)" "map snd r = rest"
  using assms
proof (induction segs arbitrary: path ts thesis)
  case Nil
  then have "peek ts \<noteq> Some T_Dot" by (cases ts) (auto simp: follows_def)
  with Nil show ?case by (simp add: parse_path.simps)
next
  case (Cons s segs)
  from Cons.prems(2) obtain a b ts1 where ts: "ts = (a, T_Dot) # (b, T_Ident s) # ts1"
    and ts1: "map snd ts1 = concat (map (\<lambda>s. [T_Dot, T_Ident s]) segs) @ rest"
    by (auto simp: map_eq_Cons_conv)
  from Cons.prems(4) have "length (path @ [s]) + length segs \<le> MAX_PATH_SEGMENTS" by simp
  with Cons.IH [OF _ ts1 Cons.prems(3)] obtain r where
    "parse_path en (path @ [s]) ts1 = Inr ((path @ [s]) @ segs, r)" "map snd r = rest" by blast
  then have "parse_path en path ts = Inr (path @ s # segs, r)"
    using ts Cons.prems(4) by (subst parse_path.simps) simp
  then show ?case using Cons.prems(1) \<open>map snd r = rest\<close> by blast
qed

lemma func_parse_name [simp]: "func_parse (func_name f) = Some f"
  by (cases f) (simp_all add: func_parse_def)

lemma expr_toks_start: "wf_expr e \<Longrightarrow> \<exists>t ts. expr_toks e = t # ts \<and> t \<noteq> T_RParen"
proof (cases e)
  case (E_Lit v)
  then show ?thesis by (cases v) auto
next
  case (E_Path p)
  moreover assume "wf_expr e"
  ultimately have "p \<noteq> []" by (auto dest: validate_path_nonempty)
  then obtain x q where "p = x # q" by (cases p) auto
  then show ?thesis using E_Path by (cases q) auto
qed auto

lemma check_call_wf: "wf_expr (E_Call f args) \<Longrightarrow> check_call at name f args = Inr ()"
  by (auto simp: check_call_def split: prod.splits)

lemma path_toks_eq:
  "join_with [T_Dot] (map (\<lambda>s. [T_Ident s]) (x # q)) = T_Ident x # concat (map (\<lambda>s. [T_Dot, T_Ident s]) q)"
  by (induction q arbitrary: x) auto

lemma validate_path_facts:
  assumes "validate_path (x # q) = Inr ()"
  shows "x \<noteq> ''true''" "x \<noteq> ''false''" "x \<noteq> ''null''" "length (x # q) \<le> MAX_PATH_SEGMENTS"
proof -
  have "length (x # q) \<le> 3"
    using assms by (simp add: validate_path_def path_seg_def Let_def split: if_splits)
  then show "length (x # q) \<le> MAX_PATH_SEGMENTS" by (simp add: MAX_PATH_SEGMENTS_def)
qed (use assms in \<open>auto simp: validate_path_def path_seg_def\<close>)

definition reads_back :: "expr \<Rightarrow> bool" where
  "reads_back e \<longleftrightarrow>
     (\<forall>en depth ts rest. depth + print_depth e \<le> MAX_DEPTH \<longrightarrow> map snd ts = expr_toks e @ rest \<longrightarrow>
        follows rest \<longrightarrow> (\<exists>r. parse_unary en depth ts = Inr (e, r) \<and> map snd r = rest))"

lemma reads_backD:
  assumes "reads_back e" "depth + print_depth e \<le> MAX_DEPTH" "map snd ts = expr_toks e @ rest" "follows rest"
  obtains r where "parse_unary en depth ts = Inr (e, r)" "map snd r = rest"
  using assms unfolding reads_back_def by metis

lemma parse_args_printed:
  assumes "\<And>a. a \<in> set args \<Longrightarrow> reads_back a \<and> Suc depth + print_depth a \<le> MAX_DEPTH"
    and "args \<noteq> []" "length acc + length args \<le> MAX_ARGS"
    and "map snd ts = join_with [T_Comma] (map expr_toks args) @ T_RParen # rest"
  shows "\<exists>r. parse_args en depth acc ts = Inr (acc @ args, r) \<and> map snd r = T_RParen # rest"
  using assms
proof (induction args arbitrary: acc ts)
  case (Cons a args)
  let ?more = "case args of [] \<Rightarrow> T_RParen # rest
    | _ \<Rightarrow> T_Comma # join_with [T_Comma] (map expr_toks args) @ T_RParen # rest"
  have ts: "map snd ts = expr_toks a @ ?more" using Cons.prems(4) by (cases args) auto
  have f: "follows ?more" and "closes ?more" by (cases args; simp add: follows_def closes_def)+
  have "reads_back a" "Suc depth + print_depth a \<le> MAX_DEPTH" using Cons.prems(1) by simp_all
  from reads_backD [OF this ts f] obtain r where
    r: "parse_unary en (Suc depth) ts = Inr (a, r)" "map snd r = ?more" by blast
  then have a: "parse_or en (Suc depth) ts = Inr (a, r)"
    using \<open>closes ?more\<close> by (intro parse_or_single)
  have room: "\<not> MAX_ARGS \<le> length acc" using Cons.prems(3) by simp
  show ?case
  proof (cases args)
    case Nil
    with r(2) have "peek r \<noteq> Some T_Comma" by (simp add: peek_map)
    with a room Nil r(2) show ?thesis by (subst parse_args.simps) simp
  next
    case more: (Cons b bs)
    with r(2) obtain p r' where r': "r = (p, T_Comma) # r'"
      "map snd r' = join_with [T_Comma] (map expr_toks args) @ T_RParen # rest"
      by (auto simp: map_eq_Cons_conv)
    have "\<exists>r. parse_args en depth (acc @ [a]) r' = Inr ((acc @ [a]) @ args, r) \<and> map snd r = T_RParen # rest"
      using Cons.prems more r'(2) by (intro Cons.IH) auto
    with a room r'(1) show ?thesis by (subst parse_args.simps) simp
  qed
qed simp

lemma unary_primary:
  "depth \<le> MAX_DEPTH \<Longrightarrow> peek ts \<noteq> Some T_Bang \<Longrightarrow> parse_unary en depth ts = parse_primary en depth ts"
  by (simp add: parse_unary.simps)

lemma follows_peek: "map snd ts = rest \<Longrightarrow> follows rest \<Longrightarrow> peek ts \<noteq> Some T_LParen \<and> peek ts \<noteq> Some T_Dot"
  by (cases ts) (auto simp: follows_def)

lemma reads_back_lit: "reads_back (E_Lit v)"
proof (unfold reads_back_def, intro allI impI)
  fix en depth :: nat and ts :: ptoks and rest
  assume d: "depth + print_depth (E_Lit v) \<le> MAX_DEPTH" and rest: "follows rest"
    and "map snd ts = expr_toks (E_Lit v) @ rest"
  then obtain p t ts1 where ts: "ts = (p, t) # ts1" and t: "val_toks v = [t]" and ts1: "map snd ts1 = rest"
    by (cases v) (auto simp: map_eq_Cons_conv)
  from t have "peek ts \<noteq> Some T_Bang" using ts by (cases v) auto
  moreover have "peek ts1 \<noteq> Some T_LParen" using follows_peek [OF ts1 rest] by simp
  ultimately have "parse_unary en depth ts = Inr (E_Lit v, ts1)"
  proof (cases v)
    case (V_Bool b)
    with \<open>peek ts1 \<noteq> _\<close> d ts t show ?thesis
      by (cases b) (auto simp: unary_primary parse_primary.simps)
  qed (use d ts t in \<open>auto simp: unary_primary parse_primary.simps\<close>)
  with ts1 show "\<exists>r. parse_unary en depth ts = Inr (E_Lit v, r) \<and> map snd r = rest" by blast
qed

lemma reads_back_path:
  assumes "wf_expr (E_Path p)"
  shows "reads_back (E_Path p)"
proof (unfold reads_back_def, intro allI impI)
  fix en depth :: nat and ts :: ptoks and rest
  assume d: "depth + print_depth (E_Path p) \<le> MAX_DEPTH" and rest: "follows rest"
    and toks: "map snd ts = expr_toks (E_Path p) @ rest"
  obtain x q where p: "p = x # q" using assms validate_path_nonempty by (cases p) auto
  with assms have valid: "validate_path (x # q) = Inr ()" by simp
  note facts = validate_path_facts [OF valid]
  from toks p have "map snd ts = T_Ident x # concat (map (\<lambda>s. [T_Dot, T_Ident s]) q) @ rest"
    using path_toks_eq [of x q] by simp
  then obtain at ts1 where ts: "ts = (at, T_Ident x) # ts1"
    and ts1: "map snd ts1 = concat (map (\<lambda>s. [T_Dot, T_Ident s]) q) @ rest"
    by (auto simp: map_eq_Cons_conv)
  have len: "length [x] + length q \<le> MAX_PATH_SEGMENTS" using facts(4) by simp
  obtain r where r: "parse_path en [x] ts1 = Inr ([x] @ q, r)" "map snd r = rest"
    using parse_path_toks [OF ts1 rest len] by blast
  have "peek ts1 \<noteq> Some T_LParen"
    using follows_peek [of ts1 rest] rest ts1 by (cases q) (auto simp: peek_map)
  then have "parse_unary en depth ts = Inr (E_Path p, r)"
    using d ts r(1) p valid facts(1-3) by (simp add: unary_primary parse_primary.simps)
  with r(2) show "\<exists>r. parse_unary en depth ts = Inr (E_Path p, r) \<and> map snd r = rest" by blast
qed

lemma reads_back_not:
  assumes "reads_back e"
  shows "reads_back (E_Not e)"
proof (unfold reads_back_def, intro allI impI)
  fix en depth :: nat and ts :: ptoks and rest
  assume d: "depth + print_depth (E_Not e) \<le> MAX_DEPTH" and rest: "follows rest"
    and "map snd ts = expr_toks (E_Not e) @ rest"
  then obtain p ts1 where ts: "ts = (p, T_Bang) # ts1" "map snd ts1 = expr_toks e @ rest"
    by (auto simp: map_eq_Cons_conv)
  obtain r where "parse_unary en (Suc depth) ts1 = Inr (e, r)" "map snd r = rest"
    using reads_backD [OF assms _ ts(2) rest, of "Suc depth" en] d by auto
  with d ts(1) show "\<exists>r. parse_unary en depth ts = Inr (E_Not e, r) \<and> map snd r = rest"
    by (subst parse_unary.simps) simp
qed

lemma reads_back_bin:
  assumes "reads_back a" "reads_back b"
  shows "reads_back (E_Bin op a b)"
proof (unfold reads_back_def, intro allI impI)
  fix en depth :: nat and ts :: ptoks and rest
  assume d: "depth + print_depth (E_Bin op a b) \<le> MAX_DEPTH"
    and "map snd ts = expr_toks (E_Bin op a b) @ rest"
  then obtain p ts1 where ts: "ts = (p, T_LParen) # ts1"
    and ts1: "map snd ts1 = expr_toks a @ op_tok op # expr_toks b @ T_RParen # rest"
    by (auto simp: map_eq_Cons_conv)
  have da: "Suc depth + print_depth a \<le> MAX_DEPTH" and db: "Suc depth + print_depth b \<le> MAX_DEPTH"
    using d by auto
  have "follows (op_tok op # expr_toks b @ T_RParen # rest)" by (cases op) (auto simp: follows_def)
  from reads_backD [OF assms(1) da ts1 this] obtain r where
    a: "parse_unary en (Suc depth) ts1 = Inr (a, r)" "map snd r = op_tok op # expr_toks b @ T_RParen # rest" .
  then obtain q ts2 where r: "r = (q, op_tok op) # ts2" and ts2: "map snd ts2 = expr_toks b @ T_RParen # rest"
    by (auto simp: map_eq_Cons_conv)
  have "follows (T_RParen # rest)" and closes: "closes (T_RParen # rest)"
    by (simp_all add: follows_def closes_def)
  from reads_backD [OF assms(2) db ts2 this(1)] obtain r2 where
    b: "parse_unary en (Suc depth) ts2 = Inr (b, r2)" "map snd r2 = T_RParen # rest" .
  have "parse_or en (Suc depth) ts1 = Inr (E_Bin op a b, r2)"
    using a(1) r by (intro parse_or_bin [OF _ b closes]) simp
  moreover from b(2) obtain s r3 where "r2 = (s, T_RParen) # r3" "map snd r3 = rest"
    by (auto simp: map_eq_Cons_conv)
  ultimately show "\<exists>r. parse_unary en depth ts = Inr (E_Bin op a b, r) \<and> map snd r = rest"
    using ts d by (simp add: unary_primary parse_primary.simps [of en depth "(p, T_LParen) # ts1"] expect_def)
qed

lemma print_depth_arg: "a \<in> set args \<Longrightarrow> Suc (print_depth a) \<le> print_depth (E_Call f args)"
  by (induction args) auto

lemma reads_back_call:
  assumes wf: "wf_expr (E_Call f args)" and args: "\<And>a. a \<in> set args \<Longrightarrow> reads_back a"
  shows "reads_back (E_Call f args)"
proof (unfold reads_back_def, intro allI impI)
  fix en depth :: nat and ts :: ptoks and rest
  assume d: "depth + print_depth (E_Call f args) \<le> MAX_DEPTH"
    and "map snd ts = expr_toks (E_Call f args) @ rest"
  then obtain at q ts1 where ts: "ts = (at, T_Ident (func_name f)) # (q, T_LParen) # ts1"
    and ts1: "map snd ts1 = join_with [T_Comma] (map expr_toks args) @ T_RParen # rest"
    by (auto simp: map_eq_Cons_conv)
  have "snd (func_arity f) \<le> MAX_ARGS" by (cases f) (simp_all add: MAX_ARGS_def MAX_HASH_PATTERNS_def)
  then have len: "length args \<le> MAX_ARGS" using wf by simp
  have arg: "reads_back a \<and> Suc depth + print_depth a \<le> MAX_DEPTH" if "a \<in> set args" for a
    using args [OF that] print_depth_arg [OF that, of f] d by simp
  have "\<exists>r. (if peek ts1 \<noteq> Some T_RParen then parse_args en depth [] ts1 else Inr ([], ts1)) = Inr (args, r)
      \<and> map snd r = T_RParen # rest"
  proof (cases args)
    case Nil
    with ts1 show ?thesis by (simp add: peek_map)
  next
    case (Cons a bs)
    then have "wf_expr a" using wf by simp
    then obtain t tt where "expr_toks a = t # tt" "t \<noteq> T_RParen" using expr_toks_start by blast
    then have "peek ts1 \<noteq> Some T_RParen" using ts1 Cons by (cases bs) (auto simp: peek_map)
    then show ?thesis using parse_args_printed [OF arg _ _ ts1, of "[]" en] Cons len by simp
  qed
  then obtain r p r' where
    "(if peek ts1 \<noteq> Some T_RParen then parse_args en depth [] ts1 else Inr ([], ts1)) = Inr (args, r)"
    "r = (p, T_RParen) # r'" "map snd r' = rest" by (auto simp: map_eq_Cons_conv)
  then show "\<exists>r. parse_unary en depth ts = Inr (E_Call f args, r) \<and> map snd r = rest"
    using ts d check_call_wf [OF wf]
    by (cases "peek ts1 = Some T_RParen") (auto simp: unary_primary expect_def parse_primary.simps)
qed

lemma reads_back_wf: "wf_expr e \<Longrightarrow> reads_back e"
proof (induction e rule: wf_expr.induct)
  case (5 f args)
  then show ?case by (intro reads_back_call) (auto simp: list_all_iff)
qed (simp_all add: reads_back_lit reads_back_path reads_back_not reads_back_bin del: wf_expr.simps(2))

lemma parse_display:
  assumes wf: "wf_expr e" and bytes: "length (display_expr e) \<le> MAX_EXPR_BYTES"
    and toks: "length (expr_toks e) \<le> MAX_TOKENS" and depth: "print_depth e \<le> MAX_DEPTH"
  shows "parse_expr (display_expr e) = Inr e"
proof -
  obtain ts where ts: "tokenize (display_expr e) = Inr ts" "map snd ts = expr_toks e @ []"
    using tokenize_display [OF wf toks] by auto
  have f: "follows []" "closes []" by (simp_all add: follows_def closes_def)
  have "0 + print_depth e \<le> MAX_DEPTH" using depth by simp
  from reads_backD [OF reads_back_wf [OF wf] this ts(2) f(1)]
  obtain r where r: "parse_unary (length (display_expr e)) 0 ts = Inr (e, r)" "map snd r = []" .
  then have "parse_or (length (display_expr e)) 0 ts = Inr (e, [])"
    using parse_or_single [OF r f(2)] by simp
  moreover have "ts \<noteq> []" using ts(2) expr_toks_start [OF wf] by auto
  ultimately show ?thesis using bytes ts(1) by (simp add: parse_expr_def)
qed

subsection \<open>Properties\<close>

text \<open>
  C28: whatever the parser accepts is well formed. Every call has the arity of its function,
  \<open>hash_files\<close> has only literal relative paths, every context path is a known one, and every
  integer fits in 64 bits.
\<close>

theorem parse_yields_well_formed:
  assumes "parse_expr src = Inr e"
  shows "wf_expr e"
  using assms by (rule parse_expr_wf)

theorem parse_yields_well_formed_witness:
  "wf_expr (E_Bin Op_And (E_Path [''event'', ''ref'']) (E_Call Success []))"
  by (rule parse_yields_well_formed [of "''event.ref && success()''"]) code_simp

text \<open>
  C23: printing an accepted expression and parsing the text again gives the same expression,
  whenever the fully parenthesised text is within the parser's own limits on bytes, tokens and
  nesting.
\<close>

theorem display_parse_round_trip:
  assumes "parse_expr src = Inr e"
    and "length (display_expr e) \<le> MAX_EXPR_BYTES" and "length (expr_toks e) \<le> MAX_TOKENS"
    and "print_depth e \<le> MAX_DEPTH"
  shows "parse_expr (display_expr e) = Inr e"
  using parse_display [OF parse_expr_wf] assms by blast

theorem display_parse_round_trip_witness:
  "parse_expr ''(!failure() || (event.base_ref == null))'' =
     Inr (E_Bin Op_Or (E_Not (E_Call Failure []))
       (E_Bin Op_Eq (E_Path [''event'', ''base_ref'']) (E_Lit V_Null)))"
proof -
  let ?e = "E_Bin Op_Or (E_Not (E_Call Failure []))
       (E_Bin Op_Eq (E_Path [''event'', ''base_ref'']) (E_Lit V_Null))"
  have "parse_expr ''!failure() || event.base_ref == null'' = Inr ?e" by code_simp
  then have "parse_expr (display_expr ?e) = Inr ?e"
    by (rule display_parse_round_trip) code_simp+
  moreover have "display_expr ?e = ''(!failure() || (event.base_ref == null))''" by code_simp
  ultimately show ?thesis by simp
qed

end
