(* ===== verification/Expr_Eval.thy ===== *)
theory Expr_Eval
  imports Expr_Parse
begin

text \<open>
  The expression language, third part (\<open>crates/sentinel-pipeline/src/expr.rs\<close>): the type check a
  condition must pass, and evaluation in a context.  An out-of-range \<open>args[i]\<close> would panic; the
  model has the panic as a value, and the soundness theorem shows it is never reached.
\<close>

subsection \<open>Types\<close>

definition TY_STR :: u8 where "TY_STR = 1"
definition TY_INT :: u8 where "TY_INT = 2"
definition TY_BOOL :: u8 where "TY_BOOL = 4"
definition TY_NULL :: u8 where "TY_NULL = 8"

lemmas ty_defs = TY_STR_def TY_INT_def TY_BOOL_def TY_NULL_def

definition count_ones :: "u8 \<Rightarrow> nat" where
  "count_ones w = length (filter (\<lambda>i. bit w i) [0, 1, 2, 3, 4, 5, 6, 7])"

definition path_type :: "string list \<Rightarrow> u8" where
  "path_type p =
     (if p = [''event'', ''base_ref''] then TY_STR OR TY_NULL
      else if p = [''event'', ''pr_number''] then TY_INT OR TY_NULL
      else TY_STR)"

text \<open>The closure \<open>only\<close>, and the loop that applies it to each argument in turn.\<close>

definition only :: "string + u8 \<Rightarrow> u8 \<Rightarrow> string \<Rightarrow> string + unit" where
  "only ty want message = res_bind ty (\<lambda>t. if t = want then Inr () else Inl message)"

fun each_only :: "(string + u8) list \<Rightarrow> u8 \<Rightarrow> string \<Rightarrow> string + unit" where
  "each_only [] want message = Inr ()"
| "each_only (ty # tys) want message =
     res_bind (only ty want message) (\<lambda>_. each_only tys want message)"

primrec lit_type :: "val \<Rightarrow> u8" where
  "lit_type V_Null = TY_NULL"
| "lit_type (V_Bool _) = TY_BOOL"
| "lit_type (V_Int _) = TY_INT"
| "lit_type (V_Str _) = TY_STR"

fun types :: "expr \<Rightarrow> string + u8" where
  "types (E_Lit v) = Inr (lit_type v)"
| "types (E_Path p) = Inr (path_type p)"
| "types (E_Not e) =
     res_bind (only (types e) TY_BOOL ''`!` needs a boolean operand'') (\<lambda>_. Inr TY_BOOL)"
| "types (E_Bin op a b) =
     (if op = Op_And \<or> op = Op_Or then
        res_bind (only (types a) TY_BOOL ''`&&` and `||` need boolean operands'') (\<lambda>_.
        res_bind (only (types b) TY_BOOL ''`&&` and `||` need boolean operands'') (\<lambda>_.
          Inr TY_BOOL))
      else
        res_bind (types a) (\<lambda>ta. res_bind (types b) (\<lambda>tb.
          let a = ta AND NOT TY_NULL; b = tb AND NOT TY_NULL in
          if a \<noteq> 0 \<and> b \<noteq> 0 \<and> 1 < count_ones (a OR b) then Inl ''comparison between different types''
          else Inr TY_BOOL)))"
| "types (E_Call f args) =
     (if f = Contains \<or> f = StartsWith \<or> f = EndsWith then
        res_bind (each_only (map types args) TY_STR ''this function takes strings'') (\<lambda>_. Inr TY_BOOL)
      else if f = HashFiles then Inr TY_STR
      else Inr TY_BOOL)"

definition check_condition :: "expr \<Rightarrow> string + unit" where
  "check_condition e =
     res_bind (types e) (\<lambda>t. if t = TY_BOOL then Inr () else Inl ''condition must be a boolean expression'')"

subsection \<open>Contexts and errors\<close>

datatype lookup = L_Value val | L_Unresolved

record dependency_summary =
  all_succeeded :: bool
  any_failed :: bool

datatype hash_files_error = UnsupportedPlatform | TraversalLimit | DepthLimit | PathLimit
  | InvalidFileName | UnsafeFile | ChangedFile | NoMatch | TooManyFiles nat | TooManyBytes u64
  | InvalidPattern string | HashIo string

datatype eval_error = EE_Unresolved phase phase | EE_TypeMismatch string string
  | EE_HashFiles hash_files_error | EE_Panic

record eval_ctx =
  cx_phase :: phase
  cx_lookup :: "string list \<Rightarrow> lookup"
  cx_dependency_summary :: "dependency_summary option"
  cx_cancelled :: "bool option"
  cx_hash_files :: "string list \<Rightarrow> hash_files_error + string"

fun expect_str :: "val \<Rightarrow> eval_error + string" where
  "expect_str (V_Str s) = Inr s"
| "expect_str other = Inl (EE_TypeMismatch ''string'' (type_name other))"

fun expect_bool :: "val \<Rightarrow> eval_error + bool" where
  "expect_bool (V_Bool b) = Inr b"
| "expect_bool other = Inl (EE_TypeMismatch ''boolean'' (type_name other))"

fun same_type :: "val \<Rightarrow> val \<Rightarrow> bool" where
  "same_type V_Null V_Null = True"
| "same_type (V_Bool _) (V_Bool _) = True"
| "same_type (V_Int _) (V_Int _) = True"
| "same_type (V_Str _) (V_Str _) = True"
| "same_type _ _ = False"

definition arg_at :: "(eval_error + val) list \<Rightarrow> nat \<Rightarrow> eval_error + val" where
  "arg_at rs i = (if i < length rs then rs ! i else Inl EE_Panic)"

definition hash_patterns :: "expr list \<Rightarrow> string list" where
  "hash_patterns args = map (\<lambda>a. case a of E_Lit (V_Str s) \<Rightarrow> s | _ \<Rightarrow> []) args"

subsection \<open>Evaluation\<close>

definition eval_compare :: "bin_op \<Rightarrow> val \<Rightarrow> val \<Rightarrow> eval_error + val" where
  "eval_compare op l r =
     (if \<not> same_type l r \<and> l \<noteq> V_Null \<and> r \<noteq> V_Null then
        Inl (EE_TypeMismatch (type_name l) (type_name r))
      else Inr (V_Bool (if op = Op_Eq then l = r else l \<noteq> r)))"

definition eval_status :: "eval_ctx \<Rightarrow> func \<Rightarrow> eval_error + val" where
  "eval_status ctx f =
     res_bind (ok_or (EE_Unresolved (cx_phase ctx) Schedule) (cx_dependency_summary ctx)) (\<lambda>deps.
     res_bind (ok_or (EE_Unresolved (cx_phase ctx) Dispatch) (cx_cancelled ctx)) (\<lambda>cancelled.
       Inr (V_Bool (case f of
           Success \<Rightarrow> all_succeeded deps \<and> \<not> cancelled
         | Failure \<Rightarrow> any_failed deps \<and> \<not> cancelled
         | _ \<Rightarrow> \<not> cancelled))))"

definition eval_strings :: "func \<Rightarrow> (eval_error + val) list \<Rightarrow> eval_error + val" where
  "eval_strings f rs =
     res_bind (res_bind (arg_at rs 0) expect_str) (\<lambda>a.
     res_bind (res_bind (arg_at rs 1) expect_str) (\<lambda>b.
       Inr (V_Bool (case f of
           Contains \<Rightarrow> find_sub b a \<noteq> None
         | StartsWith \<Rightarrow> prefix b a
         | _ \<Rightarrow> suffix b a))))"

fun eval :: "eval_ctx \<Rightarrow> expr \<Rightarrow> eval_error + val" where
  "eval ctx (E_Lit v) = Inr v"
| "eval ctx (E_Path p) =
     (case cx_lookup ctx p of
        L_Value v \<Rightarrow> Inr v
      | L_Unresolved \<Rightarrow> Inl (EE_Unresolved (cx_phase ctx) (min_phase (E_Path p))))"
| "eval ctx (E_Not e) =
     res_bind (eval ctx e) (\<lambda>v. res_bind (expect_bool v) (\<lambda>b. Inr (V_Bool (\<not> b))))"
| "eval ctx (E_Bin op a b) = (case op of
       Op_And \<Rightarrow>
         res_bind (eval ctx a) (\<lambda>v. res_bind (expect_bool v) (\<lambda>l.
           if \<not> l then Inr (V_Bool False)
           else res_bind (eval ctx b) (\<lambda>w. res_bind (expect_bool w) (\<lambda>r. Inr (V_Bool r)))))
     | Op_Or \<Rightarrow>
         res_bind (eval ctx a) (\<lambda>v. res_bind (expect_bool v) (\<lambda>l.
           if l then Inr (V_Bool True)
           else res_bind (eval ctx b) (\<lambda>w. res_bind (expect_bool w) (\<lambda>r. Inr (V_Bool r)))))
     | _ \<Rightarrow>
         res_bind (eval ctx a) (\<lambda>l. res_bind (eval ctx b) (\<lambda>r. eval_compare op l r)))"
| "eval ctx (E_Call f args) =
     (if cx_phase ctx < func_min_phase f then Inl (EE_Unresolved (cx_phase ctx) (func_min_phase f))
      else (case f of
          Cancelled \<Rightarrow>
            res_map V_Bool (ok_or (EE_Unresolved (cx_phase ctx) Dispatch) (cx_cancelled ctx))
        | HashFiles \<Rightarrow> map_err EE_HashFiles (res_map V_Str (cx_hash_files ctx (hash_patterns args)))
        | Contains \<Rightarrow> eval_strings f (map (eval ctx) args)
        | StartsWith \<Rightarrow> eval_strings f (map (eval ctx) args)
        | EndsWith \<Rightarrow> eval_strings f (map (eval ctx) args)
        | _ \<Rightarrow> eval_status ctx f))"

subsection \<open>What evaluation depends on\<close>

fun expr_paths :: "expr \<Rightarrow> string list set" where
  "expr_paths (E_Lit _) = {}"
| "expr_paths (E_Path p) = {p}"
| "expr_paths (E_Not e) = expr_paths e"
| "expr_paths (E_Bin _ a b) = expr_paths a \<union> expr_paths b"
| "expr_paths (E_Call _ args) = (\<Union>a\<in>set args. expr_paths a)"

definition needs_jobs :: "expr \<Rightarrow> string set" where
  "needs_jobs e = path_job ` {p \<in> expr_paths e. path_root p = ''needs''}"

lemma set_push_new [simp]: "set (push_new x out) = insert x (set out)"
  by (auto simp: push_new_def)

lemma needs_jobs_simps [simp]:
  "needs_jobs (E_Lit v) = {}" "needs_jobs (E_Not e) = needs_jobs e"
  "needs_jobs (E_Bin op a b) = needs_jobs a \<union> needs_jobs b"
  "needs_jobs (E_Call f args) = (\<Union>a\<in>set args. needs_jobs a)"
  "needs_jobs (E_Path p) = (if path_root p = ''needs'' then {path_job p} else {})"
  by (auto simp: needs_jobs_def)

lemma set_fold_needs:
  assumes "\<And>a out. a \<in> set args \<Longrightarrow> set (referenced_needs a out) = set out \<union> needs_jobs a"
  shows "set (fold referenced_needs args out) = set out \<union> (\<Union>a\<in>set args. needs_jobs a)"
  using assms by (induction args arbitrary: out) auto

lemma set_referenced_needs: "set (referenced_needs e out) = set out \<union> needs_jobs e"
proof (induction e out rule: referenced_needs.induct)
  case (5 f args out)
  have "set (referenced_needs a o') = set o' \<union> needs_jobs a" if "a \<in> set args" for a o'
    using 5 that by simp
  then show ?case using set_fold_needs [of args out] by simp
qed auto

lemma fold_max_le: "fold (\<lambda>p acc. max acc p) ps (p0 :: phase) \<le> q \<longleftrightarrow> p0 \<le> q \<and> (\<forall>p\<in>set ps. p \<le> q)"
  by (induction ps arbitrary: p0) auto

lemma min_phase_call:
  "min_phase (E_Call f args) \<le> q \<longleftrightarrow> func_min_phase f \<le> q \<and> (\<forall>a\<in>set args. min_phase a \<le> q)"
  by (simp add: fold_max_le)

lemma eval_cong:
  assumes "\<And>p. p \<in> expr_paths e \<Longrightarrow> cx_lookup ctx p = cx_lookup ctx' p"
    and "cx_phase ctx = cx_phase ctx'" "cx_dependency_summary ctx = cx_dependency_summary ctx'"
    "cx_cancelled ctx = cx_cancelled ctx'" "cx_hash_files ctx = cx_hash_files ctx'"
  shows "eval ctx e = eval ctx' e"
  using assms
proof (induction ctx e rule: eval.induct)
  case (4 ctx op a b)
  then show ?case by (cases op) (auto intro!: res_bind_cong)
next
  case (5 ctx f args)
  have "map (eval ctx) args = map (eval ctx') args" if "f \<in> {Contains, StartsWith, EndsWith}"
    using 5 that by (cases f) (auto simp: not_less)
  with 5(5-8) show ?case by (cases f) (simp_all add: eval_status_def cong: map_cong)
qed (auto intro!: res_bind_cong split: lookup.splits)

subsection \<open>Soundness of the type check\<close>

definition has_type :: "val \<Rightarrow> u8 \<Rightarrow> bool" where
  "has_type v t \<longleftrightarrow> lit_type v AND t \<noteq> 0"

fun safe_error :: "eval_error \<Rightarrow> bool" where
  "safe_error (EE_TypeMismatch _ _) = False"
| "safe_error EE_Panic = False"
| "safe_error _ = True"

definition sound :: "eval_error + val \<Rightarrow> u8 \<Rightarrow> bool" where
  "sound r t = (case r of Inl e \<Rightarrow> safe_error e | Inr v \<Rightarrow> has_type v t)"

text \<open>Each value has one type bit; a mask has a value when it has that bit.\<close>

primrec type_bit :: "val \<Rightarrow> nat" where
  "type_bit (V_Str _) = 0"
| "type_bit (V_Int _) = 1"
| "type_bit (V_Bool _) = 2"
| "type_bit V_Null = 3"

lemma lit_type_bit: "lit_type v = push_bit (type_bit v) 1"
  by (cases v) (simp_all add: ty_defs)

lemma has_type_bit: "has_type v t \<longleftrightarrow> bit t (type_bit v)"
proof -
  have "type_bit v < 8" by (cases v) simp_all
  then show ?thesis unfolding has_type_def and_nonzero_iff lit_type_bit bit_unit by auto
qed

lemma same_type_bit: "same_type l r \<longleftrightarrow> type_bit l = type_bit r"
  by (cases l; cases r) simp_all

lemma bit_TY: "bit TY_BOOL i \<longleftrightarrow> i = 2" "bit TY_STR i \<longleftrightarrow> i = 0" "bit TY_NULL i \<longleftrightarrow> i = 3"
proof -
  have *: "TY_BOOL = push_bit 2 1" "TY_STR = push_bit 0 1" "TY_NULL = push_bit 3 1"
    by (simp_all add: ty_defs)
  show "bit TY_BOOL i \<longleftrightarrow> i = 2" "bit TY_STR i \<longleftrightarrow> i = 0" "bit TY_NULL i \<longleftrightarrow> i = 3"
    unfolding * bit_unit by auto
qed

lemma has_type_BOOL: "has_type v TY_BOOL \<longleftrightarrow> (\<exists>b. v = V_Bool b)"
  unfolding has_type_bit bit_TY by (cases v) simp_all

lemma has_type_STR: "has_type v TY_STR \<longleftrightarrow> (\<exists>s. v = V_Str s)"
  unfolding has_type_bit bit_TY by (cases v) simp_all

lemma count_ones_two:
  assumes "bit w i" "bit w j" "i \<noteq> j" "i < 8" "j < 8"
  shows "1 < count_ones w"
proof -
  define ns :: "nat list" where "ns = [0, 1, 2, 3, 4, 5, 6, 7]"
  have "k \<in> set ns" if "k < 8" for k
    using that by (simp add: ns_def numeral_eq_Suc less_Suc_eq)
  then have "{i, j} \<subseteq> set (filter (bit w) ns)" using assms by auto
  then have "card {i, j} \<le> card (set (filter (bit w) ns))" by (intro card_mono) auto
  also have "\<dots> \<le> length (filter (bit w) ns)" by (rule card_length)
  finally show ?thesis using assms(3) unfolding count_ones_def ns_def [symmetric] by simp
qed

lemma compare_sound:
  assumes ok: "\<not> (ta AND NOT TY_NULL \<noteq> 0 \<and> tb AND NOT TY_NULL \<noteq> 0
          \<and> 1 < count_ones ((ta AND NOT TY_NULL) OR (tb AND NOT TY_NULL)))"
    and "has_type l ta" "has_type r tb"
  shows "same_type l r \<or> l = V_Null \<or> r = V_Null"
proof (rule ccontr)
  assume "\<not> ?thesis"
  then have diff: "type_bit l \<noteq> type_bit r" and "type_bit l < 3" "type_bit r < 3"
    by (cases l; cases r; simp)+
  then have l: "bit (ta AND NOT TY_NULL) (type_bit l)" and r: "bit (tb AND NOT TY_NULL) (type_bit r)"
    using assms(2,3) by (auto simp: has_type_bit bit_and_iff bit_not_iff bit_TY)
  have "w \<noteq> 0" if "bit w i" for w :: u8 and i using that by auto
  with l r have "ta AND NOT TY_NULL \<noteq> 0" "tb AND NOT TY_NULL \<noteq> 0" by blast+
  moreover have "1 < count_ones ((ta AND NOT TY_NULL) OR (tb AND NOT TY_NULL))"
    using l r diff \<open>type_bit l < 3\<close> \<open>type_bit r < 3\<close>
    by (intro count_ones_two [of _ "type_bit l" "type_bit r"]) (simp_all add: bit_or_iff)
  ultimately show False using ok by blast
qed

lemma sound_bind:
  assumes "sound r t" "\<And>v. r = Inr v \<Longrightarrow> has_type v t \<Longrightarrow> sound (f v) t'"
  shows "sound (res_bind r f) t'"
  using assms by (cases r) (simp_all add: sound_def)

lemma sound_bind_bool:
  assumes "sound r TY_BOOL" "\<And>b. r = Inr (V_Bool b) \<Longrightarrow> sound (f b) t'"
  shows "sound (res_bind r (\<lambda>v. res_bind (expect_bool v) f)) t'"
  by (rule sound_bind [OF assms(1)]) (auto simp: has_type_BOOL assms(2))

lemma sound_BOOL [simp]: "sound (Inr (V_Bool b)) TY_BOOL"
  by (simp add: sound_def has_type_BOOL)

lemma each_only_Inr: "each_only tys want m = Inr u \<longleftrightarrow> (\<forall>ty\<in>set tys. ty = Inr want)"
  by (induction tys) (auto simp: only_def res_bind_eq_Inr split: if_splits)

lemma only_Inr: "only ty want m = Inr u \<longleftrightarrow> ty = Inr want"
  by (auto simp: only_def res_bind_eq_Inr split: if_splits)

lemma sound_strings:
  assumes "length rs = 2" "\<And>r. r \<in> set rs \<Longrightarrow> sound r TY_STR"
  shows "sound (eval_strings f rs) TY_BOOL"
proof -
  from assms(1) obtain r0 r1 where rs: "rs = [r0, r1]"
    by (auto simp: length_Suc_conv numeral_2_eq_2)
  have "sound (res_bind (res_bind r expect_str) g) TY_BOOL"
    if "sound r TY_STR" "\<And>s. sound (g s) TY_BOOL" for r g
    using that by (cases r) (auto simp: sound_def has_type_STR)
  then show ?thesis using rs assms(2) by (simp add: eval_strings_def arg_at_def)
qed

text \<open>Neither unresolved nor, before the worker phase, a file error.\<close>

definition resolves :: "phase \<Rightarrow> eval_error + val \<Rightarrow> bool" where
  "resolves ph r = (case r of
       Inl (EE_Unresolved _ _) \<Rightarrow> False
     | Inl (EE_HashFiles _) \<Rightarrow> ph = WorkerPhase
     | _ \<Rightarrow> True)"

lemma resolves_simps [simp]: "resolves ph (Inr v)" "resolves ph (Inl (EE_TypeMismatch x y))"
  "resolves ph (Inl EE_Panic)" "\<not> resolves ph (Inl (EE_Unresolved p q))"
  "resolves ph (Inl (EE_HashFiles h)) \<longleftrightarrow> ph = WorkerPhase"
  by (simp_all add: resolves_def)

lemma resolves_bind:
  assumes "resolves ph r" "\<And>v. r = Inr v \<Longrightarrow> resolves ph (f v)"
  shows "resolves ph (res_bind r f)"
  using assms by (cases r) (auto simp: resolves_def split: eval_error.splits)

lemma resolves_bool:
  assumes "resolves ph r" "\<And>b. resolves ph (f b)"
  shows "resolves ph (res_bind r (\<lambda>v. res_bind (expect_bool v) f))"
proof (rule resolves_bind [OF assms(1)])
  fix v show "resolves ph (res_bind (expect_bool v) f)" using assms(2) by (cases v) simp_all
qed

lemma resolves_str:
  assumes "resolves ph r" "\<And>s. resolves ph (f s)"
  shows "resolves ph (res_bind (res_bind r expect_str) f)"
proof (cases r)
  case (Inl e)
  then show ?thesis using assms(1) by (cases e) simp_all
next
  case (Inr v)
  then show ?thesis using assms(2) by (cases v) simp_all
qed

lemma resolves_strings:
  assumes "\<And>r. r \<in> set rs \<Longrightarrow> resolves ph r"
  shows "resolves ph (eval_strings f rs)"
proof -
  have "resolves ph (arg_at rs i)" for i using assms by (simp add: arg_at_def)
  then show ?thesis by (simp add: eval_strings_def resolves_str)
qed

text \<open>
  What the evaluator relies on in a context: a value it returns for a path has the path's type,
  the paths it claims to resolve it resolves, and the status inputs are there from their phase on.
\<close>

locale eval_context =
  fixes ctx :: eval_ctx
    and resolved :: "string list \<Rightarrow> bool"
  assumes lookup_typed: "validate_path p = Inr () \<Longrightarrow> cx_lookup ctx p = L_Value v \<Longrightarrow>
      has_type v (path_type p)"
    and lookup_resolved: "validate_path p = Inr () \<Longrightarrow> resolved p \<Longrightarrow> cx_lookup ctx p \<noteq> L_Unresolved"
    and summary_known: "Schedule \<le> cx_phase ctx \<Longrightarrow> cx_dependency_summary ctx \<noteq> None"
    and cancelled_known: "Dispatch \<le> cx_phase ctx \<Longrightarrow> cx_cancelled ctx \<noteq> None"
begin

lemma eval_sound: "wf_expr e \<Longrightarrow> types e = Inr t \<Longrightarrow> sound (eval ctx e) t"
proof (induction e arbitrary: t rule: types.induct)
  case (1 v)
  then show ?case by (cases v) (auto simp: sound_def has_type_def ty_defs)
next
  case (2 p)
  then show ?case using lookup_typed [of p] by (auto simp: sound_def split: lookup.splits)
next
  case (3 e)
  then have "sound (eval ctx e) TY_BOOL" "t = TY_BOOL" by (auto simp: res_bind_eq_Inr only_Inr)
  then show ?case by (auto intro!: sound_bind_bool)
next
  case (4 op a b)
  show ?case
  proof (cases "op = Op_And \<or> op = Op_Or")
    case True
    with 4 have "sound (eval ctx a) TY_BOOL" "sound (eval ctx b) TY_BOOL" "t = TY_BOOL"
      by (auto simp: res_bind_eq_Inr only_Inr)
    then show ?thesis using True by (auto intro!: sound_bind_bool)
  next
    case False
    with 4(6) obtain ta tb where ta: "types a = Inr ta" and tb: "types b = Inr tb"
      and ok: "\<not> (ta AND NOT TY_NULL \<noteq> 0 \<and> tb AND NOT TY_NULL \<noteq> 0
          \<and> 1 < count_ones ((ta AND NOT TY_NULL) OR (tb AND NOT TY_NULL)))" and t: "t = TY_BOOL"
      by (auto simp: res_bind_eq_Inr Let_def split: if_splits)
    have "sound (eval ctx a) ta" "sound (eval ctx b) tb" using 4 False ta tb by simp_all
    moreover have "sound (eval_compare op l r) t" if "has_type l ta" "has_type r tb" for l r
      using compare_sound [OF ok that] t
      by (auto simp: eval_compare_def)
    ultimately show ?thesis using False by (cases op) (auto intro!: sound_bind)
  qed
next
  case (5 f args)
  show ?case
  proof (cases "f = Contains \<or> f = StartsWith \<or> f = EndsWith")
    case True
    with 5(3) have str: "\<forall>a\<in>set args. types a = Inr TY_STR" and t: "t = TY_BOOL"
      by (auto simp: res_bind_eq_Inr each_only_Inr split: if_splits)
    have "length (map (eval ctx) args) = 2" using 5(2) True by auto
    moreover have "sound r TY_STR" if "r \<in> set (map (eval ctx) args)" for r
      using that 5(1) [OF True] 5(2) str by (auto simp: list_all_iff)
    ultimately have "sound (eval_strings f (map (eval ctx) args)) TY_BOOL" by (rule sound_strings)
    then show ?thesis using t True by (auto simp: sound_def)
  next
    case False
    with 5(3) show ?thesis
      by (cases f) (auto simp: sound_def has_type_BOOL has_type_STR eval_status_def ok_or_def
          res_map_def map_err_def res_bind_def split: option.splits sum.splits)
  qed
qed

lemma eval_resolves:
  "wf_expr e \<Longrightarrow> min_phase e \<le> cx_phase ctx \<Longrightarrow> \<forall>p\<in>expr_paths e. resolved p \<Longrightarrow>
     resolves (cx_phase ctx) (eval ctx e)"
proof (induction e rule: wf_expr.induct)
  case (2 p)
  then show ?case using lookup_resolved [of p] by (auto split: lookup.splits)
next
  case (4 op a b)
  show ?case
  proof (cases "op = Op_And \<or> op = Op_Or")
    case True
    with 4 show ?thesis by (auto intro!: resolves_bool)
  next
    case False
    with 4 show ?thesis by (cases op) (auto intro!: resolves_bind simp: eval_compare_def)
  qed
next
  case (5 f args)
  have phase: "func_min_phase f \<le> cx_phase ctx" "\<And>a. a \<in> set args \<Longrightarrow> min_phase a \<le> cx_phase ctx"
    using 5(3) unfolding min_phase_call by blast+
  have arg: "resolves (cx_phase ctx) (eval ctx a)" if "a \<in> set args" for a
    using 5 phase(2) that by (auto simp: list_all_iff)
  show ?case
  proof (cases "f \<in> {Contains, StartsWith, EndsWith}")
    case True
    then show ?thesis using arg by (auto intro!: resolves_strings simp: less_phase_def)
  next
    case False
    have "cx_phase ctx = WorkerPhase" if "f = HashFiles"
      using phase(1) that by (cases "cx_phase ctx") (simp_all add: less_eq_phase_def)
    moreover have "cx_dependency_summary ctx \<noteq> None" if "f \<in> {Success, Failure, Always}"
      using phase(1) that summary_known by auto
    moreover have "cx_cancelled ctx \<noteq> None" if "f \<in> {Success, Failure, Always, Cancelled}"
      using phase(1) that cancelled_known order_trans [of Dispatch Schedule "cx_phase ctx"]
      by (auto simp: less_eq_phase_def)
    ultimately show ?thesis using False phase(1)
      by (cases f; cases "cx_hash_files ctx (hash_patterns args)")
        (auto simp: eval_status_def ok_or_def res_map_def not_less)
  qed
qed (auto intro!: resolves_bool)

lemma condition_decides:
  assumes "wf_expr e" "check_condition e = Inr ()" "min_phase e \<le> cx_phase ctx"
    "\<forall>p\<in>expr_paths e. resolved p"
  shows "(\<exists>b. eval ctx e = Inr (V_Bool b)) \<or>
    cx_phase ctx = WorkerPhase \<and> (\<exists>h. eval ctx e = Inl (EE_HashFiles h))"
proof -
  have "types e = Inr TY_BOOL"
    using assms(2) by (auto simp: check_condition_def res_bind_eq_Inr split: if_splits)
  then have "sound (eval ctx e) TY_BOOL" using eval_sound assms(1) by blast
  moreover have "resolves (cx_phase ctx) (eval ctx e)" using eval_resolves assms by blast
  ultimately show ?thesis
    by (cases "eval ctx e"; cases "projl (eval ctx e)") (auto simp: sound_def has_type_BOOL)
qed

end

end
