(* ===== verification/Expr_Template.thy ===== *)
theory Expr_Template
  imports Expr_Eval
begin

text \<open>
  Templates (\<open>crates/sentinel-pipeline/src/expr.rs\<close>): text with embedded expressions between
  \<open>${{\<close> and \<open>}}\<close>, as used for the values of variables and concurrency groups.
\<close>

subsection \<open>Model\<close>

datatype part = P_Lit string | P_Expr expr

record template =
  tpl_parts :: "part list"

text \<open>
  The loop of \<open>Template::parse\<close>: \<open>rest\<close> is the unread text, \<open>offset\<close> its position in the source,
  \<open>parts\<close> what was read.
\<close>

lemma find_sub_nonempty: "find_sub p s = Some i \<Longrightarrow> p \<noteq> [] \<Longrightarrow> s \<noteq> []"
  by (cases s) auto

function template_from :: "nat \<Rightarrow> string \<Rightarrow> part list \<Rightarrow> parse_error + part list" where
  "template_from offset rest parts =
     (case find_sub ''${{'' rest of
        Some start \<Rightarrow>
          let parts' = (if 0 < start then parts @ [P_Lit (take start rest)] else parts);
              after = drop (start + 3) rest
          in (case find_sub ''}}'' after of
                None \<Rightarrow> Inl (perr (offset + start) ''unterminated `${{`'')
              | Some en \<Rightarrow>
                  (case parse_expr (take en after) of
                     Inl e \<Rightarrow> Inl (perr (offset + start + 3 + pe_at e) (pe_message e))
                   | Inr ex \<Rightarrow>
                       template_from (offset + (start + 3 + en + 2)) (drop (start + 3 + en + 2) rest)
                         (parts' @ [P_Expr ex])))
      | None \<Rightarrow>
          if find_sub ''}}'' rest \<noteq> None then Inl (perr offset ''`}}` without `${{`'')
          else if rest \<noteq> [] then Inr (parts @ [P_Lit rest])
          else Inr parts)"
  by auto
termination
  by (relation "measure (\<lambda>(_, rest, _). length rest)") (auto dest: find_sub_nonempty)

definition template_parse :: "string \<Rightarrow> parse_error + template" where
  "template_parse src = res_map (\<lambda>ps. \<lparr>tpl_parts = ps\<rparr>) (template_from 0 src [])"

fun part_display :: "part \<Rightarrow> string" where
  "part_display (P_Lit s) = s"
| "part_display (P_Expr e) = ''${{ '' @ display_expr e @ '' }}''"

definition template_display :: "template \<Rightarrow> string" where
  "template_display t = concat (map part_display (tpl_parts t))"

fun part_is_lit :: "part \<Rightarrow> bool" where
  "part_is_lit (P_Lit _) = True"
| "part_is_lit (P_Expr _) = False"

definition template_is_literal :: "template \<Rightarrow> bool" where
  "template_is_literal t = list_all part_is_lit (tpl_parts t)"

fun part_phase :: "part \<Rightarrow> phase" where
  "part_phase (P_Lit _) = Compile"
| "part_phase (P_Expr e) = min_phase e"

definition template_min_phase :: "template \<Rightarrow> phase" where
  "template_min_phase t = fold (\<lambda>p acc. max acc p) (map part_phase (tpl_parts t)) Compile"

fun part_needs :: "part \<Rightarrow> string list \<Rightarrow> string list" where
  "part_needs (P_Lit _) out = out"
| "part_needs (P_Expr e) out = referenced_needs e out"

definition template_referenced_needs :: "template \<Rightarrow> string list \<Rightarrow> string list" where
  "template_referenced_needs t out = fold part_needs (tpl_parts t) out"

fun val_piece :: "val \<Rightarrow> eval_error + string" where
  "val_piece (V_Str s) = Inr s"
| "val_piece (V_Int i) = Inr (dec_int i)"
| "val_piece (V_Bool b) = Inr (bool_str b)"
| "val_piece V_Null = Inl (EE_TypeMismatch ''string, integer or boolean'' ''null'')"

fun part_piece :: "eval_ctx \<Rightarrow> part \<Rightarrow> eval_error + string" where
  "part_piece ctx (P_Lit s) = Inr s"
| "part_piece ctx (P_Expr e) = res_bind (eval ctx e) val_piece"

fun render_parts :: "eval_ctx \<Rightarrow> nat \<Rightarrow> part list \<Rightarrow> string \<Rightarrow> eval_error + string" where
  "render_parts ctx max_bytes [] out = Inr out"
| "render_parts ctx max_bytes (p # ps) out =
     res_bind (part_piece ctx p) (\<lambda>piece.
       let out' = out @ piece in
       if max_bytes < length out' then
         Inl (EE_TypeMismatch ''rendered value within limit'' ''longer output'')
       else render_parts ctx max_bytes ps out')"

definition render :: "eval_ctx \<Rightarrow> nat \<Rightarrow> template \<Rightarrow> eval_error + string" where
  "render ctx max_bytes t = render_parts ctx max_bytes (tpl_parts t) []"

subsection \<open>Lemmas\<close>

declare template_from.simps [simp del]

lemma template_from_literal:
  "template_from offset rest parts = Inr ps \<Longrightarrow> list_all part_is_lit ps \<Longrightarrow>
     ps = parts @ (if rest = [] then [] else [P_Lit rest])"
proof (induction offset rest parts arbitrary: ps rule: template_from.induct)
  case (1 offset rest parts)
  show ?case
  proof (cases "find_sub ''${{'' rest")
    case None
    with 1(2) show ?thesis by (subst (asm) template_from.simps) (auto split: if_splits)
  next
    case (Some start)
    let ?after = "drop (start + 3) rest"
    let ?parts = "if 0 < start then parts @ [P_Lit (take start rest)] else parts"
    from 1(2) Some obtain en ex where en: "find_sub ''}}'' ?after = Some en"
      and ex: "parse_expr (take en ?after) = Inr ex"
      and rec: "template_from (offset + (start + 3 + en + 2)) (drop (start + 3 + en + 2) rest)
          (?parts @ [P_Expr ex]) = Inr ps"
      by (subst (asm) template_from.simps) (auto simp: Let_def split: option.splits sum.splits)
    from 1(1) [OF Some refl refl en ex rec 1(3)] have "P_Expr ex \<in> set ps" by auto
    then show ?thesis using 1(3) by (auto simp: list_all_iff)
  qed
qed

lemma render_parts_iff:
  "render_parts ctx mx ps out = Inr r \<longleftrightarrow>
     (\<exists>pieces. list_all2 (\<lambda>p piece. part_piece ctx p = Inr piece) ps pieces
        \<and> r = out @ concat pieces \<and> (ps = [] \<or> length r \<le> mx))"
proof (induction ps arbitrary: out)
  case (Cons p ps)
  show ?case
  proof (cases "part_piece ctx p")
    case (Inr piece)
    have "render_parts ctx mx (p # ps) out = Inr r \<longleftrightarrow>
        length (out @ piece) \<le> mx \<and> render_parts ctx mx ps (out @ piece) = Inr r"
      using Inr by (auto simp: Let_def)
    also have "\<dots> \<longleftrightarrow> (\<exists>pieces. list_all2 (\<lambda>p piece. part_piece ctx p = Inr piece) ps pieces
        \<and> r = out @ piece @ concat pieces \<and> length r \<le> mx)"
      unfolding Cons.IH by (auto dest: list_all2_lengthD)
    finally show ?thesis using Inr by (force simp: list_all2_Cons1)
  qed (auto simp: list_all2_Cons1)
qed auto

text \<open>The text of a part in the source, and what it becomes.\<close>

definition part_source :: "part \<Rightarrow> string \<Rightarrow> bool" where
  "part_source p s \<longleftrightarrow>
     (case p of
        P_Lit l \<Rightarrow> s = l \<and> l \<noteq> [] \<and> \<not> sublist ''${{'' l
      | P_Expr e \<Rightarrow> \<exists>inner. s = ''${{'' @ inner @ ''}}'' \<and> \<not> sublist ''}}'' inner \<and> parse_expr inner = Inr e)"

definition part_text :: "eval_ctx \<Rightarrow> part \<Rightarrow> string \<Rightarrow> bool" where
  "part_text ctx p s \<longleftrightarrow>
     (case p of
        P_Lit l \<Rightarrow> s = l
      | P_Expr e \<Rightarrow> eval ctx e = Inr (V_Str s) \<or> (\<exists>i. eval ctx e = Inr (V_Int i) \<and> s = dec_int i)
          \<or> eval ctx e = Inr (V_Bool True) \<and> s = ''true'' \<or> eval ctx e = Inr (V_Bool False) \<and> s = ''false'')"

lemma part_piece_text: "part_piece ctx p = Inr s \<longleftrightarrow> part_text ctx p s"
proof (cases p)
  case (P_Expr e)
  have v: "val_piece v = Inr s \<longleftrightarrow> v = V_Str s \<or> (\<exists>i. v = V_Int i \<and> s = dec_int i)
      \<or> v = V_Bool True \<and> s = ''true'' \<or> v = V_Bool False \<and> s = ''false''" for v
  proof (cases v)
    case (V_Bool b)
    then show ?thesis by (cases b) auto
  qed auto
  show ?thesis
    using P_Expr by (cases "eval ctx e") (simp_all add: part_text_def v)
qed (auto simp: part_text_def)

lemma take_find_sub:
  assumes "find_sub p s = Some i" "p \<noteq> []"
  shows "\<not> sublist p (take i s)"
proof
  assume "sublist p (take i s)"
  then obtain a b where "take i s = a @ p @ b" by (auto simp: sublist_def)
  then have s: "s = a @ p @ b @ drop i s" by (metis append_assoc append_take_drop_id)
  have "length (a @ p @ b) \<le> i" unfolding \<open>take i s = a @ p @ b\<close> [symmetric] by simp
  then have "length a < i" using assms(2) by (cases p) auto
  moreover have "prefix p (drop (length a) s)" by (subst s) simp
  ultimately show False using find_sub_first [OF assms(1)] by blast
qed

lemma find_sub_split:
  assumes "find_sub p s = Some i"
  shows "s = take i s @ p @ drop (i + length p) s"
  using find_sub_Some [OF assms] by (auto simp: prefix_def) (metis append_take_drop_id append_eq_conv_conj drop_drop add.commute)

lemma template_from_source:
  "template_from offset rest parts = Inr ps \<Longrightarrow>
     \<exists>new srcs. ps = parts @ new \<and> rest = concat srcs \<and> list_all2 part_source new srcs"
proof (induction offset rest parts arbitrary: ps rule: template_from.induct)
  case (1 offset rest parts)
  show ?case
  proof (cases "find_sub ''${{'' rest")
    case None
    then have "ps = parts @ (if rest = [] then [] else [P_Lit rest])"
      using 1(2) by (subst (asm) template_from.simps) (auto split: if_splits)
    then show ?thesis
      using None by (intro exI [of _ "if rest = [] then [] else [P_Lit rest]"] exI [of _ "if rest = [] then [] else [rest]"])
        (auto simp: part_source_def find_sub_None)
  next
    case (Some start)
    let ?after = "drop (start + 3) rest"
    let ?lit = "if 0 < start then [P_Lit (take start rest)] else []"
    let ?parts = "if 0 < start then parts @ [P_Lit (take start rest)] else parts"
    from 1(2) Some obtain en ex where en: "find_sub ''}}'' ?after = Some en"
      and ex: "parse_expr (take en ?after) = Inr ex"
      and rec: "template_from (offset + (start + 3 + en + 2)) (drop (start + 3 + en + 2) rest)
          (?parts @ [P_Expr ex]) = Inr ps"
      by (subst (asm) template_from.simps) (auto simp: Let_def split: option.splits sum.splits)
    from 1(1) [OF Some refl refl en ex rec] obtain new srcs where ih: "ps = (?parts @ [P_Expr ex]) @ new"
        "drop (start + 3 + en + 2) rest = concat srcs" "list_all2 part_source new srcs" by blast
    have rest: "rest = take start rest @ ''${{'' @ take en ?after @ ''}}'' @ concat srcs"
    proof -
      have "rest = take start rest @ ''${{'' @ ?after" using find_sub_split [OF Some] by (simp add: numeral_3_eq_3)
      moreover have "?after = take en ?after @ ''}}'' @ concat srcs"
        using find_sub_split [OF en] ih(2) by (simp add: add.commute add.left_commute)
      ultimately show ?thesis by simp
    qed
    have "part_source (P_Expr ex) (''${{'' @ take en ?after @ ''}}'')"
      using ex take_find_sub [OF en] by (auto simp: part_source_def)
    moreover have "0 < start \<Longrightarrow> part_source (P_Lit (take start rest)) (take start rest)"
      using take_find_sub [OF Some] Some find_sub_nonempty [OF Some] by (simp add: part_source_def)
    ultimately have "list_all2 part_source (?lit @ P_Expr ex # new)
        ((if 0 < start then [take start rest] else []) @ (''${{'' @ take en ?after @ ''}}'') # srcs)"
      using ih(3) by (intro list_all2_appendI) simp_all
    moreover have "rest = concat ((if 0 < start then [take start rest] else []) @ (''${{'' @ take en ?after @ ''}}'') # srcs)"
      using rest by (cases "start = 0") simp_all
    moreover have "ps = parts @ (?lit @ P_Expr ex # new)" using ih(1) by simp
    ultimately show ?thesis by blast
  qed
qed

subsection \<open>Properties\<close>

text \<open>
  C31: rendering substitutes.  The source of a parsed template is, in order, the texts of its parts: a
  literal, which contains no opening mark, or an expression between the marks.  The template
  renders to a text exactly when each expression evaluates to a string, an integer or a
  boolean, and the text is within the limit; the text is then the source with every expression replaced by the
  string, the decimal digits or \<open>true\<close> or \<open>false\<close>.  A part that evaluates to null, fails, or exceeds the limit
  renders nothing.
\<close>

theorem parsed_template_substitutes:
  assumes "template_parse src = Inr t"
  shows "(\<exists>srcs. src = concat srcs \<and> list_all2 part_source (tpl_parts t) srcs)
    \<and> (render ctx max_bytes t = Inr r \<longleftrightarrow>
         (\<exists>texts. list_all2 (part_text ctx) (tpl_parts t) texts \<and> r = concat texts \<and> length r \<le> max_bytes))"
proof
  show "\<exists>srcs. src = concat srcs \<and> list_all2 part_source (tpl_parts t) srcs"
    using assms template_from_source [of 0 src "[]"] by (auto simp: template_parse_def res_map_eq_Inr)
  show "render ctx max_bytes t = Inr r \<longleftrightarrow>
         (\<exists>texts. list_all2 (part_text ctx) (tpl_parts t) texts \<and> r = concat texts \<and> length r \<le> max_bytes)"
    unfolding render_def render_parts_iff part_piece_text by (auto simp: list_all2_Nil)
qed

theorem parsed_template_substitutes_witness:
  "\<exists>t. template_parse ''v${{ true }}'' = Inr t
     \<and> (\<forall>ctx. render ctx 5 t = Inr ''vtrue'' \<and> (\<forall>r. render ctx 4 t \<noteq> Inr r))"
proof -
  have p: "template_parse ''v${{ true }}'' = Inr \<lparr>tpl_parts = [P_Lit ''v'', P_Expr (E_Lit (V_Bool True))]\<rparr>"
  proof -
    have e: "parse_expr '' true '' = Inr (E_Lit (V_Bool True))" by code_simp
    have "template_from 12 [] [P_Lit ''v'', P_Expr (E_Lit (V_Bool True))] = Inr [P_Lit ''v'', P_Expr (E_Lit (V_Bool True))]"
      by (subst template_from.simps) simp
    then have "template_from 0 ''v${{ true }}'' [] = Inr [P_Lit ''v'', P_Expr (E_Lit (V_Bool True))]"
      using e by (subst template_from.simps) simp
    then show ?thesis by (simp add: template_parse_def)
  qed
  show ?thesis
    using parsed_template_substitutes [OF p] p
    by (auto simp: list_all2_Cons1 part_text_def)
qed

text \<open>
  Text without expressions is taken literally. A template that parses to literal parts only
  needs no phase and renders, in every context whose limit admits it, to its own source.
\<close>

theorem literal_template_renders_itself:
  assumes "template_parse src = Inr t" and "template_is_literal t" and "length src \<le> max_bytes"
  shows "render ctx max_bytes t = Inr src \<and> template_min_phase t = Compile"
proof -
  have "tpl_parts t = (if src = [] then [] else [P_Lit src])"
    using assms(1,2) template_from_literal [of 0 src "[]"]
    by (auto simp: template_parse_def res_map_eq_Inr template_is_literal_def)
  then show ?thesis using assms(3) by (simp add: render_def template_min_phase_def)
qed

theorem literal_template_renders_itself_witness:
  "\<forall>ctx. render ctx 20 \<lparr>tpl_parts = [P_Lit ''release build'']\<rparr> = Inr ''release build''
   \<and> template_min_phase \<lparr>tpl_parts = [P_Lit ''release build'']\<rparr> = Compile"
proof
  fix ctx
  show "render ctx 20 \<lparr>tpl_parts = [P_Lit ''release build'']\<rparr> = Inr ''release build''
      \<and> template_min_phase \<lparr>tpl_parts = [P_Lit ''release build'']\<rparr> = Compile"
    by (rule literal_template_renders_itself) code_simp+
qed

end
