(* ===== verification/Expr_Contexts.thy ===== *)
theory Expr_Contexts
  imports Expr_Template Core_State
begin

text \<open>
  The three contexts in which the program evaluates expressions: a run's, when it is created
  (\<open>RunContext\<close> in \<open>crates/sentinel-store/src/runs.rs\<close>), a blocked job's, when the scheduler decides
  it (\<open>ScheduleContext\<close> in \<open>crates/sentinel-store/src/dispatch.rs\<close>), and a running job's on the
  worker (\<open>WorkerContext\<close> in \<open>crates/sentinel-worker/src/context.rs\<close>).  Each is an instance of the
  evaluator's context contract.  Identifiers appear as the text their \<open>Display\<close> prints, and
  \<open>hash_files\<close> on the worker, which reads the file system, is a parameter.
\<close>

subsection \<open>Events\<close>

record event_facts =
  ev_name :: string
  ev_ref_name :: string
  ev_base_ref :: "string option"
  ev_pr_number :: "u64 option"
  ev_key :: string

text \<open>\<open>Some\<close> is a string or an integer (\<open>number as i64\<close>), \<open>None\<close> is null.\<close>

definition opt_str_val :: "string option \<Rightarrow> val" where
  "opt_str_val x = (case x of Some s \<Rightarrow> V_Str s | None \<Rightarrow> V_Null)"

definition opt_num_val :: "u64 option \<Rightarrow> val" where
  "opt_num_val x = (case x of Some n \<Rightarrow> V_Int (sint n) | None \<Rightarrow> V_Null)"

subsection \<open>Creating a run\<close>

record run_context =
  rc_repo :: string
  rc_repo_name :: string
  rc_run :: string
  rc_sha :: string
  rc_event :: "event_facts option"

definition run_lookup :: "run_context \<Rightarrow> string list \<Rightarrow> lookup" where
  "run_lookup self path =
     (if path = [''event'', ''sha''] then L_Value (V_Str (rc_sha self))
      else if length path = 2 \<and> hd path = ''event'' then
        (case rc_event self of
           None \<Rightarrow> L_Unresolved
         | Some ev \<Rightarrow>
             if path ! 1 = ''name'' then L_Value (V_Str (ev_name ev))
             else if path ! 1 = ''ref'' then L_Value (V_Str (ev_ref_name ev))
             else if path ! 1 = ''key'' then L_Value (V_Str (ev_key ev))
             else if path ! 1 = ''base_ref'' then L_Value (opt_str_val (ev_base_ref ev))
             else if path ! 1 = ''pr_number'' then L_Value (opt_num_val (ev_pr_number ev))
             else L_Unresolved)
      else if path = [''repo'', ''id''] then L_Value (V_Str (rc_repo self))
      else if path = [''repo'', ''name''] then L_Value (V_Str (rc_repo_name self))
      else if path = [''run'', ''id''] then L_Value (V_Str (rc_run self))
      else L_Unresolved)"

definition run_ctx :: "run_context \<Rightarrow> eval_ctx" where
  "run_ctx self =
     \<lparr>cx_phase = Dispatch, cx_lookup = run_lookup self, cx_dependency_summary = None,
      cx_cancelled = Some False, cx_hash_files = (\<lambda>_. Inl UnsupportedPlatform)\<rparr>"

subsection \<open>Scheduling a blocked job\<close>

record run_facts =
  fa_repo :: string
  fa_repo_name :: string
  fa_cancelled :: bool
  fa_event :: event_facts

record schedule_context =
  sx_facts :: run_facts
  sx_sha :: string
  sx_run :: string
  sx_job :: string
  sx_job_name :: string
  sx_summary :: dependency_summary
  sx_results :: "(string \<times> outcome) list"

text \<open>\<open>results.iter().find(|(n, _)| n == name)\<close>.\<close>

definition find_result :: "(string \<times> outcome) list \<Rightarrow> string \<Rightarrow> outcome option" where
  "find_result results name = map_option snd (find (\<lambda>(n, _). n = name) results)"

definition needs_lookup :: "(string \<times> outcome) list \<Rightarrow> string list \<Rightarrow> lookup" where
  "needs_lookup results path =
     (if length path = 3 \<and> hd path = ''needs'' \<and> path ! 2 = ''result'' then
        (case find_result results (path ! 1) of
           Some out \<Rightarrow> L_Value (V_Str (outcome_as_str out))
         | None \<Rightarrow> L_Unresolved)
      else L_Unresolved)"

definition schedule_lookup :: "schedule_context \<Rightarrow> string list \<Rightarrow> lookup" where
  "schedule_lookup self path =
     (let ev = fa_event (sx_facts self) in
      if path = [''event'', ''sha''] then L_Value (V_Str (sx_sha self))
      else if path = [''event'', ''name''] then L_Value (V_Str (ev_name ev))
      else if path = [''event'', ''ref''] then L_Value (V_Str (ev_ref_name ev))
      else if path = [''event'', ''key''] then L_Value (V_Str (ev_key ev))
      else if path = [''event'', ''base_ref''] then L_Value (opt_str_val (ev_base_ref ev))
      else if path = [''event'', ''pr_number''] then L_Value (opt_num_val (ev_pr_number ev))
      else if path = [''repo'', ''id''] then L_Value (V_Str (fa_repo (sx_facts self)))
      else if path = [''repo'', ''name''] then L_Value (V_Str (fa_repo_name (sx_facts self)))
      else if path = [''run'', ''id''] then L_Value (V_Str (sx_run self))
      else if path = [''job'', ''id''] then L_Value (V_Str (sx_job self))
      else if path = [''job'', ''name''] then L_Value (V_Str (sx_job_name self))
      else needs_lookup (sx_results self) path)"

definition schedule_ctx :: "schedule_context \<Rightarrow> eval_ctx" where
  "schedule_ctx self =
     \<lparr>cx_phase = Schedule, cx_lookup = schedule_lookup self,
      cx_dependency_summary = Some (sx_summary self),
      cx_cancelled = Some (fa_cancelled (sx_facts self)),
      cx_hash_files = (\<lambda>_. Inl UnsupportedPlatform)\<rparr>"

subsection \<open>Running a job\<close>

record job_context =
  jx_run :: string
  jx_repo :: string
  jx_repo_name :: string
  jx_job :: string
  jx_job_name :: string
  jx_sha :: string
  jx_event :: event_facts
  jx_cancelled :: bool
  jx_needs :: "(string \<times> outcome) list"

definition worker_lookup :: "job_context \<Rightarrow> string list \<Rightarrow> lookup" where
  "worker_lookup self path =
     (let ev = jx_event self in
      if path = [''event'', ''sha''] then L_Value (V_Str (jx_sha self))
      else if path = [''event'', ''name''] then L_Value (V_Str (ev_name ev))
      else if path = [''event'', ''ref''] then L_Value (V_Str (ev_ref_name ev))
      else if path = [''event'', ''key''] then L_Value (V_Str (ev_key ev))
      else if path = [''event'', ''base_ref''] then L_Value (opt_str_val (ev_base_ref ev))
      else if path = [''event'', ''pr_number''] then L_Value (opt_num_val (ev_pr_number ev))
      else if length path = 2 \<and> hd path = ''event'' then L_Unresolved
      else if path = [''repo'', ''id''] then L_Value (V_Str (jx_repo self))
      else if path = [''repo'', ''name''] then L_Value (V_Str (jx_repo_name self))
      else if path = [''run'', ''id''] then L_Value (V_Str (jx_run self))
      else if path = [''job'', ''id''] then L_Value (V_Str (jx_job self))
      else if path = [''job'', ''name''] then L_Value (V_Str (jx_job_name self))
      else needs_lookup (jx_needs self) path)"

definition worker_summary :: "job_context \<Rightarrow> dependency_summary" where
  "worker_summary self =
     \<lparr>all_succeeded = list_all (\<lambda>(_, out). is_success out) (jx_needs self),
      any_failed = list_ex (\<lambda>(_, out). \<not> is_success out) (jx_needs self)\<rparr>"

definition worker_ctx ::
    "(string list \<Rightarrow> hash_files_error + string) \<Rightarrow> job_context \<Rightarrow> eval_ctx" where
  "worker_ctx hash_files self =
     \<lparr>cx_phase = WorkerPhase, cx_lookup = worker_lookup self,
      cx_dependency_summary = Some (worker_summary self),
      cx_cancelled = Some (jx_cancelled self), cx_hash_files = hash_files\<rparr>"

subsection \<open>Valid paths\<close>

definition fixed_paths :: "string list list" where
  "fixed_paths =
     [[''event'', ''name''], [''event'', ''ref''], [''event'', ''base_ref''], [''event'', ''sha''],
      [''event'', ''key''], [''event'', ''pr_number''], [''repo'', ''id''], [''repo'', ''name''],
      [''run'', ''id''], [''job'', ''id''], [''job'', ''name'']]"

lemma validate_path_cases:
  assumes "validate_path p = Inr ()"
  obtains (fixed) "p \<in> set fixed_paths" | (needs) j where "p = [''needs'', j, ''result'']"
proof -
  have "\<exists>a b. p = [a, b] \<or> (\<exists>c. p = [a, b, c])"
  proof -
    have "length p = 2 \<or> length p = 3"
      using assms by (simp add: validate_path_def path_seg_def Let_def split: if_splits)
    then show ?thesis by (auto simp: length_Suc_conv numeral_2_eq_2 numeral_3_eq_3)
  qed
  then obtain a b where "p = [a, b] \<or> (\<exists>c. p = [a, b, c])" by blast
  then show thesis
  proof (elim disjE exE)
    assume p: "p = [a, b]"
    with assms have "p \<in> set fixed_paths"
      by (simp add: validate_path_def path_seg_def fixed_paths_def Let_def split: if_splits)
    then show thesis by (rule fixed)
  next
    fix c assume p: "p = [a, b, c]"
    with assms have "p = [''needs'', b, ''result'']"
      by (simp add: validate_path_def path_seg_def Let_def split: if_splits)
    then show thesis by (rule needs)
  qed
qed

lemma has_type_simps:
  "has_type (V_Str s) TY_STR" "has_type (V_Str s) (TY_STR OR TY_NULL)" "has_type V_Null (TY_STR OR TY_NULL)"
  "has_type (V_Int i) (TY_INT OR TY_NULL)" "has_type V_Null (TY_INT OR TY_NULL)"
  by (simp_all add: has_type_def ty_defs)

lemma opt_val_typed:
  "has_type (opt_str_val x) (TY_STR OR TY_NULL)" "has_type (opt_num_val y) (TY_INT OR TY_NULL)"
  by (simp_all add: opt_str_val_def opt_num_val_def has_type_simps split: option.splits)

lemma needs_lookup_typed: "needs_lookup results p = L_Value v \<Longrightarrow> has_type v TY_STR"
  by (auto simp: needs_lookup_def has_type_simps split: if_splits option.splits)

lemma find_result_Some: "find_result results j \<noteq> None \<longleftrightarrow> j \<in> fst ` set results"
  by (induction results) (auto simp: find_result_def)

text \<open>A path that names a job's result resolves when the job is among those the context has.\<close>

definition needs_in :: "(string \<times> outcome) list \<Rightarrow> string list \<Rightarrow> bool" where
  "needs_in results p \<longleftrightarrow> (path_root p = ''needs'' \<longrightarrow> path_job p \<in> fst ` set results)"

lemma schedule_lookup_fixed:
  assumes "p \<in> set fixed_paths"
  shows "\<exists>v. schedule_lookup self p = L_Value v \<and> has_type v (path_type p)"
proof -
  have "list_all (\<lambda>p. \<exists>v. schedule_lookup self p = L_Value v \<and> has_type v (path_type p)) fixed_paths"
    by (simp add: fixed_paths_def schedule_lookup_def path_type_def has_type_simps opt_val_typed)
  then show ?thesis using assms by (simp only: list_all_iff)
qed

lemma schedule_lookup_needs:
  "schedule_lookup self [''needs'', j, ''result''] = needs_lookup (sx_results self) [''needs'', j, ''result'']"
  by (simp add: schedule_lookup_def)

lemma worker_lookup_fixed:
  assumes "p \<in> set fixed_paths"
  shows "\<exists>v. worker_lookup self p = L_Value v \<and> has_type v (path_type p)"
proof -
  have "list_all (\<lambda>p. \<exists>v. worker_lookup self p = L_Value v \<and> has_type v (path_type p)) fixed_paths"
    by (simp add: fixed_paths_def worker_lookup_def path_type_def has_type_simps opt_val_typed)
  then show ?thesis using assms by (simp only: list_all_iff)
qed

lemma worker_lookup_needs:
  "worker_lookup self [''needs'', j, ''result''] = needs_lookup (jx_needs self) [''needs'', j, ''result'']"
  by (simp add: worker_lookup_def)

lemma needs_lookup_resolves:
  "j \<in> fst ` set results \<Longrightarrow> needs_lookup results [''needs'', j, ''result''] \<noteq> L_Unresolved"
  using find_result_Some [of results j] by (auto simp: needs_lookup_def)

lemma path_type_needs: "path_type [''needs'', j, ''result''] = TY_STR"
  by (simp add: path_type_def)

interpretation sched: eval_context "schedule_ctx self" "needs_in (sx_results self)" for self
proof
  fix p v assume valid: "validate_path p = Inr ()" and v: "cx_lookup (schedule_ctx self) p = L_Value v"
  from valid show "has_type v (path_type p)"
  proof (cases rule: validate_path_cases)
    case fixed
    with schedule_lookup_fixed [of p self] v show ?thesis by (auto simp: schedule_ctx_def)
  next
    case (needs j)
    with v show ?thesis
      by (simp add: schedule_ctx_def schedule_lookup_needs path_type_needs needs_lookup_typed)
  qed
next
  fix p assume valid: "validate_path p = Inr ()" and "needs_in (sx_results self) p"
  from valid this show "cx_lookup (schedule_ctx self) p \<noteq> L_Unresolved"
  proof (cases rule: validate_path_cases)
    case fixed
    with schedule_lookup_fixed [of p self] show ?thesis by (auto simp: schedule_ctx_def)
  next
    case (needs j)
    with \<open>needs_in _ p\<close> show ?thesis
      by (simp add: schedule_ctx_def schedule_lookup_needs needs_in_def needs_lookup_resolves)
  qed
qed (simp_all add: schedule_ctx_def)

interpretation work: eval_context "worker_ctx hash_files self" "needs_in (jx_needs self)" for hash_files self
proof
  fix p v assume valid: "validate_path p = Inr ()" and v: "cx_lookup (worker_ctx hash_files self) p = L_Value v"
  from valid show "has_type v (path_type p)"
  proof (cases rule: validate_path_cases)
    case fixed
    with worker_lookup_fixed [of p self] v show ?thesis by (auto simp: worker_ctx_def)
  next
    case (needs j)
    with v show ?thesis
      by (simp add: worker_ctx_def worker_lookup_needs path_type_needs needs_lookup_typed)
  qed
next
  fix p assume valid: "validate_path p = Inr ()" and "needs_in (jx_needs self) p"
  from valid this show "cx_lookup (worker_ctx hash_files self) p \<noteq> L_Unresolved"
  proof (cases rule: validate_path_cases)
    case fixed
    with worker_lookup_fixed [of p self] show ?thesis by (auto simp: worker_ctx_def)
  next
    case (needs j)
    with \<open>needs_in _ p\<close> show ?thesis
      by (simp add: worker_ctx_def worker_lookup_needs needs_in_def needs_lookup_resolves)
  qed
qed (simp_all add: worker_ctx_def)

lemma run_lookup_fixed:
  assumes "p \<in> set fixed_paths"
  shows "case run_lookup self p of L_Value v \<Rightarrow> has_type v (path_type p)
    | L_Unresolved \<Rightarrow> rc_event self = None \<or> path_root p = ''job''"
proof -
  have "list_all (\<lambda>p. case run_lookup self p of L_Value v \<Rightarrow> has_type v (path_type p)
      | L_Unresolved \<Rightarrow> rc_event self = None \<or> path_root p = ''job'') fixed_paths"
    by (cases "rc_event self")
      (simp_all add: fixed_paths_def run_lookup_def path_type_def has_type_simps opt_val_typed)
  then show ?thesis using assms by (simp only: list_all_iff)
qed

interpretation runc: eval_context "run_ctx self"
  "\<lambda>p. rc_event self \<noteq> None \<and> path_root p \<noteq> ''job'' \<and> path_root p \<noteq> ''needs''" for self
proof
  fix p v assume valid: "validate_path p = Inr ()" and v: "cx_lookup (run_ctx self) p = L_Value v"
  from valid show "has_type v (path_type p)"
  proof (cases rule: validate_path_cases)
    case fixed
    with run_lookup_fixed [of p self] v show ?thesis by (auto simp: run_ctx_def)
  next
    case (needs j)
    with v show ?thesis by (simp add: run_ctx_def run_lookup_def)
  qed
next
  fix p assume valid: "validate_path p = Inr ()"
    and known: "rc_event self \<noteq> None \<and> path_root p \<noteq> ''job'' \<and> path_root p \<noteq> ''needs''"
  from valid show "cx_lookup (run_ctx self) p \<noteq> L_Unresolved"
  proof (cases rule: validate_path_cases)
    case fixed
    with run_lookup_fixed [of p self] known show ?thesis by (auto simp: run_ctx_def split: lookup.splits)
  next
    case (needs j)
    with known show ?thesis by simp
  qed
qed (simp_all add: run_ctx_def less_eq_phase_def)

lemma paths_in_results:
  assumes "set (referenced_needs e []) \<subseteq> fst ` set results"
  shows "\<forall>p\<in>expr_paths e. needs_in results p"
  using assms by (auto simp: set_referenced_needs needs_jobs_def needs_in_def)

subsection \<open>Properties\<close>

text \<open>
  C3: a condition that passed the checks always decides. Any text that parses, type-checks as a
  condition, needs no later phase than scheduling and names only results the scheduler has,
  evaluates to a boolean in every scheduling context: it cannot fail for a type, for an unknown
  value, or by an index out of range.
\<close>

theorem checked_condition_decides:
  assumes "parse_expr src = Inr e" and "check_condition e = Inr ()" and "min_phase e \<le> Schedule"
    and "set (referenced_needs e []) \<subseteq> fst ` set (sx_results self)"
  shows "\<exists>b. eval (schedule_ctx self) e = Inr (V_Bool b)"
  using sched.condition_decides [OF parse_expr_wf [OF assms(1)] assms(2) _ paths_in_results [OF assms(4)]]
    assms(3) by (simp add: schedule_ctx_def)

theorem checked_condition_decides_witness:
  "\<exists>b. eval (schedule_ctx \<lparr>sx_facts = \<lparr>fa_repo = ''r'', fa_repo_name = ''app'', fa_cancelled = False,
        fa_event = \<lparr>ev_name = ''push'', ev_ref_name = ''refs/heads/main'', ev_base_ref = None,
          ev_pr_number = None, ev_key = ''main''\<rparr>\<rparr>,
      sx_sha = ''abc'', sx_run = ''run'', sx_job = ''job'', sx_job_name = ''deploy'',
      sx_summary = \<lparr>all_succeeded = True, any_failed = False\<rparr>, sx_results = [(''build'', Passed)]\<rparr>)
    (E_Bin Op_And (E_Call Success [])
       (E_Bin Op_Eq (E_Path [''needs'', ''build'', ''result'']) (E_Path [''event'', ''name'']))) = Inr (V_Bool b)"
  by (rule checked_condition_decides [of "''success() && needs.build.result == event.name''"]) code_simp+

text \<open>
  On the worker a checked condition decides or reports a file error. There \<open>hash_files\<close> reads
  the workspace, and its error is the only one left.
\<close>

theorem checked_condition_on_worker:
  assumes "parse_expr src = Inr e" and "check_condition e = Inr ()"
    and "set (referenced_needs e []) \<subseteq> fst ` set (jx_needs self)"
  shows "(\<exists>b. eval (worker_ctx hash_files self) e = Inr (V_Bool b)) \<or>
    (\<exists>h. eval (worker_ctx hash_files self) e = Inl (EE_HashFiles h))"
proof -
  have "min_phase e \<le> cx_phase (worker_ctx hash_files self)"
    by (cases "min_phase e") (simp_all add: worker_ctx_def less_eq_phase_def)
  from work.condition_decides [OF parse_expr_wf [OF assms(1)] assms(2) this paths_in_results [OF assms(3)]]
  show ?thesis by blast
qed

theorem checked_condition_on_worker_witness:
  "(\<exists>b. eval (worker_ctx (\<lambda>_. Inl NoMatch) \<lparr>jx_run = ''run'', jx_repo = ''rep'', jx_repo_name = ''app'',
        jx_job = ''job'', jx_job_name = ''test'', jx_sha = ''abc'',
        jx_event = \<lparr>ev_name = ''push'', ev_ref_name = ''refs/heads/main'', ev_base_ref = None,
          ev_pr_number = None, ev_key = ''main''\<rparr>,
        jx_cancelled = False, jx_needs = []\<rparr>)
      (E_Bin Op_Eq (E_Call HashFiles [E_Lit (V_Str ''a'')]) (E_Path [''event'', ''sha''])) = Inr (V_Bool b)) \<or>
   (\<exists>h. eval (worker_ctx (\<lambda>_. Inl NoMatch) \<lparr>jx_run = ''run'', jx_repo = ''rep'', jx_repo_name = ''app'',
        jx_job = ''job'', jx_job_name = ''test'', jx_sha = ''abc'',
        jx_event = \<lparr>ev_name = ''push'', ev_ref_name = ''refs/heads/main'', ev_base_ref = None,
          ev_pr_number = None, ev_key = ''main''\<rparr>,
        jx_cancelled = False, jx_needs = []\<rparr>)
      (E_Bin Op_Eq (E_Call HashFiles [E_Lit (V_Str ''a'')]) (E_Path [''event'', ''sha''])) = Inl (EE_HashFiles h))"
  by (rule checked_condition_on_worker
      [of "''hash_files('' @ [CHR 0x27] @ ''a'' @ [CHR 0x27] @ '') == event.sha''"]) code_simp+

end
