(* ===== verification/Yaml_Doc.thy ===== *)
theory Yaml_Doc
  imports Sentinel_Prelude
begin

text \<open>
  The restricted YAML loader (\<open>crates/sentinel-pipeline/src/yaml.rs\<close>): the event receiver that builds
  the document tree and refuses anchors, aliases, tags, duplicate keys and everything over its
  limits.  The scanner of the \<open>yaml-rust2\<close> crate is a parameter: for a text it yields the events it
  delivers, in order, and the scan error it stops at, if any.
\<close>

subsection \<open>Documents and errors\<close>

definition MAX_PIPELINE_FILE_BYTES :: nat where "MAX_PIPELINE_FILE_BYTES = 256 * 1024"
definition MAX_YAML_DEPTH :: nat where "MAX_YAML_DEPTH = 16"
definition MAX_NODES :: nat where "MAX_NODES = 10000"
definition MAX_KEY_BYTES :: nat where "MAX_KEY_BYTES = 128"
definition MAX_SCALAR_BYTES :: nat where "MAX_SCALAR_BYTES = 4096"

datatype node = N_Null | N_Bool bool | N_Int int | N_Str string | N_Seq "node list"
  | N_Map "(string \<times> node) list"

fun node_kind :: "node \<Rightarrow> string" where
  "node_kind N_Null = ''null''"
| "node_kind (N_Bool _) = ''boolean''"
| "node_kind (N_Int _) = ''integer''"
| "node_kind (N_Str _) = ''string''"
| "node_kind (N_Seq _) = ''sequence''"
| "node_kind (N_Map _) = ''mapping''"

fun node_get :: "node \<Rightarrow> string \<Rightarrow> node option" where
  "node_get (N_Map entries) key = map_option snd (find (\<lambda>(k, _). k = key) entries)"
| "node_get _ key = None"

datatype yaml_error_kind = TooLarge nat nat | Syntax string | Anchor | Alias | Tag | MultipleDocuments
  | EmptyDocument | TooDeep nat | TooManyNodes nat | KeyTooLong nat | ScalarTooLong nat
  | NonStringKey | DuplicateKey

record yaml_error =
  ye_line :: nat
  ye_col :: nat
  ye_kind :: yaml_error_kind

subsection \<open>The event receiver\<close>

record marker =
  mk_line :: nat
  mk_col :: nat

text \<open>
  The scanner's events.  An anchor is a number, 0 for none; of a tag only its presence matters;
  the flag of a scalar says it was written without quotes or block style.
\<close>

datatype yaml_event = Nothing | StreamStart | StreamEnd | DocumentStart | DocumentEnd
  | AliasEvent nat | Scalar string bool nat bool
  | SequenceStart nat bool | SequenceEnd | MappingStart nat bool | MappingEnd

datatype frame = F_Seq "node list" | F_Map "(string \<times> node) list" "string option"

text \<open>The stack's last frame is the head of the list.\<close>

record receiver =
  rx_stack :: "frame list"
  rx_root :: "node option"
  rx_nodes :: nat
  rx_documents :: nat
  rx_error :: "yaml_error option"

definition rx_fail :: "receiver \<Rightarrow> marker \<Rightarrow> yaml_error_kind \<Rightarrow> receiver" where
  "rx_fail rx mark kind =
     (if rx_error rx = None
      then rx\<lparr>rx_error := Some \<lparr>ye_line = mk_line mark, ye_col = mk_col mark + 1, ye_kind = kind\<rparr>\<rparr>
      else rx)"

definition rx_count :: "receiver \<Rightarrow> marker \<Rightarrow> bool \<times> receiver" where
  "rx_count rx mark =
     (let rx' = rx\<lparr>rx_nodes := rx_nodes rx + 1\<rparr> in
      if MAX_NODES < rx_nodes rx' then (False, rx_fail rx' mark (TooManyNodes MAX_NODES))
      else (True, rx'))"

definition push_value :: "receiver \<Rightarrow> node \<Rightarrow> marker \<Rightarrow> receiver" where
  "push_value rx node mark =
     (case rx_stack rx of
        [] \<Rightarrow> rx\<lparr>rx_root := Some node\<rparr>
      | F_Seq items # fs \<Rightarrow> rx\<lparr>rx_stack := F_Seq (items @ [node]) # fs\<rparr>
      | F_Map entries (Some key) # fs \<Rightarrow> rx\<lparr>rx_stack := F_Map (entries @ [(key, node)]) None # fs\<rparr>
      | F_Map entries None # fs \<Rightarrow>
          (case node of
             N_Str key \<Rightarrow>
               if MAX_KEY_BYTES < length key then rx_fail rx mark (KeyTooLong MAX_KEY_BYTES)
               else if list_ex (\<lambda>(k, _). k = key) entries then rx_fail rx mark DuplicateKey
               else rx\<lparr>rx_stack := F_Map entries (Some key) # fs\<rparr>
           | _ \<Rightarrow> rx_fail rx mark NonStringKey))"

definition rx_open :: "receiver \<Rightarrow> frame \<Rightarrow> nat \<Rightarrow> bool \<Rightarrow> marker \<Rightarrow> receiver" where
  "rx_open rx frame anchor tag mark =
     (if anchor \<noteq> 0 then rx_fail rx mark Anchor
      else if tag then rx_fail rx mark Tag
      else if MAX_YAML_DEPTH \<le> length (rx_stack rx) then rx_fail rx mark (TooDeep MAX_YAML_DEPTH)
      else (case rx_count rx mark of
              (False, rx') \<Rightarrow> rx'
            | (True, rx') \<Rightarrow> rx'\<lparr>rx_stack := frame # rx_stack rx'\<rparr>))"

definition rx_close :: "receiver \<Rightarrow> marker \<Rightarrow> receiver" where
  "rx_close rx mark =
     (case rx_stack rx of
        [] \<Rightarrow> rx
      | F_Seq items # fs \<Rightarrow> push_value (rx\<lparr>rx_stack := fs\<rparr>) (N_Seq items) mark
      | F_Map entries _ # fs \<Rightarrow> push_value (rx\<lparr>rx_stack := fs\<rparr>) (N_Map entries) mark)"

definition strip_sign :: "string \<Rightarrow> string" where
  "strip_sign s = (case s of [] \<Rightarrow> [] | c # r \<Rightarrow> if c = CHR ''+'' \<or> c = CHR ''-'' then r else s)"

definition resolve_plain :: "string \<Rightarrow> node" where
  "resolve_plain s =
     (if s \<in> set [[], ''~'', ''null'', ''Null'', ''NULL''] then N_Null
      else if s \<in> set [''true'', ''True'', ''TRUE''] then N_Bool True
      else if s \<in> set [''false'', ''False'', ''FALSE''] then N_Bool False
      else
        (let digits = strip_sign s in
         if digits \<noteq> [] \<and> length digits \<le> 19 \<and> list_all is_digit digits then
           (case parse_i64 s of Some i \<Rightarrow> N_Int i | None \<Rightarrow> N_Str s)
         else N_Str s))"

fun on_event :: "receiver \<Rightarrow> yaml_event \<times> marker \<Rightarrow> receiver" where
  "on_event rx (ev, mark) =
     (if rx_error rx \<noteq> None then rx
      else (case ev of
          DocumentStart \<Rightarrow>
            let rx' = rx\<lparr>rx_documents := rx_documents rx + 1\<rparr> in
            if 1 < rx_documents rx' then rx_fail rx' mark MultipleDocuments else rx'
        | AliasEvent _ \<Rightarrow> rx_fail rx mark Alias
        | Scalar s plain anchor tag \<Rightarrow>
            if anchor \<noteq> 0 then rx_fail rx mark Anchor
            else if tag then rx_fail rx mark Tag
            else if MAX_SCALAR_BYTES < length s then rx_fail rx mark (ScalarTooLong MAX_SCALAR_BYTES)
            else (case rx_count rx mark of
                    (False, rx') \<Rightarrow> rx'
                  | (True, rx') \<Rightarrow> push_value rx' (if plain then resolve_plain s else N_Str s) mark)
        | SequenceStart anchor tag \<Rightarrow> rx_open rx (F_Seq []) anchor tag mark
        | MappingStart anchor tag \<Rightarrow> rx_open rx (F_Map [] None) anchor tag mark
        | SequenceEnd \<Rightarrow> rx_close rx mark
        | MappingEnd \<Rightarrow> rx_close rx mark
        | _ \<Rightarrow> rx))"

definition receiver_new :: receiver where
  "receiver_new =
     \<lparr>rx_stack = [], rx_root = None, rx_nodes = 0, rx_documents = 0, rx_error = None\<rparr>"

text \<open>The scanner: the events of a text and the error it ends with (its position and message).\<close>

type_synonym yaml_scan = "string \<Rightarrow> (yaml_event \<times> marker) list \<times> (marker \<times> string) option"

definition yaml_load :: "yaml_scan \<Rightarrow> string \<Rightarrow> yaml_error + node" where
  "yaml_load scan t =
     (if MAX_PIPELINE_FILE_BYTES < length t then
        Inl \<lparr>ye_line = 1, ye_col = 1, ye_kind = TooLarge (length t) MAX_PIPELINE_FILE_BYTES\<rparr>
      else (case scan t of (events, scan_error) \<Rightarrow>
        let rx = foldl on_event receiver_new events in
        case rx_error rx of
          Some e \<Rightarrow> Inl e
        | None \<Rightarrow>
            (case scan_error of
               Some (mark, info) \<Rightarrow>
                 Inl \<lparr>ye_line = mk_line mark, ye_col = mk_col mark + 1, ye_kind = Syntax info\<rparr>
             | None \<Rightarrow>
                 (case rx_root rx of
                    None \<Rightarrow> Inl \<lparr>ye_line = 1, ye_col = 1, ye_kind = EmptyDocument\<rparr>
                  | Some N_Null \<Rightarrow> Inl \<lparr>ye_line = 1, ye_col = 1, ye_kind = EmptyDocument\<rparr>
                  | Some root \<Rightarrow> Inr root))))"

subsection \<open>What a loaded document satisfies\<close>

fun node_size :: "node \<Rightarrow> nat" where
  "node_size (N_Seq items) = Suc (sum_list (map node_size items))"
| "node_size (N_Map entries) = Suc (sum_list (map (\<lambda>(k, n). Suc (node_size n)) entries))"
| "node_size _ = 1"

fun node_depth :: "node \<Rightarrow> nat" where
  "node_depth (N_Seq items) = Suc (foldr (\<lambda>n d. max (node_depth n) d) items 0)"
| "node_depth (N_Map entries) = Suc (foldr (\<lambda>(k, n) d. max (node_depth n) d) entries 0)"
| "node_depth _ = 0"

fun node_ok :: "node \<Rightarrow> bool" where
  "node_ok (N_Int i) = i64_range i"
| "node_ok (N_Str s) = (length s \<le> MAX_SCALAR_BYTES)"
| "node_ok (N_Seq items) = list_all node_ok items"
| "node_ok (N_Map entries) =
     (distinct (map fst entries) \<and> list_all (\<lambda>(k, n). length k \<le> MAX_KEY_BYTES \<and> node_ok n) entries)"
| "node_ok _ = True"

text \<open>The same of a frame under construction.\<close>

primrec frame_size :: "frame \<Rightarrow> nat" where
  "frame_size (F_Seq items) = node_size (N_Seq items)"
| "frame_size (F_Map entries pending) =
     node_size (N_Map entries) + (case pending of None \<Rightarrow> 0 | Some _ \<Rightarrow> 1)"

primrec frame_depth :: "frame \<Rightarrow> nat" where
  "frame_depth (F_Seq items) = node_depth (N_Seq items)"
| "frame_depth (F_Map entries pending) = node_depth (N_Map entries)"

primrec frame_ok :: "frame \<Rightarrow> bool" where
  "frame_ok (F_Seq items) = node_ok (N_Seq items)"
| "frame_ok (F_Map entries pending) =
     (node_ok (N_Map entries) \<and>
      (case pending of None \<Rightarrow> True | Some k \<Rightarrow> length k \<le> MAX_KEY_BYTES \<and> k \<notin> fst ` set entries))"

fun stack_depth_ok :: "frame list \<Rightarrow> bool" where
  "stack_depth_ok [] = True"
| "stack_depth_ok (f # fs) = (frame_depth f + length fs \<le> MAX_YAML_DEPTH \<and> stack_depth_ok fs)"

primrec root_ok :: "node option \<Rightarrow> nat \<Rightarrow> bool" where
  "root_ok None k = True"
| "root_ok (Some n) k = (node_ok n \<and> node_depth n \<le> MAX_YAML_DEPTH \<and> node_size n \<le> k)"

definition rx_ok :: "receiver \<Rightarrow> bool" where
  "rx_ok rx \<longleftrightarrow>
     list_all frame_ok (rx_stack rx) \<and> stack_depth_ok (rx_stack rx)
     \<and> sum_list (map frame_size (rx_stack rx)) \<le> rx_nodes rx \<and> rx_nodes rx \<le> MAX_NODES
     \<and> root_ok (rx_root rx) (rx_nodes rx)"

lemma foldr_max_append:
  "foldr (\<lambda>x d. max (f x) d) (xs @ [y]) 0 = max (foldr (\<lambda>x d. max (f x) d) xs 0) (f y :: nat)"
  by (induction xs) auto

lemma depth_snoc:
  "node_depth (N_Seq (items @ [n])) = max (node_depth (N_Seq items)) (Suc (node_depth n))"
  "node_depth (N_Map (entries @ [(k, n)])) = max (node_depth (N_Map entries)) (Suc (node_depth n))"
  using foldr_max_append [of node_depth items n] foldr_max_append [of "\<lambda>(k, n). node_depth n" entries "(k, n)"]
  by (simp_all add: case_prod_unfold)

lemma rx_ok_push:
  assumes "rx_ok rx" "node_ok n" "node_depth n + length (rx_stack rx) \<le> MAX_YAML_DEPTH"
    "sum_list (map frame_size (rx_stack rx)) + node_size n \<le> rx_nodes rx"
  shows "rx_error (push_value rx n mark) = None \<Longrightarrow> rx_ok (push_value rx n mark)"
proof (cases "rx_stack rx")
  case Nil
  then show ?thesis using assms by (simp add: push_value_def rx_ok_def)
next
  case (Cons f fs)
  then show "rx_error (push_value rx n mark) = None \<Longrightarrow> rx_ok (push_value rx n mark)"
  proof (cases f)
    case (F_Seq items)
    then show ?thesis
      using assms Cons by (auto simp: push_value_def rx_ok_def depth_snoc simp del: node_depth.simps)
  next
    case (F_Map entries pending)
    assume no_error: "rx_error (push_value rx n mark) = None"
    show ?thesis
    proof (cases pending)
      case (Some key)
      then show ?thesis
        using assms Cons F_Map by (auto simp: push_value_def rx_ok_def depth_snoc simp del: node_depth.simps)
    next
      case None
      with no_error Cons F_Map obtain key where key: "n = N_Str key" "\<not> MAX_KEY_BYTES < length key"
        "\<not> list_ex (\<lambda>(k, _). k = key) entries"
        by (auto simp: push_value_def rx_fail_def split: node.splits if_splits)
      then have "key \<notin> fst ` set entries" by (auto simp: list_ex_iff)
      then show ?thesis using assms Cons F_Map None key by (auto simp: push_value_def rx_ok_def)
    qed
  qed
qed

lemma root_ok_mono: "root_ok r k \<Longrightarrow> k \<le> k' \<Longrightarrow> root_ok r k'"
  by (cases r) auto

lemma rx_fail_error: "rx_error (rx_fail rx mark kind) \<noteq> None"
  "\<exists>e. rx_error (rx_fail rx mark kind) = Some e"
  by (auto simp: rx_fail_def)

lemma rx_count_ok:
  assumes "rx_ok rx" "rx_count rx mark = (True, rx')"
  shows "rx_ok rx' \<and> rx_stack rx' = rx_stack rx \<and>
    sum_list (map frame_size (rx_stack rx')) + 1 \<le> rx_nodes rx'"
  using assms by (auto simp: rx_count_def Let_def rx_ok_def intro: root_ok_mono split: if_splits)

lemma rx_count_False: "rx_count rx mark = (False, rx') \<Longrightarrow> rx_error rx' \<noteq> None"
  by (auto simp: rx_count_def Let_def rx_fail_error split: if_splits)

lemma resolve_plain_ok:
  assumes "length s \<le> MAX_SCALAR_BYTES"
  shows "node_ok (resolve_plain s) \<and> node_depth (resolve_plain s) = 0 \<and> node_size (resolve_plain s) = 1"
  using assms by (auto simp: resolve_plain_def Let_def dest: parse_i64_range split: option.splits)

lemma rx_ok_stack: "rx_ok rx \<Longrightarrow> length (rx_stack rx) \<le> MAX_YAML_DEPTH"
proof (cases "rx_stack rx")
  case (Cons f fs)
  moreover assume "rx_ok rx"
  moreover have "1 \<le> frame_depth f" by (cases f) simp_all
  ultimately show ?thesis by (simp add: rx_ok_def)
qed simp

lemma rx_ok_open:
  assumes "rx_ok rx" "rx_error (rx_open rx f anchor tag mark) = None" "f = F_Seq [] \<or> f = F_Map [] None"
  shows "rx_ok (rx_open rx f anchor tag mark)"
proof -
  from assms(2) obtain rx' where rx': "rx_count rx mark = (True, rx')"
    and depth: "\<not> MAX_YAML_DEPTH \<le> length (rx_stack rx)"
    and eq: "rx_open rx f anchor tag mark = rx'\<lparr>rx_stack := f # rx_stack rx'\<rparr>"
    by (auto simp: rx_open_def rx_fail_error dest: rx_count_False split: if_splits prod.splits bool.splits)
  from rx_count_ok [OF assms(1) rx'] show ?thesis
    using assms(3) depth by (auto simp: eq rx_ok_def)
qed

lemma rx_ok_close:
  assumes "rx_ok rx" "rx_error (rx_close rx mark) = None"
  shows "rx_ok (rx_close rx mark)"
proof (cases "rx_stack rx")
  case (Cons f fs)
  then obtain n where eq: "rx_close rx mark = push_value (rx\<lparr>rx_stack := fs\<rparr>) n mark"
    and n: "node_ok n" "node_depth n = frame_depth f" "node_size n \<le> frame_size f"
    using assms(1) by (cases f) (auto simp: rx_close_def rx_ok_def)
  have "rx_ok (rx\<lparr>rx_stack := fs\<rparr>)" using assms(1) Cons by (simp add: rx_ok_def)
  from rx_ok_push [OF this n(1)] show ?thesis
    using assms Cons n by (simp add: eq rx_ok_def)
qed (use assms in \<open>simp add: rx_close_def\<close>)

lemma on_event_ok:
  assumes "rx_error rx = None \<longrightarrow> rx_ok rx"
  shows "rx_error (on_event rx e) = None \<longrightarrow> rx_ok (on_event rx e)"
proof
  obtain ev mark where e: "e = (ev, mark)" by (cases e)
  assume ok: "rx_error (on_event rx e) = None"
  then have none: "rx_error rx = None" using e by (auto split: if_splits)
  with assms have rx: "rx_ok rx" by blast
  show "rx_ok (on_event rx e)"
  proof (cases ev)
    case (Scalar s plain anchor tag)
    with ok none e obtain rx' where rx': "rx_count rx mark = (True, rx')" "length s \<le> MAX_SCALAR_BYTES"
      and eq: "on_event rx e = push_value rx' (if plain then resolve_plain s else N_Str s) mark"
      by (auto simp: rx_fail_error dest: rx_count_False split: if_splits prod.splits bool.splits)
    note c = rx_count_ok [OF rx rx'(1)]
    have "rx_error (push_value rx' (if plain then resolve_plain s else N_Str s) mark) = None"
      using ok eq by simp
    then show ?thesis unfolding eq
      using c rx'(2) resolve_plain_ok [OF rx'(2)] rx_ok_stack [of rx'] by (intro rx_ok_push) auto
  next
    case DocumentStart
    with ok none e rx show ?thesis by (auto simp: Let_def rx_fail_error rx_ok_def split: if_splits)
  qed (use ok none e rx in \<open>auto simp: rx_fail_error intro: rx_ok_open rx_ok_close\<close>)
qed

lemma events_ok:
  "rx_error rx = None \<longrightarrow> rx_ok rx \<Longrightarrow>
     rx_error (foldl on_event rx events) = None \<longrightarrow> rx_ok (foldl on_event rx events)"
proof (induction events arbitrary: rx)
  case (Cons e events)
  show ?case unfolding foldl.simps by (rule Cons.IH) (rule on_event_ok [OF Cons.prems])
qed simp

subsection \<open>Properties\<close>

text \<open>
  C32: a loaded document is within every limit. Whatever events the scanner delivers, a document
  that is accepted has at most 10000 nodes, keys included, nests at most 16 collections, has no
  duplicate key in any mapping, no key over 128 bytes and no string over 4096 bytes, and its
  integers fit in 64 bits.
\<close>

theorem loaded_document_is_bounded:
  assumes "yaml_load scan t = Inr root"
  shows "node_ok root \<and> node_size root \<le> MAX_NODES \<and> node_depth root \<le> MAX_YAML_DEPTH
    \<and> root \<noteq> N_Null \<and> length t \<le> MAX_PIPELINE_FILE_BYTES"
proof -
  obtain events se where scan: "scan t = (events, se)" by (cases "scan t")
  let ?rx = "foldl on_event receiver_new events"
  have "rx_ok receiver_new" by (simp add: receiver_new_def rx_ok_def)
  then have "rx_error ?rx = None \<longrightarrow> rx_ok ?rx" by (intro events_ok) simp
  with assms scan show ?thesis
    by (auto simp: yaml_load_def rx_ok_def Let_def split: if_splits option.splits prod.splits node.splits)
qed

theorem loaded_document_is_bounded_witness:
  "node_ok (N_Map [(''schema'', N_Int 1)]) \<and> node_size (N_Map [(''schema'', N_Int 1)]) \<le> MAX_NODES
   \<and> node_depth (N_Map [(''schema'', N_Int 1)]) \<le> MAX_YAML_DEPTH
   \<and> N_Map [(''schema'', N_Int 1)] \<noteq> N_Null \<and> length ''schema: 1'' \<le> MAX_PIPELINE_FILE_BYTES"
proof -
  let ?m = "\<lparr>mk_line = 1, mk_col = 0\<rparr>"
  let ?scan = "\<lambda>_ :: string. ([(StreamStart, ?m), (DocumentStart, ?m), (MappingStart 0 False, ?m),
     (Scalar ''schema'' True 0 False, ?m), (Scalar ''1'' True 0 False, ?m), (MappingEnd, ?m),
     (DocumentEnd, ?m), (StreamEnd, ?m)], None)"
  have "yaml_load ?scan ''schema: 1'' = Inr (N_Map [(''schema'', N_Int 1)])"
    by (simp add: yaml_load_def receiver_new_def Let_def rx_open_def rx_count_def push_value_def
        rx_close_def resolve_plain_def strip_sign_def parse_i64_def digits_val_def digit_val_def byte_class_defs
        MAX_NODES_def MAX_YAML_DEPTH_def MAX_KEY_BYTES_def MAX_SCALAR_BYTES_def
        MAX_PIPELINE_FILE_BYTES_def)
  then show ?thesis by (rule loaded_document_is_bounded)
qed

end
