(* ===== verification/Protocol_Cache.thy ===== *)
theory Protocol_Cache
  imports Sentinel_Prelude
begin

text \<open>
  Cache classes and trust classes (\<open>crates/sentinel-protocol/src/cache.rs\<close>) and the page sizes of
  \<open>crates/sentinel-protocol/src/limits.rs\<close>.
\<close>

subsection \<open>Model\<close>

datatype cache_class = Downloads | Dependencies | Compiler

definition class_ALL :: "cache_class list" where
  "class_ALL = [Downloads, Dependencies, Compiler]"

primrec class_to_u8 :: "cache_class \<Rightarrow> u8" where
  "class_to_u8 Downloads = 0"
| "class_to_u8 Dependencies = 1"
| "class_to_u8 Compiler = 2"

definition class_from_u8 :: "u8 \<Rightarrow> cache_class option" where
  "class_from_u8 code =
     (if code = 0 then Some Downloads else if code = 1 then Some Dependencies
      else if code = 2 then Some Compiler else None)"

primrec class_as_str :: "cache_class \<Rightarrow> string" where
  "class_as_str Downloads = ''downloads''"
| "class_as_str Dependencies = ''dependencies''"
| "class_as_str Compiler = ''compiler''"

definition class_of_name :: "string \<Rightarrow> cache_class option" where
  "class_of_name name = find (\<lambda>c. class_as_str c = name) class_ALL"

datatype trust = Protected | PullRequest | Unprotected

definition trust_ALL :: "trust list" where
  "trust_ALL = [Protected, PullRequest, Unprotected]"

definition trust_derive :: "string \<Rightarrow> bool \<Rightarrow> bool \<Rightarrow> trust" where
  "trust_derive event verified_intake protected_ref =
     (if event = ''pull_request'' then PullRequest
      else if (event = ''push'' \<or> event = ''tag'') \<and> verified_intake \<and> protected_ref then Protected
      else Unprotected)"

definition trust_for_protocol :: "trust \<Rightarrow> u16 \<Rightarrow> trust" where
  "trust_for_protocol self protocol =
     (if self = Unprotected \<and> protocol < 8 then PullRequest else self)"

definition trust_admits :: "trust \<Rightarrow> trust \<Rightarrow> bool" where
  "trust_admits self requested =
     (case (self, requested) of
        (Protected, Protected) \<Rightarrow> True
      | (PullRequest, PullRequest) \<Rightarrow> True
      | (Unprotected, Unprotected) \<Rightarrow> True
      | (Unprotected, PullRequest) \<Rightarrow> True
      | _ \<Rightarrow> False)"

primrec trust_to_u8 :: "trust \<Rightarrow> u8" where
  "trust_to_u8 Protected = 0"
| "trust_to_u8 PullRequest = 1"
| "trust_to_u8 Unprotected = 2"

definition trust_from_u8 :: "u8 \<Rightarrow> trust option" where
  "trust_from_u8 code =
     (if code = 0 then Some Protected else if code = 1 then Some PullRequest
      else if code = 2 then Some Unprotected else None)"

primrec trust_as_str :: "trust \<Rightarrow> string" where
  "trust_as_str Protected = ''protected''"
| "trust_as_str PullRequest = ''pull_request''"
| "trust_as_str Unprotected = ''unprotected''"

definition trust_of_name :: "string \<Rightarrow> trust option" where
  "trust_of_name name = find (\<lambda>t. trust_as_str t = name) trust_ALL"

definition MAX_PAGE_ITEMS :: nat where "MAX_PAGE_ITEMS = 500"
definition DEFAULT_PAGE_ITEMS :: nat where "DEFAULT_PAGE_ITEMS = 100"

definition page_size :: "nat option \<Rightarrow> nat" where
  "page_size requested =
     (case requested of
        None \<Rightarrow> DEFAULT_PAGE_ITEMS
      | Some n \<Rightarrow> if n = 0 then DEFAULT_PAGE_ITEMS else if MAX_PAGE_ITEMS < n then MAX_PAGE_ITEMS else n)"

definition within :: "nat \<Rightarrow> nat \<Rightarrow> nat + unit" where
  "within declared limit = (if declared \<le> limit then Inr () else Inl limit)"

subsection \<open>The contract of a coded enumeration\<close>

locale coded_enum = code_table to_code of_code
  for to_code :: "'a \<Rightarrow> u8" and of_code :: "u8 \<Rightarrow> 'a option" +
  fixes members :: "'a list"
    and to_name :: "'a \<Rightarrow> string"
    and of_name :: "string \<Rightarrow> 'a option"
  assumes complete: "x \<in> set members"
    and of_name_def: "of_name n = find (\<lambda>x. to_name x = n) members"
    and names_distinct: "distinct (map to_name members)"
begin

lemma name_round_trip: "of_name (to_name x) = Some x"
proof -
  have "find (\<lambda>y. to_name y = to_name x) ys = Some x" if "x \<in> set ys" "distinct (map to_name ys)" for ys
    using that by (induction ys) force+
  then show ?thesis using complete names_distinct by (simp add: of_name_def)
qed

lemma name_canonical: "of_name n = Some x \<longleftrightarrow> n = to_name x"
  using name_round_trip by (auto simp: of_name_def find_Some_iff)

end

interpretation cls: coded_enum class_to_u8 class_from_u8 class_ALL class_as_str class_of_name
proof
  show "x \<in> set class_ALL" for x by (cases x) (simp_all add: class_ALL_def)
  show "class_from_u8 (class_to_u8 x) = Some x" for x by (cases x) (simp_all add: class_from_u8_def)
  show "class_from_u8 c = Some x \<Longrightarrow> class_to_u8 x = c" for c x
    by (auto simp: class_from_u8_def split: if_splits)
qed (simp_all add: class_of_name_def class_ALL_def)

interpretation trs: coded_enum trust_to_u8 trust_from_u8 trust_ALL trust_as_str trust_of_name
proof
  show "x \<in> set trust_ALL" for x by (cases x) (simp_all add: trust_ALL_def)
  show "trust_from_u8 (trust_to_u8 x) = Some x" for x by (cases x) (simp_all add: trust_from_u8_def)
  show "trust_from_u8 c = Some x \<Longrightarrow> trust_to_u8 x = c" for c x
    by (auto simp: trust_from_u8_def split: if_splits)
qed (simp_all add: trust_of_name_def trust_ALL_def)

subsection \<open>Properties\<close>

text \<open>
  C33: a protected build shares cache state with protected builds only. Whatever trust class a
  worker is told, after the downgrade for old protocols, the classes it is admitted to are never
  protected unless its own is, a protected class is only derived from a verified push or tag of a
  protected ref, and the downgrade never widens what a class is admitted to.
\<close>

theorem protected_state_is_isolated:
  "(trust_admits (trust_for_protocol t proto) Protected \<longleftrightarrow> t = Protected)
   \<and> (trust_admits t r \<and> t = Protected \<longrightarrow> r = Protected)
   \<and> (trust_admits (trust_for_protocol t proto) r \<longrightarrow> trust_admits t r)
   \<and> (trust_derive event verified_intake protected_ref = Protected \<longleftrightarrow>
        event \<in> {''push'', ''tag''} \<and> verified_intake \<and> protected_ref)"
  by (cases t; cases r) (auto simp: trust_admits_def trust_for_protocol_def trust_derive_def)

theorem protected_state_is_isolated_witness:
  "trust_admits (trust_for_protocol Unprotected 7) PullRequest \<and> trust_admits Unprotected PullRequest
   \<and> trust_derive ''push'' True True = Protected"
  using protected_state_is_isolated [of Unprotected 7 PullRequest "''push''" True True]
  by (simp add: trust_admits_def trust_for_protocol_def)

end
