(* ===== verification/Schema_Reader.thy ===== *)
theory Schema_Reader
  imports Schema_Names Expr_Template Yaml_Doc
begin

text \<open>
  How the schema decoder reads a document node (\<open>crates/sentinel-pipeline/src/schema.rs\<close>, lines
  213 to 404 and 554 to 639): schema errors, the mapping reader with its 64-bit set of consumed
  entries, the scalar and sequence readers, durations, sizes, conditions and templates.
\<close>

subsection \<open>Errors\<close>

datatype schema_error_kind =
    SE_UnsupportedSchema "int option"
  | SE_UnknownKey string
  | SE_Missing
  | SE_WrongType string string
  | SE_Invalid string
  | SE_TooMany nat
  | SE_Empty

record schema_error =
  se_path :: string
  se_kind :: schema_error_kind

definition serr :: "string \<Rightarrow> schema_error_kind \<Rightarrow> schema_error" where
  "serr path kind = \<lparr>se_path = path, se_kind = kind\<rparr>"

definition SCHEMA_VERSION :: int where "SCHEMA_VERSION = 1"

fun schema_error_kind_display :: "schema_error_kind \<Rightarrow> string" where
  "schema_error_kind_display (SE_UnsupportedSchema (Some v)) =
     ''schema '' @ dec_int v @ '' is not supported; this build accepts '' @ dec_int SCHEMA_VERSION"
| "schema_error_kind_display (SE_UnsupportedSchema None) =
     ''`schema: '' @ dec_int SCHEMA_VERSION @ ''` is required''"
| "schema_error_kind_display (SE_UnknownKey k) = ''unknown key `'' @ k @ ''`''"
| "schema_error_kind_display SE_Missing = ''required''"
| "schema_error_kind_display (SE_WrongType expected found) =
     ''expected '' @ expected @ '', found '' @ found"
| "schema_error_kind_display (SE_Invalid msg) = msg"
| "schema_error_kind_display (SE_TooMany limit) = ''more than '' @ dec_nat limit @ '' entries''"
| "schema_error_kind_display SE_Empty = ''must not be empty''"

definition schema_error_display :: "schema_error \<Rightarrow> string" where
  "schema_error_display e = se_path e @ '': '' @ schema_error_kind_display (se_kind e)"

definition parse_error_display :: "parse_error \<Rightarrow> string" where
  "parse_error_display e = ''at byte '' @ dec_nat (pe_at e) @ '': '' @ pe_message e"

subsection \<open>The mapping reader\<close>

record ymap =
  ym_path :: string
  ym_entries :: "(string \<times> node) list"
  ym_seen :: u64

fun map_new :: "string \<Rightarrow> node \<Rightarrow> schema_error + ymap" where
  "map_new path (N_Map entries) =
     (if 64 < length entries then Inl (serr path (SE_TooMany 64))
      else Inr \<lparr>ym_path = path, ym_entries = entries, ym_seen = 0\<rparr>)"
| "map_new path other = Inl (serr path (SE_WrongType ''mapping'' (node_kind other)))"

definition map_take :: "ymap \<Rightarrow> string \<Rightarrow> node option \<times> ymap" where
  "map_take self key =
     (case position (\<lambda>(k, _). k = key) (ym_entries self) of
        None \<Rightarrow> (None, self)
      | Some i \<Rightarrow> (Some (snd (ym_entries self ! i)), self\<lparr>ym_seen := ym_seen self OR push_bit i 1\<rparr>))"

definition map_child :: "ymap \<Rightarrow> string \<Rightarrow> string" where
  "map_child self key = (if ym_path self = [] then key else ym_path self @ ''.'' @ key)"

fun finish_from :: "string \<Rightarrow> u64 \<Rightarrow> nat \<Rightarrow> (string \<times> node) list \<Rightarrow> schema_error + unit" where
  "finish_from path seen i [] = Inr ()"
| "finish_from path seen i ((k, _) # rest) =
     (if seen AND push_bit i 1 = 0 then Inl (serr path (SE_UnknownKey k))
      else finish_from path seen (Suc i) rest)"

definition map_finish :: "ymap \<Rightarrow> schema_error + unit" where
  "map_finish self = finish_from (ym_path self) (ym_seen self) 0 (ym_entries self)"

text \<open>
  The two shapes in which the decoder consumes a key: \<open>match map.take(key) { None => default,
  Some(n) => read(&map.child(key), n)? }\<close>, and \<open>map.take(key).ok_or_else(|| err(missing,
  Missing)).and_then(|n| read(&map.child(key), n))?\<close>.
\<close>

definition take_or ::
    "ymap \<Rightarrow> string \<Rightarrow> 'a \<Rightarrow> (string \<Rightarrow> node \<Rightarrow> schema_error + 'a) \<Rightarrow> schema_error + 'a \<times> ymap" where
  "take_or m key dflt rd =
     (case map_take m key of
        (None, m') \<Rightarrow> Inr (dflt, m')
      | (Some n, m') \<Rightarrow> res_map (\<lambda>x. (x, m')) (rd (map_child m' key) n))"

definition take_req ::
    "ymap \<Rightarrow> string \<Rightarrow> string \<Rightarrow> (string \<Rightarrow> node \<Rightarrow> schema_error + 'a) \<Rightarrow> schema_error + 'a \<times> ymap" where
  "take_req m key missing rd =
     (case map_take m key of
        (None, m') \<Rightarrow> Inl (serr missing SE_Missing)
      | (Some n, m') \<Rightarrow> res_map (\<lambda>x. (x, m')) (rd (map_child m' key) n))"

abbreviation some_of :: "(string \<Rightarrow> node \<Rightarrow> schema_error + 'a) \<Rightarrow> string \<Rightarrow> node \<Rightarrow> schema_error + 'a option" where
  "some_of rd path n \<equiv> res_map Some (rd path n)"

subsection \<open>Scalars and sequences\<close>

definition node_str :: "nat \<Rightarrow> string \<Rightarrow> node \<Rightarrow> schema_error + string" where
  "node_str mx path node =
     (case node of
        N_Str s \<Rightarrow>
          if s = [] then Inl (serr path SE_Empty)
          else if mx < length s then
            Inl (serr path (SE_Invalid (''longer than '' @ dec_nat mx @ '' bytes'')))
          else Inr s
      | other \<Rightarrow> Inl (serr path (SE_WrongType ''string'' (node_kind other))))"

definition node_bool :: "string \<Rightarrow> node \<Rightarrow> schema_error + bool" where
  "node_bool path node =
     (case node of
        N_Bool b \<Rightarrow> Inr b
      | other \<Rightarrow> Inl (serr path (SE_WrongType ''boolean'' (node_kind other))))"

definition node_seq :: "nat \<Rightarrow> string \<Rightarrow> node \<Rightarrow> schema_error + node list" where
  "node_seq mx path node =
     (case node of
        N_Seq items \<Rightarrow>
          if items = [] then Inl (serr path SE_Empty)
          else if mx < length items then Inl (serr path (SE_TooMany mx))
          else Inr items
      | other \<Rightarrow> Inl (serr path (SE_WrongType ''sequence'' (node_kind other))))"

definition index_path :: "string \<Rightarrow> nat \<Rightarrow> string" where
  "index_path path i = path @ ''['' @ dec_nat i @ '']''"

definition string_list :: "nat \<Rightarrow> nat \<Rightarrow> string \<Rightarrow> node \<Rightarrow> schema_error + string list" where
  "string_list mx item_max path node =
     res_bind (node_seq mx path node) (\<lambda>items.
       traverse_from 0 (\<lambda>i item. node_str item_max (index_path path i) item) items)"

text \<open>A validation loop over an already read list: the first item that fails is reported.\<close>

fun check_each :: "nat \<Rightarrow> (nat \<Rightarrow> 'a \<Rightarrow> 'e + unit) \<Rightarrow> 'a list \<Rightarrow> 'e + unit" where
  "check_each i chk [] = Inr ()"
| "check_each i chk (x # xs) = res_bind (chk i x) (\<lambda>_. check_each (Suc i) chk xs)"

definition expect_id :: "string \<Rightarrow> node \<Rightarrow> schema_error + string" where
  "expect_id path node =
     res_bind (node_str MAX_ID_BYTES path node) (\<lambda>s.
       if \<not> valid_id s then
         Inl (serr path (SE_Invalid ''must match [a-z0-9][a-z0-9_-]* and be at most 64 bytes''))
       else Inr s)"

subsection \<open>Durations and sizes\<close>

text \<open>\<open>u64::checked_add\<close> and \<open>u64::checked_mul\<close> on naturals below \<open>2 ^ 64\<close>.\<close>

definition checked_u64 :: "nat \<Rightarrow> nat option" where
  "checked_u64 x = (if x < 2 ^ 64 then Some x else None)"

definition unit_secs :: "char \<Rightarrow> nat" where
  "unit_secs c = (if c = CHR ''s'' then 1 else if c = CHR ''m'' then 60 else 3600)"

fun duration_from :: "string \<Rightarrow> nat \<Rightarrow> nat \<Rightarrow> bool \<Rightarrow> bool \<Rightarrow> nat option" where
  "duration_from [] tot num have_digit any = (if have_digit \<or> \<not> any then None else Some tot)"
| "duration_from (c # rest) tot num have_digit any =
     (if is_digit c then
        Option.bind (checked_u64 (num * 10)) (\<lambda>n.
        Option.bind (checked_u64 (n + digit_val c)) (\<lambda>n.
        duration_from rest tot n True any))
      else if c \<in> {CHR ''s'', CHR ''m'', CHR ''h''} \<and> have_digit then
        Option.bind (checked_u64 (num * unit_secs c)) (\<lambda>secs.
        Option.bind (checked_u64 (tot + secs)) (\<lambda>tot.
        duration_from rest tot 0 False True))
      else None)"

definition parse_duration_secs :: "string \<Rightarrow> nat option" where
  "parse_duration_secs s = duration_from s 0 0 False False"

definition parse_bytes :: "string \<Rightarrow> nat option" where
  "parse_bytes s =
     Option.bind (position (\<lambda>c. \<not> is_digit c) s) (\<lambda>i.
     Option.bind (parse_unsigned 64 (take i s)) (\<lambda>n.
       let unt = drop i s in
       if unt = ''MiB'' then checked_u64 (n * 2 ^ 20)
       else if unt = ''GiB'' then checked_u64 (n * 2 ^ 30)
       else None))"

subsection \<open>Conditions, templates and timeouts\<close>

text \<open>
  \<open>str::trim\<close> removes the characters with the Unicode \<open>White_Space\<close> property; the list has their
  UTF-8 encodings. A lead byte never occurs inside another character, so matching the encodings
  at either end of well-formed text removes whole characters.
\<close>

definition white_space :: "string list" where
  "white_space =
     [[CHR 0x09], [CHR 0x0A], [CHR 0x0B], [CHR 0x0C], [CHR 0x0D], [CHR 0x20],
      [CHR 0xC2, CHR 0x85], [CHR 0xC2, CHR 0xA0], [CHR 0xE1, CHR 0x9A, CHR 0x80]]
     @ map (\<lambda>b. [CHR 0xE2, CHR 0x80, b])
         [CHR 0x80, CHR 0x81, CHR 0x82, CHR 0x83, CHR 0x84, CHR 0x85, CHR 0x86, CHR 0x87,
          CHR 0x88, CHR 0x89, CHR 0x8A, CHR 0xA8, CHR 0xA9, CHR 0xAF]
     @ [[CHR 0xE2, CHR 0x81, CHR 0x9F], [CHR 0xE3, CHR 0x80, CHR 0x80]]"

lemma white_space_nonempty: "w \<in> set white_space \<Longrightarrow> 0 < length w"
  by (auto simp: white_space_def)

lemma trim_shrinks:
  assumes "find (\<lambda>w. P w s) white_space = Some w" and "P w s \<Longrightarrow> length w \<le> length s"
  shows "length s - length w < length s"
  using find_SomeD [OF assms(1)] white_space_nonempty [of w] assms(2) by linarith

function trim_start :: "string \<Rightarrow> string" where
  "trim_start s =
     (case find (\<lambda>w. prefix w s) white_space of
        None \<Rightarrow> s
      | Some w \<Rightarrow> trim_start (drop (length w) s))"
  by auto
termination
  by (relation "measure length") (auto intro: trim_shrinks [of prefix] prefix_length_le)

function trim_end :: "string \<Rightarrow> string" where
  "trim_end s =
     (case find (\<lambda>w. suffix w s) white_space of
        None \<Rightarrow> s
      | Some w \<Rightarrow> trim_end (take (length s - length w) s))"
  by auto
termination
  by (relation "measure length") (auto intro: trim_shrinks [of suffix] suffix_length_le)

declare trim_start.simps [simp del] trim_end.simps [simp del]

definition trim :: "string \<Rightarrow> string" where
  "trim s = trim_end (trim_start s)"

definition condition_source :: "string \<Rightarrow> string" where
  "condition_source s =
     (case Option.bind (strip_prefix ''${{'' (trim s)) (strip_suffix ''}}'') of
        Some inner \<Rightarrow> inner
      | None \<Rightarrow> s)"

definition condition :: "string \<Rightarrow> node \<Rightarrow> schema_error + expr" where
  "condition path node =
     res_bind (node_str MAX_EXPR_BYTES path node) (\<lambda>s.
     res_bind (map_err (\<lambda>e. serr path (SE_Invalid (''invalid expression '' @ parse_error_display e)))
                 (parse_expr (condition_source s))) (\<lambda>e.
     res_bind (map_err (\<lambda>m. serr path (SE_Invalid m)) (check_condition e)) (\<lambda>_.
     Inr e)))"

definition read_template :: "nat \<Rightarrow> string \<Rightarrow> node \<Rightarrow> schema_error + template" where
  "read_template mx path node =
     res_bind (node_str mx path node) (\<lambda>s.
       map_err (\<lambda>e. serr path (SE_Invalid (''invalid template '' @ parse_error_display e)))
         (template_parse s))"

definition MAX_TIMEOUT_SECS :: nat where "MAX_TIMEOUT_SECS = 24 * 60 * 60"

definition timeout :: "string \<Rightarrow> node \<Rightarrow> schema_error + nat" where
  "timeout path node =
     res_bind (node_str 32 path node) (\<lambda>s.
       case parse_duration_secs s of
         None \<Rightarrow> Inl (serr path (SE_Invalid ''expected a positive duration such as 20m or 1h30m''))
       | Some secs \<Rightarrow>
           if secs = 0 then
             Inl (serr path (SE_Invalid ''expected a positive duration such as 20m or 1h30m''))
           else if MAX_TIMEOUT_SECS < secs then
             Inl (serr path
               (SE_Invalid (''exceeds the maximum of '' @ dec_nat MAX_TIMEOUT_SECS @ '' seconds'')))
           else Inr secs)"

subsection \<open>The keys a mapping reader has consumed\<close>

primrec marked :: "string \<Rightarrow> (string \<times> node) list \<Rightarrow> string list \<Rightarrow> ymap" where
  "marked p es [] = \<lparr>ym_path = p, ym_entries = es, ym_seen = 0\<rparr>"
| "marked p es (k # ks) = snd (map_take (marked p es ks) k)"

definition child_path :: "string \<Rightarrow> string \<Rightarrow> string" where
  "child_path p k = (if p = [] then k else p @ ''.'' @ k)"

definition opt_field ::
    "string \<Rightarrow> (string \<times> node) list \<Rightarrow> string \<Rightarrow> 'a \<Rightarrow> (string \<Rightarrow> node \<Rightarrow> schema_error + 'a) \<Rightarrow> 'a \<Rightarrow> bool" where
  "opt_field p es k d rd x \<longleftrightarrow>
     (case map_of es k of None \<Rightarrow> x = d | Some n \<Rightarrow> rd (child_path p k) n = Inr x)"

definition req_field ::
    "string \<Rightarrow> (string \<times> node) list \<Rightarrow> string \<Rightarrow> (string \<Rightarrow> node \<Rightarrow> schema_error + 'a) \<Rightarrow> 'a \<Rightarrow> bool" where
  "req_field p es k rd x \<longleftrightarrow> (\<exists>n. map_of es k = Some n \<and> rd (child_path p k) n = Inr x)"

definition only_keys :: "string list \<Rightarrow> (string \<times> node) list \<Rightarrow> bool" where
  "only_keys ks es \<longleftrightarrow> length es \<le> 64 \<and> fst ` set es \<subseteq> set ks \<and> distinct (map fst es)"

lemma position_map_of:
  "map_of es k = map_option (\<lambda>i. snd (es ! i)) (position (\<lambda>(k', _). k' = k) es)"
proof (induction es)
  case (Cons e es)
  then show ?case by (cases e) (auto simp: option.map_comp comp_def)
qed simp

lemma map_take_keeps:
  "ym_entries (snd (map_take m k)) = ym_entries m" "ym_path (snd (map_take m k)) = ym_path m"
  "fst (map_take m k) = map_of (ym_entries m) k"
  by (auto simp: map_take_def position_map_of split: option.splits)

lemma marked_keeps [simp]: "ym_entries (marked p es ks) = es" "ym_path (marked p es ks) = p"
  by (induction ks) (simp_all add: map_take_keeps)

lemma map_take_marked: "map_take (marked p es ks) k = (map_of es k, marked p es (k # ks))"
  by (simp add: prod_eq_iff map_take_keeps)

lemma map_child_marked: "map_child (marked p es ks) k = child_path p k"
  by (simp add: map_child_def child_path_def)

text \<open>Bit \<open>i\<close> of the set is the first entry of a consumed key.\<close>

lemma marked_bits:
  assumes "length es \<le> 64"
  shows "bit (ym_seen (marked p es ks)) i \<longleftrightarrow>
    i < length es \<and> fst (es ! i) \<in> set ks \<and> (\<forall>j<i. fst (es ! j) \<noteq> fst (es ! i))"
proof (induction ks)
  case (Cons k ks)
  show ?case
  proof (cases "position (\<lambda>(k', _). k' = k) es")
    case None
    then have "fst (es ! i) \<noteq> k" if "i < length es" for i
      using that by (auto simp: position_None case_prod_beta)
    with None Cons show ?thesis by (auto simp: map_take_def)
  next
    case (Some n)
    then have n: "n < length es" "fst (es ! n) = k" "\<forall>j<n. fst (es ! j) \<noteq> k"
      by (auto simp: position_Some case_prod_beta)
    have "ym_seen (marked p es (k # ks)) = ym_seen (marked p es ks) OR push_bit n 1"
      using Some by (simp add: map_take_def del: push_bit_of_1)
    then have "bit (ym_seen (marked p es (k # ks))) i \<longleftrightarrow> bit (ym_seen (marked p es ks)) i \<or> i = n"
      using n(1) assms by (simp add: bit_or_iff bit_unit del: push_bit_of_1 marked.simps)
    also have "\<dots> \<longleftrightarrow> i < length es \<and> fst (es ! i) \<in> set (k # ks)
        \<and> (\<forall>j<i. fst (es ! j) \<noteq> fst (es ! i))"
      unfolding Cons using n by (auto; metis nat_neq_iff)
    finally show ?thesis .
  qed
qed simp

lemma finish_from_bits:
  "finish_from path seen i es = Inr () \<longleftrightarrow> (\<forall>j<length es. seen AND push_bit (i + j) 1 \<noteq> 0)"
proof (induction path seen i es rule: finish_from.induct)
  case (2 path seen i k v rest)
  then show ?case by (auto simp: less_Suc_eq_0_disj)
qed simp

lemma first_occurrences:
  "(\<forall>i<length xs. xs ! i \<in> K \<and> (\<forall>j<i. xs ! j \<noteq> xs ! i)) \<longleftrightarrow> set xs \<subseteq> K \<and> distinct xs"
proof -
  have "(\<forall>i<length xs. \<forall>j<i. xs ! j \<noteq> xs ! i) \<longleftrightarrow> distinct xs"
    unfolding distinct_conv_nth by (metis nat_neq_iff order_less_trans)
  moreover have "(\<forall>i<length xs. xs ! i \<in> K) \<longleftrightarrow> set xs \<subseteq> K" by (metis in_set_conv_nth subset_code(1))
  ultimately show ?thesis by blast
qed

lemma map_finish_marked:
  assumes "length es \<le> 64"
  shows "map_finish (marked p es ks) = Inr u \<longleftrightarrow> only_keys ks es"
proof -
  have "ym_seen (marked p es ks) AND push_bit j 1 \<noteq> 0 \<longleftrightarrow> bit (ym_seen (marked p es ks)) j"
    if "j < length es" for j
    using that assms unfolding and_nonzero_iff bit_unit by auto
  then have "map_finish (marked p es ks) = Inr u \<longleftrightarrow>
      (\<forall>j<length es. bit (ym_seen (marked p es ks)) j)"
    by (simp add: map_finish_def finish_from_bits del: push_bit_of_1)
  also have "\<dots> \<longleftrightarrow> (\<forall>i<length (map fst es). map fst es ! i \<in> set ks
      \<and> (\<forall>j<i. map fst es ! j \<noteq> map fst es ! i))"
    by (auto simp: marked_bits [OF assms])
  also have "\<dots> \<longleftrightarrow> only_keys ks es"
    unfolding first_occurrences using assms by (simp add: only_keys_def)
  finally show ?thesis .
qed

lemma map_new_marked:
  "map_new path n = Inr m \<longleftrightarrow> (\<exists>es. n = N_Map es \<and> length es \<le> 64 \<and> m = marked path es [])"
  by (cases "(path, n)" rule: map_new.cases) auto

lemma take_or_marked:
  "take_or (marked p es ks) k d rd = Inr (x, m) \<longleftrightarrow> opt_field p es k d rd x \<and> m = marked p es (k # ks)"
  by (auto simp: take_or_def map_take_marked opt_field_def map_child_marked res_map_eq_Inr
    simp del: marked.simps split: option.splits)

lemma take_req_marked:
  "take_req (marked p es ks) k e rd = Inr (x, m) \<longleftrightarrow> req_field p es k rd x \<and> m = marked p es (k # ks)"
  by (auto simp: take_req_def map_take_marked req_field_def map_child_marked res_map_eq_Inr
    simp del: marked.simps split: option.splits)

declare marked.simps [simp del]

lemmas reader_simps = res_bind_eq_Inr split_paired_Ex map_new_marked map_take_marked
  take_or_marked take_req_marked map_child_marked map_finish_marked case_prod_conv

end
