(* ===== verification/Schema_Decode.thy ===== *)
theory Schema_Decode
  imports Schema_Reader Trigger_Policy Protocol_Cache
begin

text \<open>
  The pipeline schema and its decoder (\<open>crates/sentinel-pipeline/src/schema.rs\<close>): the decoded
  structures in the order the source declares them, and one definition per decoding function.
  A decoder takes the path it reports errors under and the node it reads. Sizes and durations
  are naturals: the source only multiplies and adds them where the bounds checked just before
  rule out overflow, or with checked arithmetic.
\<close>

subsection \<open>Data\<close>

definition MAX_JOBS :: nat where "MAX_JOBS = 64"
definition MAX_STEPS_PER_JOB :: nat where "MAX_STEPS_PER_JOB = 64"
definition MAX_NEEDS :: nat where "MAX_NEEDS = 32"
definition MAX_ENV_VARS :: nat where "MAX_ENV_VARS = 64"
definition MAX_CACHES :: nat where "MAX_CACHES = 8"
definition MAX_ARTIFACTS :: nat where "MAX_ARTIFACTS = 8"
definition MAX_PATHS :: nat where "MAX_PATHS = 32"
definition MAX_LABELS :: nat where "MAX_LABELS = 8"
definition MAX_SECRETS :: nat where "MAX_SECRETS = 16"
definition MAX_RUN_BYTES :: nat where "MAX_RUN_BYTES = 4096"
definition DEFAULT_JOB_TIMEOUT_SECS :: nat where "DEFAULT_JOB_TIMEOUT_SECS = 60 * 60"

record concurrency =
  cc_group :: template
  cc_cancel_in_progress :: bool

datatype os = Linux | Windows

primrec os_as_str :: "os \<Rightarrow> string" where
  "os_as_str Linux = ''linux''"
| "os_as_str Windows = ''windows''"

datatype isolation = Container | Microvm | Native

primrec isolation_as_str :: "isolation \<Rightarrow> string" where
  "isolation_as_str Container = ''container''"
| "isolation_as_str Microvm = ''microvm''"
| "isolation_as_str Native = ''native''"

datatype arch = Amd64 | Arm64

record runs_on =
  ro_arch :: "arch option"
  ro_labels :: "string list"
  ro_os :: "os option"
  ro_isolation :: "isolation option"

definition runs_on_default :: runs_on where
  "runs_on_default = \<lparr>ro_arch = None, ro_labels = [], ro_os = None, ro_isolation = None\<rparr>"

definition states_runtime :: "runs_on \<Rightarrow> bool" where
  "states_runtime self \<longleftrightarrow> ro_os self \<noteq> None \<or> ro_isolation self \<noteq> None"

record resources =
  rs_cpu_millis :: nat
  rs_memory_bytes :: nat
  rs_disk_bytes :: nat

record secret_file =
  sf_name :: string
  sf_path :: string

datatype shell = Sh | Bash

record step =
  st_id :: string
  st_run :: string
  st_condition :: "expr option"
  st_shell :: shell
  st_env :: "(string \<times> string) list"
  st_secrets :: "string list"
  st_secret_files :: "secret_file list"
  st_workdir :: "string option"
  st_timeout_secs :: "nat option"

record cache =
  ca_name :: string
  ca_class :: cache_class
  ca_key :: template
  ca_paths :: "string list"

datatype artifact_when = WhenSuccess | WhenFailure | WhenAlways

record artifact =
  ar_name :: string
  ar_paths :: "string list"
  ar_when :: artifact_when
  ar_retain_secs :: nat
  ar_required :: bool

record job =
  jb_image :: string
  jb_needs :: "string list"
  jb_condition :: "expr option"
  jb_runs_on :: runs_on
  jb_resources :: resources
  jb_timeout_secs :: nat
  jb_env :: "(string \<times> string) list"
  jb_workdir :: "string option"
  jb_steps :: "step list"
  jb_cache :: "cache list"
  jb_artifacts :: "artifact list"
  jb_secrets :: "string list"
  jb_registry_auth :: "string option"

definition requires_secret_delivery :: "job \<Rightarrow> bool" where
  "requires_secret_delivery self \<longleftrightarrow>
     jb_registry_auth self \<noteq> None
     \<or> list_ex (\<lambda>s. st_secrets s \<noteq> [] \<or> st_secret_files s \<noteq> []) (jb_steps self)"

record pipeline =
  pl_on :: triggers
  pl_concurrency :: "concurrency option"
  pl_jobs :: "(string \<times> job) list"

record resource_policy =
  rp_default :: resources
  rp_min :: resources
  rp_max :: resources

definition POLICY_DEFAULT :: resource_policy where
  "POLICY_DEFAULT =
     \<lparr>rp_default = \<lparr>rs_cpu_millis = 2000, rs_memory_bytes = 4 * 2 ^ 30, rs_disk_bytes = 10 * 2 ^ 30\<rparr>,
      rp_min = \<lparr>rs_cpu_millis = 250, rs_memory_bytes = 128 * 2 ^ 20, rs_disk_bytes = 2 ^ 30\<rparr>,
      rp_max = \<lparr>rs_cpu_millis = 64000, rs_memory_bytes = 256 * 2 ^ 30,
        rs_disk_bytes = 1000 * 2 ^ 30\<rparr>\<rparr>"

subsection \<open>Triggers\<close>

definition triggers_default :: triggers where
  "triggers_default = \<lparr>tr_push = None, tr_pull_request = None, tr_tag = None, tr_manual = False\<rparr>"

definition ref_filter_default :: ref_filter where
  "ref_filter_default = \<lparr>rf_branches = [], rf_tags = []\<rparr>"

datatype ref_kind = RK_Branch | RK_Tag

primrec accepted_key :: "ref_kind \<Rightarrow> string" where
  "accepted_key RK_Branch = ''branches''"
| "accepted_key RK_Tag = ''tags''"

definition read_patterns :: "string \<Rightarrow> node \<Rightarrow> schema_error + string list" where
  "read_patterns p n =
     res_bind (string_list MAX_REF_PATTERNS MAX_REF_PATTERN_BYTES p n) (\<lambda>patterns.
     res_bind (check_each 0 (\<lambda>i pattern.
       map_err (\<lambda>why. serr (index_path p i) (SE_Invalid why)) (valid_pattern pattern)) patterns) (\<lambda>_.
     Inr patterns))"

primrec with_patterns :: "ref_kind \<Rightarrow> string list \<Rightarrow> ref_filter" where
  "with_patterns RK_Branch patterns = ref_filter_default\<lparr>rf_branches := patterns\<rparr>"
| "with_patterns RK_Tag patterns = ref_filter_default\<lparr>rf_tags := patterns\<rparr>"

definition read_ref_filter :: "ref_kind \<Rightarrow> string \<Rightarrow> node \<Rightarrow> schema_error + ref_filter" where
  "read_ref_filter kind path node =
     (if node = N_Null then Inr ref_filter_default
      else
        res_bind (map_new path node) (\<lambda>m.
        res_bind (take_or m (accepted_key kind) ref_filter_default
                    (\<lambda>p n. res_map (with_patterns kind) (read_patterns p n))) (\<lambda>(filt, m).
        res_bind (map_finish m) (\<lambda>_.
        Inr filt))))"

fun triggers_from :: "string \<Rightarrow> nat \<Rightarrow> node list \<Rightarrow> triggers \<Rightarrow> schema_error + triggers" where
  "triggers_from path i [] t = Inr t"
| "triggers_from path i (item # rest) t =
     (let p = index_path path i; dup = Inl (serr p (SE_Invalid ''duplicate trigger'')) in
      res_bind (node_str 16 p item) (\<lambda>kind.
        if kind = ''push'' then
          if tr_push t \<noteq> None then dup
          else triggers_from path (Suc i) rest (t\<lparr>tr_push := Some ref_filter_default\<rparr>)
        else if kind = ''pull_request'' then
          if tr_pull_request t \<noteq> None then dup
          else triggers_from path (Suc i) rest (t\<lparr>tr_pull_request := Some ref_filter_default\<rparr>)
        else if kind = ''tag'' then
          if tr_tag t \<noteq> None then dup
          else triggers_from path (Suc i) rest (t\<lparr>tr_tag := Some ref_filter_default\<rparr>)
        else if kind = ''manual'' then
          if tr_manual t then dup
          else triggers_from path (Suc i) rest (t\<lparr>tr_manual := True\<rparr>)
        else Inl (serr p (SE_Invalid ''expected push, pull_request, tag or manual''))))"

definition read_manual :: "string \<Rightarrow> node \<Rightarrow> schema_error + bool" where
  "read_manual p n =
     res_bind (node_bool p n) (\<lambda>b.
       if \<not> b then Inl (serr p (SE_Invalid ''`manual: true` or omit the key'')) else Inr True)"

definition triggers_of_map :: "string \<Rightarrow> node \<Rightarrow> schema_error + triggers" where
  "triggers_of_map path node =
     res_bind (map_new path node) (\<lambda>m.
     res_bind (take_or m ''push'' None (some_of (read_ref_filter RK_Branch))) (\<lambda>(push, m).
     res_bind (take_or m ''pull_request'' None (some_of (read_ref_filter RK_Branch))) (\<lambda>(pr, m).
     res_bind (take_or m ''tag'' None (some_of (read_ref_filter RK_Tag))) (\<lambda>(tag, m).
     res_bind (take_or m ''manual'' False read_manual) (\<lambda>(manual, m).
     res_bind (map_finish m) (\<lambda>_.
       let t = \<lparr>tr_push = push, tr_pull_request = pr, tr_tag = tag, tr_manual = manual\<rparr> in
       if triggers_is_empty t then Inl (serr path (SE_Invalid ''declares no trigger''))
       else Inr t))))))"

definition parse_triggers :: "string \<Rightarrow> node \<Rightarrow> schema_error + triggers" where
  "parse_triggers path node =
     (case node of
        N_Seq items \<Rightarrow>
          if items = [] then Inl (serr path SE_Empty)
          else if 4 < length items then Inl (serr path (SE_TooMany 4))
          else triggers_from path 0 items triggers_default
      | N_Map _ \<Rightarrow> triggers_of_map path node
      | other \<Rightarrow> Inl (serr path (SE_WrongType ''sequence or mapping'' (node_kind other))))"

subsection \<open>Environment and resources\<close>

definition valid_env_name :: "string \<Rightarrow> bool" where
  "valid_env_name k \<longleftrightarrow>
     k \<noteq> [] \<and> list_all (\<lambda>b. is_alnum b \<or> b = CHR ''_'') k \<and> \<not> is_digit (hd k)"

definition env_value :: "string \<Rightarrow> node \<Rightarrow> schema_error + string" where
  "env_value child v =
     (case v of
        N_Str s \<Rightarrow> Inr s
      | N_Int i \<Rightarrow> Inr (dec_int i)
      | N_Bool b \<Rightarrow> Inr (bool_str b)
      | other \<Rightarrow> Inl (serr child (SE_WrongType ''string'' (node_kind other))))"

fun env_entries :: "ymap \<Rightarrow> (string \<times> node) list \<Rightarrow> schema_error + (string \<times> string) list \<times> ymap" where
  "env_entries m [] = Inr ([], m)"
| "env_entries m ((k, v) # rest) =
     (let child = map_child m k in
      if \<not> valid_env_name k then
        Inl (serr child (SE_Invalid ''environment names must match [A-Za-z_][A-Za-z0-9_]*''))
      else
        res_bind (env_value child v) (\<lambda>val.
        res_bind (env_entries (snd (map_take m k)) rest) (\<lambda>(out, m).
        Inr ((k, val) # out, m))))"

definition read_env :: "string \<Rightarrow> node \<Rightarrow> schema_error + (string \<times> string) list" where
  "read_env path node =
     res_bind (map_new path node) (\<lambda>m.
       if MAX_ENV_VARS < length (ym_entries m) then Inl (serr path (SE_TooMany MAX_ENV_VARS))
       else
         res_bind (env_entries m (ym_entries m)) (\<lambda>(out, m).
         res_bind (map_finish m) (\<lambda>_.
         Inr out)))"

definition CORES_EXPECTED :: string where
  "CORES_EXPECTED = ''expected cores, e.g. 4 or '' @ [CHR 0x22] @ ''0.5'' @ [CHR 0x22]"

definition cpu_whole :: "string \<Rightarrow> string \<Rightarrow> schema_error + nat" where
  "cpu_whole child whole =
     ok_or (serr child (SE_Invalid CORES_EXPECTED))
       (if whole = [] \<or> \<not> list_all is_digit whole then None
        else (case parse_unsigned 32 whole of
                None \<Rightarrow> None
              | Some w \<Rightarrow> if w \<le> 1024 then Some w else None))"

definition cpu_frac :: "string \<Rightarrow> string \<Rightarrow> string \<Rightarrow> schema_error + nat" where
  "cpu_frac child s frac =
     (if frac = [] \<and> \<not> suffix ''.'' s then Inr 0
      else if frac \<noteq> [] \<and> length frac \<le> 3 \<and> list_all is_digit frac then
        Inr ((case parse_unsigned 32 frac of None \<Rightarrow> 0 | Some v \<Rightarrow> v) * 10 ^ (3 - length frac))
      else Inl (serr child (SE_Invalid ''at most millicore precision (three decimals)'')))"

definition read_cpu :: "string \<Rightarrow> node \<Rightarrow> schema_error + nat" where
  "read_cpu child cpu =
     (case cpu of
        N_Int n \<Rightarrow>
          if 0 < n \<and> n \<le> 1024 then Inr (nat n * 1000)
          else Inl (serr child (SE_Invalid CORES_EXPECTED))
      | N_Str s \<Rightarrow>
          let (whole, frac) = (case split_once (CHR ''.'') s of None \<Rightarrow> (s, []) | Some pr \<Rightarrow> pr) in
          res_bind (cpu_whole child whole) (\<lambda>w.
          res_bind (cpu_frac child s frac) (\<lambda>f.
          Inr (w * 1000 + f)))
      | _ \<Rightarrow> Inl (serr child (SE_Invalid CORES_EXPECTED)))"

definition read_size :: "string \<Rightarrow> node \<Rightarrow> schema_error + nat" where
  "read_size child n =
     res_bind (node_str 32 child n) (\<lambda>s.
       ok_or (serr child (SE_Invalid ''expected a size such as 8GiB or 512MiB'')) (parse_bytes s))"

definition check_range :: "string \<Rightarrow> string \<Rightarrow> nat \<Rightarrow> nat \<Rightarrow> nat \<Rightarrow> schema_error + unit" where
  "check_range path name v lo hi =
     (if v < lo \<or> hi < v then
        Inl (serr (path @ ''.'' @ name)
          (SE_Invalid (''must be between '' @ dec_nat lo @ '' and '' @ dec_nat hi)))
      else Inr ())"

definition read_resources :: "resource_policy \<Rightarrow> string \<Rightarrow> node option \<Rightarrow> schema_error + resources" where
  "read_resources policy path node =
     (let r = rp_default policy in
      case node of
        None \<Rightarrow> Inr r
      | Some node \<Rightarrow>
          res_bind (map_new path node) (\<lambda>m.
          res_bind (take_or m ''cpu'' (rs_cpu_millis r) read_cpu) (\<lambda>(cpu, m).
          res_bind (take_or m ''memory'' (rs_memory_bytes r) read_size) (\<lambda>(memory, m).
          res_bind (take_or m ''disk'' (rs_disk_bytes r) read_size) (\<lambda>(disk, m).
          res_bind (map_finish m) (\<lambda>_.
          res_bind (check_range path ''cpu'' cpu
                      (rs_cpu_millis (rp_min policy)) (rs_cpu_millis (rp_max policy))) (\<lambda>_.
          res_bind (check_range path ''memory'' memory
                      (rs_memory_bytes (rp_min policy)) (rs_memory_bytes (rp_max policy))) (\<lambda>_.
          res_bind (check_range path ''disk'' disk
                      (rs_disk_bytes (rp_min policy)) (rs_disk_bytes (rp_max policy))) (\<lambda>_.
          Inr \<lparr>rs_cpu_millis = cpu, rs_memory_bytes = memory, rs_disk_bytes = disk\<rparr>)))))))))"

subsection \<open>Secrets and paths\<close>

definition validate_secret_name :: "string \<Rightarrow> string \<Rightarrow> schema_error + unit" where
  "validate_secret_name path name =
     (if name = [] \<or> MAX_ID_BYTES < length name \<or> is_digit (hd name) \<or> name = ''CI''
         \<or> prefix ''SENTINEL_'' name
         \<or> \<not> list_all (\<lambda>b. is_upper b \<or> is_digit b \<or> b = CHR ''_'') name
      then Inl (serr path (SE_Invalid ''secret names must match [A-Z_][A-Z0-9_]*''))
      else Inr ())"

fun secret_names_from :: "string \<Rightarrow> nat \<Rightarrow> node list \<Rightarrow> string list \<Rightarrow> schema_error + string list" where
  "secret_names_from path i [] out = Inr out"
| "secret_names_from path i (item # rest) out =
     (let p = index_path path i in
      res_bind (node_str MAX_ID_BYTES p item) (\<lambda>name.
      res_bind (validate_secret_name p name) (\<lambda>_.
        if name \<in> set out then Inl (serr p (SE_Invalid ''duplicate secret''))
        else secret_names_from path (Suc i) rest (out @ [name]))))"

definition secret_names :: "string \<Rightarrow> node \<Rightarrow> schema_error + string list" where
  "secret_names path node =
     res_bind (node_seq MAX_SECRETS path node) (\<lambda>items. secret_names_from path 0 items [])"

definition relative_path :: "string \<Rightarrow> node \<Rightarrow> schema_error + string" where
  "relative_path path node =
     res_bind (node_str 256 path node) (\<lambda>s.
       if \<not> valid_relative_path s then
         Inl (serr path (SE_Invalid ''must be a normalised relative path without `..`''))
       else Inr s)"

definition read_secret_file :: "string \<Rightarrow> string \<times> node \<Rightarrow> schema_error + secret_file" where
  "read_secret_file child entry =
     (case entry of (name, path_node) \<Rightarrow>
        let name_path = child @ ''.'' @ name in
        res_bind (validate_secret_name name_path name) (\<lambda>_.
        res_bind (relative_path name_path path_node) (\<lambda>p.
        Inr \<lparr>sf_name = name, sf_path = p\<rparr>)))"

definition read_secret_files :: "string \<Rightarrow> node \<Rightarrow> schema_error + secret_file list" where
  "read_secret_files child n =
     (case n of
        N_Map entries \<Rightarrow>
          if entries = [] then Inl (serr child SE_Empty)
          else if MAX_SECRETS < length entries then Inl (serr child (SE_TooMany MAX_SECRETS))
          else traverse_from 0 (\<lambda>_. read_secret_file child) entries
      | other \<Rightarrow> Inl (serr child (SE_WrongType ''mapping'' (node_kind other))))"

subsection \<open>Steps, caches, artifacts and placement\<close>

definition read_shell :: "string \<Rightarrow> node \<Rightarrow> schema_error + shell" where
  "read_shell p n =
     res_bind (node_str 8 p n) (\<lambda>s.
       if s = ''sh'' then Inr Sh
       else if s = ''bash'' then Inr Bash
       else Inl (serr p (SE_Invalid ''expected sh or bash'')))"

definition read_step :: "string \<Rightarrow> node \<Rightarrow> schema_error + step" where
  "read_step path node =
     res_bind (map_new path node) (\<lambda>m.
     res_bind (take_req m ''id'' (path @ ''.id'') expect_id) (\<lambda>(sid, m).
     res_bind (take_req m ''run'' (path @ ''.run'') (node_str MAX_RUN_BYTES)) (\<lambda>(run, m).
     res_bind (take_or m ''if'' None (some_of condition)) (\<lambda>(cond, m).
     res_bind (take_or m ''shell'' Sh read_shell) (\<lambda>(shell, m).
     res_bind (take_or m ''env'' [] read_env) (\<lambda>(env, m).
     res_bind (take_or m ''secrets'' [] secret_names) (\<lambda>(secrets, m).
     res_bind (take_or m ''secret_files'' [] read_secret_files) (\<lambda>(secret_files, m).
     res_bind (take_or m ''workdir'' None (some_of relative_path)) (\<lambda>(workdir, m).
     res_bind (take_or m ''timeout'' None (some_of timeout)) (\<lambda>(timeout_secs, m).
     res_bind (map_finish m) (\<lambda>_.
     Inr \<lparr>st_id = sid, st_run = run, st_condition = cond, st_shell = shell, st_env = env,
       st_secrets = secrets, st_secret_files = secret_files, st_workdir = workdir,
       st_timeout_secs = timeout_secs\<rparr>)))))))))))"

definition read_class :: "string \<Rightarrow> node \<Rightarrow> schema_error + cache_class" where
  "read_class child n =
     res_bind (node_str 16 child n) (\<lambda>s.
       ok_or (serr child (SE_Invalid ''expected downloads, dependencies or compiler''))
         (class_of_name s))"

definition check_paths ::
    "(string \<Rightarrow> bool) \<Rightarrow> string \<Rightarrow> string \<Rightarrow> string list \<Rightarrow> schema_error + unit" where
  "check_paths ok msg paths_path paths =
     check_each 0 (\<lambda>i p.
       if \<not> ok p then Inl (serr (index_path paths_path i) (SE_Invalid msg)) else Inr ()) paths"

definition read_cache :: "string \<Rightarrow> node \<Rightarrow> schema_error + cache" where
  "read_cache path node =
     res_bind (map_new path node) (\<lambda>m.
     res_bind (take_req m ''name'' (path @ ''.name'') expect_id) (\<lambda>(name, m).
     res_bind (take_or m ''class'' Dependencies read_class) (\<lambda>(cls, m).
     res_bind (take_req m ''key'' (map_child m ''key'') (read_template 256)) (\<lambda>(key, m).
     res_bind (take_req m ''paths'' (map_child m ''paths'') (string_list MAX_PATHS 256)) (\<lambda>(paths, m).
     res_bind (check_paths valid_cache_path ''must be a normalised path without `..`''
                 (map_child m ''paths'') paths) (\<lambda>_.
     res_bind (map_finish m) (\<lambda>_.
     Inr \<lparr>ca_name = name, ca_class = cls, ca_key = key, ca_paths = paths\<rparr>)))))))"

definition read_when :: "string \<Rightarrow> node \<Rightarrow> schema_error + artifact_when" where
  "read_when p n =
     res_bind (node_str 8 p n) (\<lambda>s.
       if s = ''success'' then Inr WhenSuccess
       else if s = ''failure'' then Inr WhenFailure
       else if s = ''always'' then Inr WhenAlways
       else Inl (serr p (SE_Invalid ''expected success, failure or always'')))"

definition read_retain :: "string \<Rightarrow> node \<Rightarrow> schema_error + nat" where
  "read_retain child n =
     res_bind (node_str 16 child n) (\<lambda>s.
     res_bind (ok_or (serr child (SE_Invalid ''expected 1d to 365d''))
       (case Option.bind (strip_suffix ''d'' s) (parse_unsigned 64) of
          None \<Rightarrow> None
        | Some d \<Rightarrow> if 1 \<le> d \<and> d \<le> 365 then Some d else None)) (\<lambda>days.
     Inr (days * 24 * 3600)))"

definition read_artifact :: "string \<Rightarrow> node \<Rightarrow> schema_error + artifact" where
  "read_artifact path node =
     res_bind (map_new path node) (\<lambda>m.
     res_bind (take_req m ''name'' (path @ ''.name'') expect_id) (\<lambda>(name, m).
     res_bind (take_req m ''paths'' (map_child m ''paths'') (string_list MAX_PATHS 256)) (\<lambda>(paths, m).
     res_bind (check_paths valid_relative_path ''must be a normalised relative path without `..`''
                 (map_child m ''paths'') paths) (\<lambda>_.
     res_bind (take_or m ''when'' WhenSuccess read_when) (\<lambda>(whn, m).
     res_bind (take_or m ''retain'' (7 * 24 * 3600) read_retain) (\<lambda>(retain_secs, m).
     res_bind (take_or m ''required'' False node_bool) (\<lambda>(required, m).
     res_bind (map_finish m) (\<lambda>_.
     Inr \<lparr>ar_name = name, ar_paths = paths, ar_when = whn, ar_retain_secs = retain_secs,
       ar_required = required\<rparr>))))))))"

definition read_arch :: "string \<Rightarrow> node \<Rightarrow> schema_error + arch" where
  "read_arch p n =
     res_bind (node_str 8 p n) (\<lambda>s.
       if s = ''amd64'' then Inr Amd64
       else if s = ''arm64'' then Inr Arm64
       else Inl (serr p (SE_Invalid ''expected amd64 or arm64'')))"

definition read_labels :: "string \<Rightarrow> node \<Rightarrow> schema_error + string list" where
  "read_labels child n =
     res_bind (string_list MAX_LABELS MAX_ID_BYTES child n) (\<lambda>labels.
     res_bind (check_paths valid_id ''labels must match [a-z0-9][a-z0-9_-]*'' child labels) (\<lambda>_.
     Inr labels))"

definition read_os :: "string \<Rightarrow> node \<Rightarrow> schema_error + os" where
  "read_os p n =
     res_bind (node_str 8 p n) (\<lambda>s.
       if s = ''linux'' then Inr Linux
       else if s = ''windows'' then Inr Windows
       else Inl (serr p (SE_Invalid ''expected linux or windows'')))"

definition read_isolation :: "string \<Rightarrow> node \<Rightarrow> schema_error + isolation" where
  "read_isolation p n =
     res_bind (node_str 12 p n) (\<lambda>s.
       if s = ''container'' then Inr Container
       else if s = ''microvm'' then Inr Microvm
       else if s = ''native'' then Inr Native
       else Inl (serr p (SE_Invalid ''expected container, microvm or native'')))"

definition check_isolation :: "string \<Rightarrow> os option \<Rightarrow> isolation option \<Rightarrow> schema_error + unit" where
  "check_isolation p os isolation =
     (let linux = (os \<noteq> Some Windows) in
      if isolation = Some Native \<and> linux then
        Inl (serr p (SE_Invalid ''native isolation is for Windows jobs (os: windows)''))
      else if isolation = Some Container \<and> \<not> linux then
        Inl (serr p (SE_Invalid ''Windows jobs run in a microVM or natively, not in a container''))
      else Inr ())"

definition read_runs_on :: "string \<Rightarrow> node \<Rightarrow> schema_error + runs_on" where
  "read_runs_on path node =
     res_bind (map_new path node) (\<lambda>m.
     res_bind (take_or m ''arch'' None (some_of read_arch)) (\<lambda>(arch, m).
     res_bind (take_or m ''labels'' [] read_labels) (\<lambda>(labels, m).
     res_bind (take_or m ''os'' None (some_of read_os)) (\<lambda>(os, m).
     res_bind (take_or m ''isolation'' None (some_of read_isolation)) (\<lambda>(isolation, m).
     res_bind (check_isolation (map_child m ''isolation'') os isolation) (\<lambda>_.
     res_bind (map_finish m) (\<lambda>_.
     Inr \<lparr>ro_arch = arch, ro_labels = labels, ro_os = os, ro_isolation = isolation\<rparr>)))))))"

definition valid_image :: "string \<Rightarrow> bool" where
  "valid_image s \<longleftrightarrow>
     s \<noteq> [] \<and> length s \<le> 256 \<and> list_all (\<lambda>b. CHR 0x21 \<le> b \<and> b \<le> CHR 0x7E) s
     \<and> \<not> prefix ''-'' s \<and> find_sub ''..'' s = None"

subsection \<open>Jobs and pipelines\<close>

definition job_env_has_name :: "(string \<times> string) list \<Rightarrow> string \<Rightarrow> bool" where
  "job_env_has_name env name \<longleftrightarrow> list_ex (\<lambda>(env_name, _). env_name = name) env"

definition read_image :: "string \<Rightarrow> node \<Rightarrow> schema_error + string" where
  "read_image image_path n =
     res_bind (node_str 256 image_path n) (\<lambda>image.
       if \<not> valid_image image then
         Inl (serr image_path (SE_Invalid ''must be an OCI image reference''))
       else Inr image)"

definition read_needs :: "string \<Rightarrow> node \<Rightarrow> schema_error + string list" where
  "read_needs child n =
     res_bind (node_seq MAX_NEEDS child n) (\<lambda>items.
       traverse_from 0 (\<lambda>i item. expect_id (index_path child i) item) items)"

definition read_list ::
    "nat \<Rightarrow> (string \<Rightarrow> node \<Rightarrow> schema_error + 'a) \<Rightarrow> string \<Rightarrow> node \<Rightarrow> schema_error + 'a list" where
  "read_list mx rd child n =
     res_bind (node_seq mx child n) (\<lambda>items.
       traverse_from 0 (\<lambda>i item. rd (index_path child i) item) items)"

definition read_registry_auth :: "string \<Rightarrow> node \<Rightarrow> schema_error + string" where
  "read_registry_auth path n =
     res_bind (node_str MAX_ID_BYTES path n) (\<lambda>name.
     res_bind (validate_secret_name path name) (\<lambda>_.
     Inr name))"

definition check_step_secret ::
    "string \<Rightarrow> string list \<Rightarrow> (string \<times> string) list \<Rightarrow> step \<Rightarrow> string \<Rightarrow> schema_error + unit" where
  "check_step_secret path secrets env s name =
     (if \<not> list_ex (\<lambda>declared. declared = name) secrets then
        Inl (serr path (SE_Invalid ''step secrets must be declared by the job''))
      else if name = ''CI'' \<or> prefix ''SENTINEL_'' name \<or> job_env_has_name env name
          \<or> list_ex (\<lambda>(env_name, _). env_name = name) (st_env s) then
        Inl (serr path
          (SE_Invalid ''secret target conflicts with a reserved or ordinary environment variable''))
      else Inr ())"

text \<open>Two targets overlap when they are equal or one is a directory above the other.\<close>

definition paths_overlap :: "string \<Rightarrow> string \<Rightarrow> bool" where
  "paths_overlap previous file \<longleftrightarrow>
     previous = file
     \<or> is_some_and (strip_prefix file previous) (\<lambda>suf. prefix ''/'' suf)
     \<or> is_some_and (strip_prefix previous file) (\<lambda>suf. prefix ''/'' suf)"

definition check_step_files :: "string \<Rightarrow> step \<Rightarrow> schema_error + unit" where
  "check_step_files path s =
     check_each 0 (\<lambda>i file.
       if list_ex (\<lambda>previous. paths_overlap (sf_path previous) (sf_path file))
            (take i (st_secret_files s))
       then Inl (serr path (SE_Invalid ''overlapping secret file paths''))
       else Inr ()) (st_secret_files s)"

definition check_steps ::
    "string \<Rightarrow> string list \<Rightarrow> (string \<times> string) list \<Rightarrow> step list \<Rightarrow> schema_error + unit" where
  "check_steps steps_path secrets env steps =
     check_each 0 (\<lambda>step_index s.
       let path = index_path steps_path step_index in
       res_bind (check_each 0 (\<lambda>_. check_step_secret path secrets env s)
                   (st_secrets s @ map sf_name (st_secret_files s))) (\<lambda>_.
       check_step_files path s)) steps"

definition read_job :: "resource_policy \<Rightarrow> string \<Rightarrow> node \<Rightarrow> schema_error + job" where
  "read_job policy path node =
     res_bind (map_new path node) (\<lambda>m.
     res_bind (take_req m ''image'' (map_child m ''image'') read_image) (\<lambda>(image, m).
     res_bind (take_or m ''needs'' [] read_needs) (\<lambda>(needs, m).
     res_bind (take_or m ''if'' None (some_of condition)) (\<lambda>(cond, m).
     res_bind (take_or m ''runs_on'' runs_on_default read_runs_on) (\<lambda>(runs_on, m).
     case map_take m ''resources'' of (rnode, m) \<Rightarrow>
     res_bind (read_resources policy (map_child m ''resources'') rnode) (\<lambda>resources.
     res_bind (take_or m ''timeout'' DEFAULT_JOB_TIMEOUT_SECS timeout) (\<lambda>(timeout_secs, m).
     res_bind (take_or m ''env'' [] read_env) (\<lambda>(env, m).
     res_bind (take_or m ''workdir'' None (some_of relative_path)) (\<lambda>(workdir, m).
     res_bind (take_req m ''steps'' (map_child m ''steps'')
                 (read_list MAX_STEPS_PER_JOB read_step)) (\<lambda>(steps, m).
     res_bind (take_or m ''cache'' [] (read_list MAX_CACHES read_cache)) (\<lambda>(cache, m).
     res_bind (take_or m ''secrets'' [] secret_names) (\<lambda>(secrets, m).
     res_bind (take_or m ''registry_auth'' None (some_of read_registry_auth)) (\<lambda>(registry_auth, m).
     if is_some_and registry_auth (\<lambda>name. \<not> list_ex (\<lambda>declared. declared = name) secrets) then
       Inl (serr (map_child m ''registry_auth'')
         (SE_Invalid ''registry_auth must be declared by the job's secrets''))
     else
     res_bind (check_steps (map_child m ''steps'') secrets env steps) (\<lambda>_.
     res_bind (take_or m ''artifacts'' [] (read_list MAX_ARTIFACTS read_artifact)) (\<lambda>(artifacts, m).
     res_bind (map_finish m) (\<lambda>_.
     Inr \<lparr>jb_image = image, jb_needs = needs, jb_condition = cond, jb_runs_on = runs_on,
       jb_resources = resources, jb_timeout_secs = timeout_secs, jb_env = env,
       jb_workdir = workdir, jb_steps = steps, jb_cache = cache, jb_artifacts = artifacts,
       jb_secrets = secrets, jb_registry_auth = registry_auth\<rparr>))))))))))))))))"

definition read_concurrency :: "string \<Rightarrow> node \<Rightarrow> schema_error + concurrency" where
  "read_concurrency path n =
     res_bind (map_new ''concurrency'' n) (\<lambda>c.
     res_bind (take_req c ''group'' ''concurrency.group'' (read_template 256)) (\<lambda>(group, c).
     if Dispatch < template_min_phase group then
       Inl (serr ''concurrency.group''
         (SE_Invalid ''may only use event, repo and run context (no needs or hash_files)''))
     else
     res_bind (take_or c ''cancel_in_progress'' False node_bool) (\<lambda>(cancel_in_progress, c).
     res_bind (map_finish c) (\<lambda>_.
     Inr \<lparr>cc_group = group, cc_cancel_in_progress = cancel_in_progress\<rparr>))))"

definition read_job_entry :: "resource_policy \<Rightarrow> string \<times> node \<Rightarrow> schema_error + string \<times> job" where
  "read_job_entry policy entry = (case entry of (name, node) \<Rightarrow>
     let path = ''jobs.'' @ name in
     if \<not> valid_id name then
       Inl (serr path
         (SE_Invalid ''job names must match [a-z0-9][a-z0-9_-]* and be at most 64 bytes''))
     else
       res_bind (read_job policy path node) (\<lambda>j.
       Inr (name, j)))"

definition read_jobs :: "resource_policy \<Rightarrow> string \<Rightarrow> node \<Rightarrow> schema_error + (string \<times> job) list" where
  "read_jobs policy jobs_path n =
     res_bind (map_new ''jobs'' n) (\<lambda>jobs_map.
       if ym_entries jobs_map = [] then Inl (serr ''jobs'' SE_Empty)
       else if MAX_JOBS < length (ym_entries jobs_map) then
         Inl (serr ''jobs'' (SE_TooMany MAX_JOBS))
       else
         traverse_from 0 (\<lambda>_. read_job_entry policy) (ym_entries jobs_map))"

definition check_version :: "node option \<Rightarrow> schema_error + unit" where
  "check_version n =
     (case n of
        Some (N_Int v) \<Rightarrow>
          if v = SCHEMA_VERSION then Inr ()
          else Inl (serr ''schema'' (SE_UnsupportedSchema (Some v)))
      | _ \<Rightarrow> Inl (serr ''schema'' (SE_UnsupportedSchema None)))"

definition decode :: "resource_policy \<Rightarrow> node \<Rightarrow> schema_error + pipeline" where
  "decode policy root =
     res_bind (map_new [] root) (\<lambda>m.
     case map_take m ''schema'' of (version, m) \<Rightarrow>
     res_bind (check_version version) (\<lambda>_.
     res_bind (take_req m ''on'' ''on'' parse_triggers) (\<lambda>(on, m).
     res_bind (take_or m ''concurrency'' None (some_of read_concurrency)) (\<lambda>(concurrency, m).
     res_bind (take_req m ''jobs'' ''jobs'' (read_jobs policy)) (\<lambda>(jobs, m).
     res_bind (map_finish m) (\<lambda>_.
     Inr \<lparr>pl_on = on, pl_concurrency = concurrency, pl_jobs = jobs\<rparr>))))))"

end
