(* ===== verification/Schema_Wf.thy ===== *)
theory Schema_Wf
  imports Schema_Decode
begin

text \<open>
  What the schema decoder guarantees. Each decoder is first characterised by the fields it reads
  from a mapping; the characterisations give the well-formedness of decoded pipelines and that a
  document with an unknown or repeated key is refused at every level.
\<close>

subsection \<open>Fields of each decoder\<close>

lemma read_step_fields:
  "read_step path node = Inr s \<longleftrightarrow> (\<exists>es. node = N_Map es
    \<and> only_keys [''timeout'', ''workdir'', ''secret_files'', ''secrets'', ''env'', ''shell'',
        ''if'', ''run'', ''id''] es
    \<and> req_field path es ''id'' expect_id (st_id s)
    \<and> req_field path es ''run'' (node_str MAX_RUN_BYTES) (st_run s)
    \<and> opt_field path es ''if'' None (some_of condition) (st_condition s)
    \<and> opt_field path es ''shell'' Sh read_shell (st_shell s)
    \<and> opt_field path es ''env'' [] read_env (st_env s)
    \<and> opt_field path es ''secrets'' [] secret_names (st_secrets s)
    \<and> opt_field path es ''secret_files'' [] read_secret_files (st_secret_files s)
    \<and> opt_field path es ''workdir'' None (some_of relative_path) (st_workdir s)
    \<and> opt_field path es ''timeout'' None (some_of timeout) (st_timeout_secs s))"
  unfolding read_step_def by (cases s) (auto simp: reader_simps only_keys_def)

lemma read_cache_fields:
  "read_cache path node = Inr c \<longleftrightarrow> (\<exists>es. node = N_Map es
    \<and> only_keys [''paths'', ''key'', ''class'', ''name''] es
    \<and> req_field path es ''name'' expect_id (ca_name c)
    \<and> opt_field path es ''class'' Dependencies read_class (ca_class c)
    \<and> req_field path es ''key'' (read_template 256) (ca_key c)
    \<and> req_field path es ''paths'' (string_list MAX_PATHS 256) (ca_paths c)
    \<and> check_paths valid_cache_path ''must be a normalised path without `..`'' (child_path path ''paths'')
        (ca_paths c) = Inr ())"
  unfolding read_cache_def by (cases c) (auto simp: reader_simps only_keys_def)

lemma read_artifact_fields:
  "read_artifact path node = Inr a \<longleftrightarrow> (\<exists>es. node = N_Map es
    \<and> only_keys [''required'', ''retain'', ''when'', ''paths'', ''name''] es
    \<and> req_field path es ''name'' expect_id (ar_name a)
    \<and> req_field path es ''paths'' (string_list MAX_PATHS 256) (ar_paths a)
    \<and> check_paths valid_relative_path ''must be a normalised relative path without `..`''
        (child_path path ''paths'') (ar_paths a) = Inr ()
    \<and> opt_field path es ''when'' WhenSuccess read_when (ar_when a)
    \<and> opt_field path es ''retain'' (7 * 24 * 3600) read_retain (ar_retain_secs a)
    \<and> opt_field path es ''required'' False node_bool (ar_required a))"
  unfolding read_artifact_def by (cases a) (auto simp: reader_simps only_keys_def)

lemma read_runs_on_fields:
  "read_runs_on path node = Inr r \<longleftrightarrow> (\<exists>es. node = N_Map es
    \<and> only_keys [''isolation'', ''os'', ''labels'', ''arch''] es
    \<and> opt_field path es ''arch'' None (some_of read_arch) (ro_arch r)
    \<and> opt_field path es ''labels'' [] read_labels (ro_labels r)
    \<and> opt_field path es ''os'' None (some_of read_os) (ro_os r)
    \<and> opt_field path es ''isolation'' None (some_of read_isolation) (ro_isolation r)
    \<and> check_isolation (child_path path ''isolation'') (ro_os r) (ro_isolation r) = Inr ())"
  unfolding read_runs_on_def by (cases r) (auto simp: reader_simps only_keys_def)

definition in_range :: "resource_policy \<Rightarrow> resources \<Rightarrow> bool" where
  "in_range policy r \<longleftrightarrow>
     rs_cpu_millis (rp_min policy) \<le> rs_cpu_millis r \<and> rs_cpu_millis r \<le> rs_cpu_millis (rp_max policy)
     \<and> rs_memory_bytes (rp_min policy) \<le> rs_memory_bytes r
     \<and> rs_memory_bytes r \<le> rs_memory_bytes (rp_max policy)
     \<and> rs_disk_bytes (rp_min policy) \<le> rs_disk_bytes r
     \<and> rs_disk_bytes r \<le> rs_disk_bytes (rp_max policy)"

lemma check_range_ok: "check_range path name v lo hi = Inr u \<longleftrightarrow> lo \<le> v \<and> v \<le> hi"
  by (simp add: check_range_def not_less)

lemma read_resources_fields:
  "read_resources policy path (Some node) = Inr r \<longleftrightarrow> (\<exists>es. node = N_Map es
    \<and> only_keys [''disk'', ''memory'', ''cpu''] es
    \<and> opt_field path es ''cpu'' (rs_cpu_millis (rp_default policy)) read_cpu (rs_cpu_millis r)
    \<and> opt_field path es ''memory'' (rs_memory_bytes (rp_default policy)) read_size (rs_memory_bytes r)
    \<and> opt_field path es ''disk'' (rs_disk_bytes (rp_default policy)) read_size (rs_disk_bytes r)
    \<and> in_range policy r)"
  unfolding read_resources_def Let_def
  by (cases r) (auto simp: reader_simps only_keys_def check_range_ok in_range_def)

lemma read_ref_filter_fields:
  "node \<noteq> N_Null \<Longrightarrow> read_ref_filter kind path node = Inr f \<longleftrightarrow> (\<exists>es. node = N_Map es
    \<and> only_keys [accepted_key kind] es
    \<and> opt_field path es (accepted_key kind) ref_filter_default
        (\<lambda>p n. res_map (with_patterns kind) (read_patterns p n)) f)"
  unfolding read_ref_filter_def by (auto simp: reader_simps only_keys_def)

lemma if_error_eq [res_simps]: "(if b then Inl e else m) = Inr x \<longleftrightarrow> \<not> b \<and> m = Inr x"
  by simp

lemma triggers_of_map_fields:
  "triggers_of_map path node = Inr t \<longleftrightarrow> (\<exists>es. node = N_Map es
    \<and> only_keys [''manual'', ''tag'', ''pull_request'', ''push''] es
    \<and> opt_field path es ''push'' None (some_of (read_ref_filter RK_Branch)) (tr_push t)
    \<and> opt_field path es ''pull_request'' None (some_of (read_ref_filter RK_Branch)) (tr_pull_request t)
    \<and> opt_field path es ''tag'' None (some_of (read_ref_filter RK_Tag)) (tr_tag t)
    \<and> opt_field path es ''manual'' False read_manual (tr_manual t)
    \<and> \<not> triggers_is_empty t)"
  unfolding triggers_of_map_def Let_def
  by (cases t) (auto simp: reader_simps only_keys_def if_error_eq)

lemma read_concurrency_fields:
  "read_concurrency path node = Inr c \<longleftrightarrow> (\<exists>es. node = N_Map es
    \<and> only_keys [''cancel_in_progress'', ''group''] es
    \<and> req_field ''concurrency'' es ''group'' (read_template 256) (cc_group c)
    \<and> template_min_phase (cc_group c) \<le> Dispatch
    \<and> opt_field ''concurrency'' es ''cancel_in_progress'' False node_bool (cc_cancel_in_progress c))"
  unfolding read_concurrency_def by (cases c) (auto simp: reader_simps only_keys_def not_less)

lemma read_job_fields:
  "read_job policy path node = Inr j \<longleftrightarrow> (\<exists>es. node = N_Map es
    \<and> only_keys [''artifacts'', ''registry_auth'', ''secrets'', ''cache'', ''steps'', ''workdir'',
        ''env'', ''timeout'', ''resources'', ''runs_on'', ''if'', ''needs'', ''image''] es
    \<and> req_field path es ''image'' read_image (jb_image j)
    \<and> opt_field path es ''needs'' [] read_needs (jb_needs j)
    \<and> opt_field path es ''if'' None (some_of condition) (jb_condition j)
    \<and> opt_field path es ''runs_on'' runs_on_default read_runs_on (jb_runs_on j)
    \<and> read_resources policy (child_path path ''resources'') (map_of es ''resources'') = Inr (jb_resources j)
    \<and> opt_field path es ''timeout'' DEFAULT_JOB_TIMEOUT_SECS timeout (jb_timeout_secs j)
    \<and> opt_field path es ''env'' [] read_env (jb_env j)
    \<and> opt_field path es ''workdir'' None (some_of relative_path) (jb_workdir j)
    \<and> req_field path es ''steps'' (read_list MAX_STEPS_PER_JOB read_step) (jb_steps j)
    \<and> opt_field path es ''cache'' [] (read_list MAX_CACHES read_cache) (jb_cache j)
    \<and> opt_field path es ''secrets'' [] secret_names (jb_secrets j)
    \<and> opt_field path es ''registry_auth'' None (some_of read_registry_auth) (jb_registry_auth j)
    \<and> pred_option (\<lambda>name. name \<in> set (jb_secrets j)) (jb_registry_auth j)
    \<and> check_steps (child_path path ''steps'') (jb_secrets j) (jb_env j) (jb_steps j) = Inr ()
    \<and> opt_field path es ''artifacts'' [] (read_list MAX_ARTIFACTS read_artifact) (jb_artifacts j))"
  unfolding read_job_def
  by (cases j) (auto simp: reader_simps only_keys_def if_error_eq is_some_and_iff list_ex_iff
    option.pred_set)

lemma decode_fields:
  "decode policy root = Inr p \<longleftrightarrow> (\<exists>es. root = N_Map es
    \<and> only_keys [''jobs'', ''concurrency'', ''on'', ''schema''] es
    \<and> map_of es ''schema'' = Some (N_Int SCHEMA_VERSION)
    \<and> req_field [] es ''on'' parse_triggers (pl_on p)
    \<and> opt_field [] es ''concurrency'' None (some_of read_concurrency) (pl_concurrency p)
    \<and> req_field [] es ''jobs'' (read_jobs policy) (pl_jobs p))"
proof -
  have "check_version n = Inr u \<longleftrightarrow> n = Some (N_Int SCHEMA_VERSION)" for n u
    by (auto simp: check_version_def split: option.splits node.splits)
  then show ?thesis unfolding decode_def
    by (cases p) (auto simp: reader_simps only_keys_def)
qed

subsection \<open>What each reader accepts\<close>

lemma opt_field_pred:
  "opt_field p es k d rd x \<Longrightarrow> P d \<Longrightarrow> (\<And>q n y. rd q n = Inr y \<Longrightarrow> P y) \<Longrightarrow> P x"
  by (auto simp: opt_field_def split: option.splits)

lemma opt_field_pred_option:
  "opt_field p es k None (some_of rd) x \<Longrightarrow> (\<And>q n y. rd q n = Inr y \<Longrightarrow> P y) \<Longrightarrow> pred_option P x"
  by (rule opt_field_pred) (auto simp: res_map_eq_Inr)

lemma req_field_pred: "req_field p es k rd x \<Longrightarrow> (\<And>q n y. rd q n = Inr y \<Longrightarrow> P y) \<Longrightarrow> P x"
  by (auto simp: req_field_def)

lemma node_str_ok: "node_str mx p n = Inr s \<longleftrightarrow> n = N_Str s \<and> s \<noteq> [] \<and> length s \<le> mx"
  by (auto simp: node_str_def split: node.splits)

lemma node_seq_ok: "node_seq mx p n = Inr xs \<longleftrightarrow> n = N_Seq xs \<and> xs \<noteq> [] \<and> length xs \<le> mx"
  by (auto simp: node_seq_def split: node.splits)

lemma expect_id_ok: "expect_id p n = Inr s \<Longrightarrow> valid_id s"
  by (auto simp: expect_id_def res_bind_eq_Inr split: if_splits)

lemma read_list_ok:
  assumes "read_list mx rd p n = Inr ys" and "\<And>q m y. rd q m = Inr y \<Longrightarrow> P y"
  shows "ys \<noteq> [] \<and> length ys \<le> mx \<and> list_all P ys"
proof -
  obtain xs where xs: "xs \<noteq> []" "length xs \<le> mx"
    and t: "traverse_from 0 (\<lambda>i item. rd (index_path p i) item) xs = Inr ys"
    using assms(1) by (auto simp: read_list_def res_bind_eq_Inr node_seq_ok)
  have "P y" if "y \<in> set ys" for y by (rule traverse_from_all [OF t _ that]) (rule assms(2))
  with xs traverse_from_Inr_length [OF t] show ?thesis by (auto simp: list_all_iff)
qed

lemma read_list_variants:
  "string_list mx item_max = read_list mx (node_str item_max)"
  "read_needs = read_list MAX_NEEDS expect_id"
  by (simp_all add: fun_eq_iff string_list_def read_needs_def read_list_def)

lemma check_each_ok:
  "check_each i chk xs = Inr u \<longleftrightarrow> (\<forall>j<length xs. chk (i + j) (xs ! j) = Inr ())"
proof (induction xs arbitrary: i)
  case (Cons x xs)
  then show ?case by (auto simp: res_bind_eq_Inr less_Suc_eq_0_disj)
qed simp

lemma check_each_const:
  "check_each i (\<lambda>_. chk) xs = Inr u \<longleftrightarrow> (\<forall>x\<in>set xs. chk x = Inr ())"
  by (auto simp: check_each_ok in_set_conv_nth all_set_conv_all_nth)

lemma check_paths_ok: "check_paths ok msg p xs = Inr u \<longleftrightarrow> list_all ok xs"
  by (auto simp: check_paths_def check_each_ok list_all_length split: if_splits)

definition wf_condition :: "expr \<Rightarrow> bool" where
  "wf_condition e \<longleftrightarrow> wf_expr e \<and> check_condition e = Inr ()"

lemma condition_ok: "condition p n = Inr e \<Longrightarrow> wf_condition e"
  by (auto simp: condition_def wf_condition_def res_bind_eq_Inr map_err_eq_Inr dest: parse_expr_wf)

fun wf_part :: "part \<Rightarrow> bool" where
  "wf_part (P_Lit _) = True"
| "wf_part (P_Expr e) = wf_expr e"

definition wf_template :: "template \<Rightarrow> bool" where
  "wf_template t = list_all wf_part (tpl_parts t)"

lemma template_from_wf:
  "template_from off rest parts = Inr ps \<Longrightarrow> list_all wf_part parts \<Longrightarrow> list_all wf_part ps"
proof (induction off rest parts rule: template_from.induct)
  case (1 off rest parts)
  show ?case
  proof (cases "find_sub ''${{'' rest")
    case None
    with 1(2,3) show ?thesis by (subst (asm) template_from.simps) (auto split: if_splits)
  next
    case (Some i)
    let ?parts = "if 0 < i then parts @ [P_Lit (take i rest)] else parts"
    and ?after = "drop (i + 3) rest"
    obtain en e where en: "find_sub ''}}'' ?after = Some en" "parse_expr (take en ?after) = Inr e"
      "template_from (off + (i + 3 + en + 2)) (drop (i + 3 + en + 2) rest) (?parts @ [P_Expr e]) = Inr ps"
      using 1(2) Some
      by (subst (asm) template_from.simps) (auto simp: Let_def split: option.splits sum.splits)
    show ?thesis
      by (rule 1(1) [OF Some refl refl en]) (use 1(3) en(2) in \<open>auto dest: parse_expr_wf\<close>)
  qed
qed

lemma read_template_ok: "read_template mx p n = Inr t \<Longrightarrow> wf_template t"
  by (auto simp: read_template_def wf_template_def template_parse_def res_simps dest: template_from_wf)

abbreviation timeout_in_bounds :: "nat \<Rightarrow> bool" where
  "timeout_in_bounds t \<equiv> 0 < t \<and> t \<le> MAX_TIMEOUT_SECS"

lemma timeout_ok: "timeout p n = Inr t \<Longrightarrow> timeout_in_bounds t"
  unfolding timeout_def res_bind_eq_Inr
  by (elim exE conjE) (simp only: not_less split: option.splits if_splits; simp)

lemma relative_path_ok: "relative_path p n = Inr s \<Longrightarrow> valid_relative_path s"
  by (auto simp: relative_path_def res_bind_eq_Inr split: if_splits)

definition valid_secret_name :: "string \<Rightarrow> bool" where
  "valid_secret_name s \<longleftrightarrow>
     s \<noteq> [] \<and> length s \<le> MAX_ID_BYTES \<and> \<not> is_digit (hd s) \<and> s \<noteq> ''CI'' \<and> \<not> prefix ''SENTINEL_'' s
     \<and> list_all (\<lambda>b. is_upper b \<or> is_digit b \<or> b = CHR ''_'') s"

lemma validate_secret_name_ok: "validate_secret_name p s = Inr u \<longleftrightarrow> valid_secret_name s"
  unfolding validate_secret_name_def valid_secret_name_def by (simp add: not_less)

lemma secret_names_from_ok:
  "secret_names_from p i items out = Inr ns \<Longrightarrow> distinct out \<Longrightarrow> list_all valid_secret_name out
   \<Longrightarrow> distinct ns \<and> list_all valid_secret_name ns \<and> length ns = length out + length items"
proof (induction p i items out rule: secret_names_from.induct)
  case (2 p i item rest out)
  then show ?case by (auto simp: Let_def res_bind_eq_Inr validate_secret_name_ok split: if_splits)
qed simp

abbreviation wf_secrets :: "string list \<Rightarrow> bool" where
  "wf_secrets ns \<equiv> distinct ns \<and> list_all valid_secret_name ns \<and> length ns \<le> MAX_SECRETS"

lemma secret_names_ok: "secret_names p n = Inr ns \<Longrightarrow> wf_secrets ns"
  using secret_names_from_ok [of p 0 _ "[]" ns] by (auto simp: secret_names_def res_bind_eq_Inr node_seq_ok)

abbreviation wf_secret_file :: "secret_file \<Rightarrow> bool" where
  "wf_secret_file f \<equiv> valid_secret_name (sf_name f) \<and> valid_relative_path (sf_path f)"

lemma read_secret_files_ok:
  assumes "read_secret_files p n = Inr fs"
  shows "list_all wf_secret_file fs \<and> length fs \<le> MAX_SECRETS"
proof -
  obtain es where es: "length es \<le> MAX_SECRETS" "traverse_from 0 (\<lambda>_. read_secret_file p) es = Inr fs"
    using assms by (auto simp: read_secret_files_def not_less split: node.splits if_splits)
  have "wf_secret_file f" if "f \<in> set fs" for f
    by (rule traverse_from_all [OF es(2) _ that])
      (auto simp: read_secret_file_def Let_def res_bind_eq_Inr validate_secret_name_ok
        dest: relative_path_ok split: prod.splits)
  with es(1) traverse_from_Inr_length [OF es(2)] show ?thesis by (auto simp: list_all_iff)
qed

lemma read_secret_files_keys: "read_secret_files p n = Inr fs \<Longrightarrow> \<exists>es. n = N_Map es"
  by (auto simp: read_secret_files_def split: node.splits)

definition wf_env :: "(string \<times> string) list \<Rightarrow> bool" where
  "wf_env env \<longleftrightarrow> length env \<le> MAX_ENV_VARS \<and> distinct (map fst env) \<and> list_all (valid_env_name \<circ> fst) env"

lemma env_entries_ok:
  "env_entries (marked p es ks) rest = Inr (out, m) \<Longrightarrow>
   m = marked p es (rev (map fst rest) @ ks) \<and> map fst out = map fst rest
   \<and> list_all (valid_env_name \<circ> fst) rest"
proof (induction rest arbitrary: ks out)
  case (Cons kv rest)
  obtain k v where kv: "kv = (k, v)" by fastforce
  with Cons.prems obtain val out' where o: "valid_env_name k" "out = (k, val) # out'"
    "env_entries (marked p es (k # ks)) rest = Inr (out', m)"
    by (auto simp: Let_def reader_simps if_error_eq split: if_splits)
  from Cons.IH [OF o(3)] o(1,2) kv show ?case by simp
qed simp

lemma read_env_ok:
  assumes "read_env p n = Inr env"
  shows "wf_env env"
proof -
  obtain es where es: "length es \<le> 64" "\<not> MAX_ENV_VARS < length es"
    and e: "env_entries (marked p es []) es = Inr (env, marked p es (rev (map fst es)))"
    and k: "only_keys (rev (map fst es)) es"
    using assms unfolding read_env_def
    by (auto simp: reader_simps if_error_eq) (use env_entries_ok map_finish_marked in fastforce)
  from env_entries_ok [OF e] have "map fst env = map fst es" "list_all (valid_env_name \<circ> fst) es"
    by auto
  moreover have "distinct (map fst es)" using k by (simp add: only_keys_def)
  ultimately show ?thesis using es(2)
    by (simp add: wf_env_def list_all_iff) (metis (no_types, lifting) image_iff image_set length_map not_less)
qed

subsection \<open>Well-formed pipelines\<close>

definition wf_step :: "step \<Rightarrow> bool" where
  "wf_step s \<longleftrightarrow>
     valid_id (st_id s) \<and> st_run s \<noteq> [] \<and> length (st_run s) \<le> MAX_RUN_BYTES
     \<and> pred_option wf_condition (st_condition s) \<and> wf_env (st_env s)
     \<and> wf_secrets (st_secrets s)
     \<and> list_all wf_secret_file (st_secret_files s) \<and> length (st_secret_files s) \<le> MAX_SECRETS
     \<and> pred_option valid_relative_path (st_workdir s)
     \<and> pred_option timeout_in_bounds (st_timeout_secs s)"

abbreviation wf_paths :: "(string \<Rightarrow> bool) \<Rightarrow> string list \<Rightarrow> bool" where
  "wf_paths ok ps \<equiv> ps \<noteq> [] \<and> length ps \<le> MAX_PATHS \<and> list_all ok ps"

definition wf_cache :: "cache \<Rightarrow> bool" where
  "wf_cache c \<longleftrightarrow> valid_id (ca_name c) \<and> wf_template (ca_key c) \<and> wf_paths valid_cache_path (ca_paths c)"

definition wf_artifact :: "artifact \<Rightarrow> bool" where
  "wf_artifact a \<longleftrightarrow>
     valid_id (ar_name a) \<and> wf_paths valid_relative_path (ar_paths a)
     \<and> (\<exists>d\<in>{1..365}. ar_retain_secs a = d * 24 * 3600)"

definition wf_runs_on :: "runs_on \<Rightarrow> bool" where
  "wf_runs_on r \<longleftrightarrow>
     list_all valid_id (ro_labels r) \<and> length (ro_labels r) \<le> MAX_LABELS
     \<and> (ro_isolation r = Some Native \<longrightarrow> ro_os r = Some Windows)
     \<and> (ro_isolation r = Some Container \<longrightarrow> ro_os r \<noteq> Some Windows)"

text \<open>
  The secrets of a step: declared by the job, never the name of an ordinary or reserved variable,
  and files whose targets do not lie inside one another.
\<close>

definition secrets_separate :: "job \<Rightarrow> step \<Rightarrow> bool" where
  "secrets_separate j s \<longleftrightarrow>
     (\<forall>name \<in> set (st_secrets s) \<union> sf_name ` set (st_secret_files s).
        name \<in> set (jb_secrets j) \<and> name \<noteq> ''CI'' \<and> \<not> prefix ''SENTINEL_'' name
        \<and> name \<notin> fst ` set (jb_env j) \<and> name \<notin> fst ` set (st_env s))
     \<and> sorted_wrt (\<lambda>f g. \<not> paths_overlap (sf_path f) (sf_path g)) (st_secret_files s)"

definition wf_job :: "resource_policy \<Rightarrow> job \<Rightarrow> bool" where
  "wf_job policy j \<longleftrightarrow>
     valid_image (jb_image j) \<and> list_all valid_id (jb_needs j) \<and> length (jb_needs j) \<le> MAX_NEEDS
     \<and> pred_option wf_condition (jb_condition j) \<and> wf_runs_on (jb_runs_on j)
     \<and> in_range policy (jb_resources j) \<and> timeout_in_bounds (jb_timeout_secs j)
     \<and> wf_env (jb_env j) \<and> pred_option valid_relative_path (jb_workdir j)
     \<and> jb_steps j \<noteq> [] \<and> length (jb_steps j) \<le> MAX_STEPS_PER_JOB \<and> list_all wf_step (jb_steps j)
     \<and> list_all wf_cache (jb_cache j) \<and> length (jb_cache j) \<le> MAX_CACHES
     \<and> list_all wf_artifact (jb_artifacts j) \<and> length (jb_artifacts j) \<le> MAX_ARTIFACTS
     \<and> wf_secrets (jb_secrets j)
     \<and> pred_option (\<lambda>name. name \<in> set (jb_secrets j)) (jb_registry_auth j)
     \<and> list_all (secrets_separate j) (jb_steps j)"

definition wf_filter :: "ref_filter \<Rightarrow> bool" where
  "wf_filter f \<longleftrightarrow> list_all (\<lambda>p. valid_pattern p = Inr ()) (rf_branches f @ rf_tags f)
     \<and> length (rf_branches f) \<le> MAX_REF_PATTERNS \<and> length (rf_tags f) \<le> MAX_REF_PATTERNS"

definition wf_pipeline :: "resource_policy \<Rightarrow> pipeline \<Rightarrow> bool" where
  "wf_pipeline policy p \<longleftrightarrow>
     \<not> triggers_is_empty (pl_on p)
     \<and> pred_option wf_filter (tr_push (pl_on p)) \<and> pred_option wf_filter (tr_pull_request (pl_on p))
     \<and> pred_option wf_filter (tr_tag (pl_on p))
     \<and> pred_option (\<lambda>c. wf_template (cc_group c) \<and> template_min_phase (cc_group c) \<le> Dispatch)
         (pl_concurrency p)
     \<and> pl_jobs p \<noteq> [] \<and> length (pl_jobs p) \<le> MAX_JOBS
     \<and> list_all (\<lambda>(name, j). valid_id name \<and> wf_job policy j) (pl_jobs p)"

lemma read_patterns_ok:
  "read_patterns p n = Inr ps \<Longrightarrow>
   list_all (\<lambda>q. valid_pattern q = Inr ()) ps \<and> length ps \<le> MAX_REF_PATTERNS"
  unfolding read_patterns_def
  by (auto simp: res_simps check_each_ok list_all_length read_list_variants
    dest!: read_list_ok [where P = "\<lambda>_. True"])

lemma paths_field:
  assumes "req_field p es k (string_list MAX_PATHS 256) ps" "list_all ok ps"
  shows "wf_paths ok ps"
  using req_field_pred [OF assms(1), where P = "\<lambda>ps. ps \<noteq> [] \<and> length ps \<le> MAX_PATHS"] assms(2)
  by (auto simp: read_list_variants dest: read_list_ok [where P = "\<lambda>_. True"])

text \<open>What a field of each kind guarantees, as destruction rules on the field predicates.\<close>

lemma field_id: "req_field p es k expect_id x \<Longrightarrow> valid_id x"
  by (rule req_field_pred [OF _ expect_id_ok])

lemma field_condition: "opt_field p es k None (some_of condition) x \<Longrightarrow> pred_option wf_condition x"
  by (rule opt_field_pred_option [OF _ condition_ok])

lemma field_env: "opt_field p es k [] read_env x \<Longrightarrow> wf_env x"
  by (erule opt_field_pred [OF _ _ read_env_ok]) (simp add: wf_env_def)

lemma field_secrets: "opt_field p es k [] secret_names x \<Longrightarrow> wf_secrets x"
  by (erule opt_field_pred [OF _ _ secret_names_ok]) simp

lemma field_secret_files:
  "opt_field p es k [] read_secret_files x \<Longrightarrow> list_all wf_secret_file x \<and> length x \<le> MAX_SECRETS"
  by (erule opt_field_pred [OF _ _ read_secret_files_ok]) simp

lemma field_workdir: "opt_field p es k None (some_of relative_path) x \<Longrightarrow> pred_option valid_relative_path x"
  by (rule opt_field_pred_option [OF _ relative_path_ok])

lemma field_step_timeout: "opt_field p es k None (some_of timeout) x \<Longrightarrow> pred_option timeout_in_bounds x"
  by (rule opt_field_pred_option [OF _ timeout_ok])

lemma field_job_timeout: "opt_field p es k DEFAULT_JOB_TIMEOUT_SECS timeout x \<Longrightarrow> timeout_in_bounds x"
  by (erule opt_field_pred [OF _ _ timeout_ok]) (simp add: DEFAULT_JOB_TIMEOUT_SECS_def MAX_TIMEOUT_SECS_def)

lemma field_string: "req_field p es k (node_str mx) x \<Longrightarrow> x \<noteq> [] \<and> length x \<le> mx"
  by (erule req_field_pred) (simp add: node_str_ok)

lemma field_template: "req_field p es k (read_template mx) x \<Longrightarrow> wf_template x"
  by (rule req_field_pred [OF _ read_template_ok])

lemma field_list:
  "opt_field p es k [] (read_list mx rd) x \<Longrightarrow> (\<And>q n y. rd q n = Inr y \<Longrightarrow> P y)
   \<Longrightarrow> list_all P x \<and> length x \<le> mx"
  by (erule opt_field_pred) (auto dest: read_list_ok [where P = P])

lemma field_list_req:
  "req_field p es k (read_list mx rd) x \<Longrightarrow> (\<And>q n y. rd q n = Inr y \<Longrightarrow> P y)
   \<Longrightarrow> x \<noteq> [] \<and> list_all P x \<and> length x \<le> mx"
  by (erule req_field_pred) (auto dest: read_list_ok [where P = P])

lemmas field_dests = field_id field_condition field_env field_secrets field_secret_files
  field_workdir field_step_timeout field_job_timeout field_string field_template

lemma read_step_wf: "read_step p n = Inr s \<Longrightarrow> wf_step s"
  unfolding read_step_fields wf_step_def by (blast dest: field_dests)

lemma read_cache_wf: "read_cache p n = Inr c \<Longrightarrow> wf_cache c"
  unfolding read_cache_fields wf_cache_def check_paths_ok by (blast dest: field_dests paths_field)

lemma read_retain_ok: "read_retain p n = Inr t \<Longrightarrow> \<exists>d\<in>{1..365}. t = d * 24 * 3600"
  by (fastforce simp: read_retain_def res_simps split: option.splits if_splits)

lemma field_retain:
  "opt_field p es k (7 * 24 * 3600) read_retain t \<Longrightarrow> \<exists>d\<in>{1..365}. t = d * 24 * 3600"
  by (erule opt_field_pred [OF _ _ read_retain_ok]) force

lemma read_artifact_wf: "read_artifact p n = Inr a \<Longrightarrow> wf_artifact a"
  unfolding read_artifact_fields wf_artifact_def check_paths_ok
  by (blast dest: field_dests paths_field field_retain)

lemma read_labels_ok: "read_labels p n = Inr ls \<Longrightarrow> list_all valid_id ls \<and> length ls \<le> MAX_LABELS"
  by (auto simp: read_labels_def res_simps check_paths_ok read_list_variants
    dest: read_list_ok [where P = "\<lambda>_. True"])

lemma field_labels: "opt_field p es k [] read_labels x \<Longrightarrow> list_all valid_id x \<and> length x \<le> MAX_LABELS"
  by (erule opt_field_pred [OF _ _ read_labels_ok]) simp

lemma check_isolation_ok:
  "check_isolation p os isn = Inr u \<longleftrightarrow>
   (isn = Some Native \<longrightarrow> os = Some Windows) \<and> (isn = Some Container \<longrightarrow> os \<noteq> Some Windows)"
  by (auto simp: check_isolation_def Let_def)

lemma read_runs_on_wf: "read_runs_on p n = Inr r \<Longrightarrow> wf_runs_on r"
  unfolding read_runs_on_fields wf_runs_on_def check_isolation_ok by (blast dest: field_labels)

lemma field_runs_on: "opt_field p es k runs_on_default read_runs_on x \<Longrightarrow> wf_runs_on x"
  by (erule opt_field_pred [OF _ _ read_runs_on_wf]) (simp add: runs_on_default_def wf_runs_on_def)

lemma check_step_secret_ok:
  "check_step_secret p secrets env s name = Inr u \<longleftrightarrow>
   name \<in> set secrets \<and> name \<noteq> ''CI'' \<and> \<not> prefix ''SENTINEL_'' name
   \<and> name \<notin> fst ` set env \<and> name \<notin> fst ` set (st_env s)"
  unfolding check_step_secret_def job_env_has_name_def list_ex_iff if_error_eq
  by (auto simp: case_prod_beta image_iff)

lemma check_step_files_ok:
  "check_step_files p s = Inr u \<longleftrightarrow>
   sorted_wrt (\<lambda>f g. \<not> paths_overlap (sf_path f) (sf_path g)) (st_secret_files s)"
proof -
  have "check_step_files p s = Inr u \<longleftrightarrow> (\<forall>i<length (st_secret_files s).
      \<forall>f\<in>set (take i (st_secret_files s)). \<not> paths_overlap (sf_path f) (sf_path (st_secret_files s ! i)))"
    unfolding check_step_files_def check_each_ok list_ex_iff if_error_eq by simp
  also have "\<dots> \<longleftrightarrow> sorted_wrt (\<lambda>f g. \<not> paths_overlap (sf_path f) (sf_path g)) (st_secret_files s)"
    unfolding sorted_wrt_iff_nth_less all_set_conv_all_nth by auto
  finally show ?thesis .
qed

lemma check_step_ok:
  "res_bind (check_each 0 (\<lambda>_. check_step_secret p (jb_secrets j) (jb_env j) s)
       (st_secrets s @ map sf_name (st_secret_files s))) (\<lambda>_. check_step_files p s) = Inr ()
   \<longleftrightarrow> secrets_separate j s"
  unfolding res_bind_eq_Inr check_each_const check_step_secret_ok check_step_files_ok secrets_separate_def
  by simp

lemma check_steps_ok:
  "check_steps p (jb_secrets j) (jb_env j) (jb_steps j) = Inr u \<longleftrightarrow>
   list_all (secrets_separate j) (jb_steps j)"
  unfolding check_steps_def Let_def check_each_ok check_step_ok list_all_length by simp

lemma read_resources_wf:
  "in_range policy (rp_default policy) \<Longrightarrow> read_resources policy p n = Inr r \<Longrightarrow> in_range policy r"
proof (cases n)
  case None
  then show "read_resources policy p n = Inr r \<Longrightarrow> in_range policy (rp_default policy) \<Longrightarrow> ?thesis"
    by (simp add: read_resources_def)
qed (auto simp: read_resources_fields)

lemma read_image_ok: "read_image p n = Inr s \<Longrightarrow> valid_image s"
  by (auto simp: read_image_def res_simps)

lemma field_image: "req_field p es k read_image x \<Longrightarrow> valid_image x"
  by (rule req_field_pred [OF _ read_image_ok])

lemma field_needs: "opt_field p es k [] read_needs x \<Longrightarrow> list_all valid_id x \<and> length x \<le> MAX_NEEDS"
  unfolding read_list_variants by (rule field_list [OF _ expect_id_ok])

lemma read_job_wf:
  "in_range policy (rp_default policy) \<Longrightarrow> read_job policy p n = Inr j \<Longrightarrow> wf_job policy j"
  unfolding read_job_fields wf_job_def check_steps_ok
  by (elim exE conjE)
    (simp add: field_image field_needs field_runs_on read_resources_wf [of policy] field_dests
      field_list_req [OF _ read_step_wf] field_list [OF _ read_cache_wf] field_list [OF _ read_artifact_wf])

lemma with_patterns_wf:
  "list_all (\<lambda>q. valid_pattern q = Inr ()) ps \<and> length ps \<le> MAX_REF_PATTERNS \<Longrightarrow> wf_filter (with_patterns k ps)"
  by (cases k) (simp_all add: wf_filter_def ref_filter_default_def)

lemma wf_filter_default: "wf_filter ref_filter_default"
  by (simp add: wf_filter_def ref_filter_default_def)

lemma read_ref_filter_wf: "read_ref_filter k p n = Inr f \<Longrightarrow> wf_filter f"
proof (cases "n = N_Null")
  case False
  assume "read_ref_filter k p n = Inr f"
  then obtain es where "opt_field p es (accepted_key k) ref_filter_default
      (\<lambda>p n. res_map (with_patterns k) (read_patterns p n)) f"
    using read_ref_filter_fields [OF False, of k p f] by auto
  then show ?thesis
    by (rule opt_field_pred)
      (auto simp: wf_filter_default res_simps intro: with_patterns_wf dest: read_patterns_ok)
qed (simp add: read_ref_filter_def wf_filter_default)

definition wf_triggers :: "triggers \<Rightarrow> bool" where
  "wf_triggers t \<longleftrightarrow> pred_option wf_filter (tr_push t) \<and> pred_option wf_filter (tr_pull_request t)
     \<and> pred_option wf_filter (tr_tag t)"

lemma triggers_from_wf:
  "triggers_from p i items t = Inr t' \<Longrightarrow> wf_triggers t \<Longrightarrow> items \<noteq> [] \<or> \<not> triggers_is_empty t
   \<Longrightarrow> wf_triggers t' \<and> \<not> triggers_is_empty t'"
proof (induction p i items t rule: triggers_from.induct)
  case (2 p i item rest t)
  obtain kind where "node_str 16 (index_path p i) item = Inr kind"
    using "2.prems"(1) by (auto simp: Let_def res_bind_eq_Inr)
  with 2 show ?case
    by (simp add: Let_def res_simps wf_triggers_def triggers_is_empty_def wf_filter_default split: if_splits)
qed simp

lemma field_filter: "opt_field p es k None (some_of (read_ref_filter kd)) x \<Longrightarrow> pred_option wf_filter x"
  by (rule opt_field_pred_option [OF _ read_ref_filter_wf])

lemma triggers_of_map_wf: "triggers_of_map p n = Inr t \<Longrightarrow> wf_triggers t \<and> \<not> triggers_is_empty t"
  unfolding triggers_of_map_fields wf_triggers_def by (blast dest: field_filter)

lemma parse_triggers_wf: "parse_triggers p n = Inr t \<Longrightarrow> wf_triggers t \<and> \<not> triggers_is_empty t"
  by (cases n)
    (auto simp: parse_triggers_def triggers_default_def wf_triggers_def
      dest: triggers_from_wf triggers_of_map_wf split: if_splits)

lemma traverse_from_each:
  "traverse_from i f xs = Inr ys \<Longrightarrow> x \<in> set xs \<Longrightarrow> \<exists>j y. f j x = Inr y"
  by (induction xs arbitrary: i ys) (auto simp: res_simps)

lemma read_jobs_fields:
  "read_jobs policy p n = Inr js \<longleftrightarrow> (\<exists>es. n = N_Map es \<and> es \<noteq> [] \<and> length es \<le> MAX_JOBS
     \<and> traverse_from 0 (\<lambda>_. read_job_entry policy) es = Inr js)"
  unfolding read_jobs_def by (auto simp: reader_simps if_error_eq MAX_JOBS_def)

lemma read_job_entry_ok:
  "read_job_entry policy (name, n) = Inr (name', j) \<longleftrightarrow>
   name' = name \<and> valid_id name \<and> read_job policy (''jobs.'' @ name) n = Inr j"
  by (auto simp: read_job_entry_def Let_def res_simps)

lemma decode_wf:
  assumes "in_range policy (rp_default policy)" "decode policy root = Inr p"
  shows "wf_pipeline policy p"
proof -
  obtain es where on: "req_field [] es ''on'' parse_triggers (pl_on p)"
    and cc: "opt_field [] es ''concurrency'' None (some_of read_concurrency) (pl_concurrency p)"
    and js: "req_field [] es ''jobs'' (read_jobs policy) (pl_jobs p)"
    using assms(2) unfolding decode_fields by blast
  have "wf_triggers (pl_on p) \<and> \<not> triggers_is_empty (pl_on p)"
    by (rule req_field_pred [OF on parse_triggers_wf])
  moreover have "pred_option (\<lambda>c. wf_template (cc_group c) \<and> template_min_phase (cc_group c) \<le> Dispatch)
      (pl_concurrency p)"
    by (rule opt_field_pred_option [OF cc]) (auto simp: read_concurrency_fields dest: field_template)
  moreover have "pl_jobs p \<noteq> [] \<and> length (pl_jobs p) \<le> MAX_JOBS
      \<and> list_all (\<lambda>(name, j). valid_id name \<and> wf_job policy j) (pl_jobs p)"
  proof (rule req_field_pred [OF js])
    fix q n jobs
    assume "read_jobs policy q n = Inr jobs"
    then obtain es' where es': "es' \<noteq> []" "length es' \<le> MAX_JOBS"
      and t: "traverse_from 0 (\<lambda>_. read_job_entry policy) es' = Inr jobs"
      unfolding read_jobs_fields by blast
    have "case nj of (name, j) \<Rightarrow> valid_id name \<and> wf_job policy j" if "nj \<in> set jobs" for nj
      by (rule traverse_from_all [OF t _ that])
        (use read_job_wf [OF assms(1)] in \<open>auto simp: read_job_entry_ok split: prod.splits\<close>)
    with es' traverse_from_Inr_length [OF t] show "jobs \<noteq> [] \<and> length jobs \<le> MAX_JOBS
        \<and> list_all (\<lambda>(name, j). valid_id name \<and> wf_job policy j) jobs"
      by (auto simp: list_all_iff)
  qed
  ultimately show ?thesis by (simp add: wf_pipeline_def wf_triggers_def)
qed

definition keyed :: "string list \<Rightarrow> node \<Rightarrow> bool" where
  "keyed ks n \<longleftrightarrow> (\<exists>es. n = N_Map es \<and> only_keys ks es)"

definition each_keyed :: "string list \<Rightarrow> node \<Rightarrow> bool" where
  "each_keyed ks n \<longleftrightarrow> (\<exists>xs. n = N_Seq xs \<and> list_all (keyed ks) xs)"

definition known_job :: "node \<Rightarrow> bool" where
  "known_job n \<longleftrightarrow> (\<exists>es. n = N_Map es
     \<and> only_keys [''artifacts'', ''registry_auth'', ''secrets'', ''cache'', ''steps'', ''workdir'',
         ''env'', ''timeout'', ''resources'', ''runs_on'', ''if'', ''needs'', ''image''] es
     \<and> pred_option (keyed [''isolation'', ''os'', ''labels'', ''arch'']) (map_of es ''runs_on'')
     \<and> pred_option (keyed [''disk'', ''memory'', ''cpu'']) (map_of es ''resources'')
     \<and> pred_option (each_keyed [''timeout'', ''workdir'', ''secret_files'', ''secrets'', ''env'', ''shell'',
         ''if'', ''run'', ''id'']) (map_of es ''steps'')
     \<and> pred_option (each_keyed [''paths'', ''key'', ''class'', ''name'']) (map_of es ''cache'')
     \<and> pred_option (each_keyed [''required'', ''retain'', ''when'', ''paths'', ''name''])
         (map_of es ''artifacts''))"

definition known_document :: "node \<Rightarrow> bool" where
  "known_document n \<longleftrightarrow> (\<exists>es jobs. n = N_Map es
     \<and> only_keys [''jobs'', ''concurrency'', ''on'', ''schema''] es
     \<and> pred_option (keyed [''cancel_in_progress'', ''group'']) (map_of es ''concurrency'')
     \<and> map_of es ''jobs'' = Some (N_Map jobs) \<and> list_all (\<lambda>(_, j). known_job j) jobs)"

lemma read_list_each:
  assumes "read_list mx rd p n = Inr ys" and "\<And>q m y. rd q m = Inr y \<Longrightarrow> keyed ks m"
  shows "each_keyed ks n"
proof -
  obtain xs where xs: "n = N_Seq xs" and t: "traverse_from 0 (\<lambda>i item. rd (index_path p i) item) xs = Inr ys"
    using assms(1) by (auto simp: read_list_def res_bind_eq_Inr node_seq_ok)
  have "keyed ks x" if "x \<in> set xs" for x
    using traverse_from_each [OF t that] assms(2) by blast
  with xs show ?thesis by (auto simp: each_keyed_def list_all_iff)
qed

lemma opt_field_node:
  "opt_field p es k d rd x \<Longrightarrow> (\<And>q n y. rd q n = Inr y \<Longrightarrow> P n) \<Longrightarrow> pred_option P (map_of es k)"
  by (auto simp: opt_field_def option.pred_set split: option.splits)

lemma req_field_node:
  "req_field p es k rd x \<Longrightarrow> (\<And>q n y. rd q n = Inr y \<Longrightarrow> P n) \<Longrightarrow> pred_option P (map_of es k)"
  by (auto simp: req_field_def)

lemma some_of_node: "(\<And>q n y. rd q n = Inr y \<Longrightarrow> P n) \<Longrightarrow> some_of rd q n = Inr y \<Longrightarrow> P n"
  by (auto simp: res_map_eq_Inr)

lemma decoder_keys:
  "read_step p n = Inr s \<Longrightarrow> keyed [''timeout'', ''workdir'', ''secret_files'', ''secrets'', ''env'', ''shell'',
     ''if'', ''run'', ''id''] n"
  "read_cache p n = Inr c \<Longrightarrow> keyed [''paths'', ''key'', ''class'', ''name''] n"
  "read_artifact p n = Inr a \<Longrightarrow> keyed [''required'', ''retain'', ''when'', ''paths'', ''name''] n"
  "read_runs_on p n = Inr r \<Longrightarrow> keyed [''isolation'', ''os'', ''labels'', ''arch''] n"
  "read_resources policy p (Some n) = Inr r' \<Longrightarrow> keyed [''disk'', ''memory'', ''cpu''] n"
  "read_concurrency p n = Inr cc \<Longrightarrow> keyed [''cancel_in_progress'', ''group''] n"
  unfolding read_step_fields read_cache_fields read_artifact_fields read_runs_on_fields
    read_resources_fields read_concurrency_fields keyed_def by blast+

lemma read_job_keys: "read_job policy p n = Inr j \<Longrightarrow> known_job n"
  unfolding read_job_fields known_job_def
  apply (elim exE conjE)
  apply (intro exI conjI, assumption, assumption)
      apply (erule opt_field_node, erule decoder_keys)
     apply (auto simp: option.pred_set dest: decoder_keys(5))[]
    apply (erule req_field_node, erule read_list_each, erule decoder_keys)
   apply (erule opt_field_node, erule read_list_each, erule decoder_keys)+
  done
lemma decode_known: "decode policy root = Inr p \<Longrightarrow> known_document root"
proof -
  assume "decode policy root = Inr p"
  then obtain es where root: "root = N_Map es" "only_keys [''jobs'', ''concurrency'', ''on'', ''schema''] es"
    and cc: "opt_field [] es ''concurrency'' None (some_of read_concurrency) (pl_concurrency p)"
    and js: "req_field [] es ''jobs'' (read_jobs policy) (pl_jobs p)"
    unfolding decode_fields by blast
  have "pred_option (keyed [''cancel_in_progress'', ''group'']) (map_of es ''concurrency'')"
    by (rule opt_field_node [OF cc]) (erule some_of_node [rotated], erule decoder_keys)
  moreover obtain jobs jl where jobs: "map_of es ''jobs'' = Some (N_Map jobs)"
    and t: "traverse_from 0 (\<lambda>_. read_job_entry policy) jobs = Inr jl"
    using js by (auto simp: req_field_def read_jobs_fields)
  moreover have "known_job j" if "(name, j) \<in> set jobs" for name j
    using traverse_from_each [OF t that] by (auto simp: read_job_entry_ok dest: read_job_keys)
  ultimately show ?thesis using root by (fastforce simp: known_document_def list_all_iff)
qed

text \<open>An example document, the pipeline it decodes to, and the same document with a misspelt key.\<close>

definition example_job :: "(string \<times> node) list \<Rightarrow> node" where
  "example_job extra = N_Map ([(''image'', N_Str ''alpine''), (''timeout'', N_Str ''1h30m''),
     (''steps'', N_Seq [N_Map [(''id'', N_Str ''t''), (''run'', N_Str ''make'')]])] @ extra)"

definition example_document :: "(string \<times> node) list \<Rightarrow> node" where
  "example_document extra = N_Map [(''schema'', N_Int 1), (''on'', N_Seq [N_Str ''push'']),
     (''jobs'', N_Map [(''build'', example_job extra)])]"

definition example_pipeline :: pipeline where
  "example_pipeline = \<lparr>pl_on = triggers_default\<lparr>tr_push := Some ref_filter_default\<rparr>,
     pl_concurrency = None,
     pl_jobs = [(''build'',
       \<lparr>jb_image = ''alpine'', jb_needs = [], jb_condition = None, jb_runs_on = runs_on_default,
        jb_resources = rp_default POLICY_DEFAULT, jb_timeout_secs = 5400, jb_env = [],
        jb_workdir = None,
        jb_steps = [\<lparr>st_id = ''t'', st_run = ''make'', st_condition = None, st_shell = Sh, st_env = [],
          st_secrets = [], st_secret_files = [], st_workdir = None, st_timeout_secs = None\<rparr>],
        jb_cache = [], jb_artifacts = [], jb_secrets = [], jb_registry_auth = None\<rparr>)]\<rparr>"

lemma policy_default_in_range: "in_range POLICY_DEFAULT (rp_default POLICY_DEFAULT)"
  by (simp add: in_range_def POLICY_DEFAULT_def)

lemmas example_eval = only_keys_def req_field_def opt_field_def child_path_def node_str_ok expect_id_def
  res_bind_eq_Inr valid_id_def byte_class_defs less_eq_char_def MAX_ID_BYTES_def MAX_RUN_BYTES_def

lemma parse_duration_example: "parse_duration_secs ''1h30m'' = Some 5400"
  by (simp add: parse_duration_secs_def checked_u64_def byte_class_defs less_eq_char_def digit_val_def
    unit_secs_def)

lemma timeout_example: "timeout p (N_Str ''1h30m'') = Inr 5400"
  unfolding timeout_def by (simp add: node_str_def parse_duration_example MAX_TIMEOUT_SECS_def)

lemma read_step_example:
  "read_step p (N_Map [(''id'', N_Str ''t''), (''run'', N_Str ''make'')]) =
   Inr \<lparr>st_id = ''t'', st_run = ''make'', st_condition = None, st_shell = Sh, st_env = [],
          st_secrets = [], st_secret_files = [], st_workdir = None, st_timeout_secs = None\<rparr>"
  unfolding read_step_fields by (simp add: example_eval)

lemma read_job_example:
  "read_job POLICY_DEFAULT p (example_job []) = Inr (snd (hd (pl_jobs example_pipeline)))"
  unfolding read_job_fields example_job_def example_pipeline_def
  by (simp add: example_eval read_image_def valid_image_def read_list_def node_seq_def
    MAX_STEPS_PER_JOB_def read_step_example timeout_example check_steps_def
    read_resources_def if_error_eq check_step_files_def)

lemma decode_example: "decode POLICY_DEFAULT (example_document []) = Inr example_pipeline"
  unfolding decode_fields example_document_def
  by (simp add: example_eval read_jobs_def marked.simps(1) [symmetric] read_job_entry_def read_job_example
    parse_triggers_def triggers_default_def SCHEMA_VERSION_def MAX_JOBS_def node_str_def)
    (simp add: example_pipeline_def triggers_default_def)

subsection \<open>Properties\<close>

text \<open>
  C13: every pipeline the decoder accepts is well formed. It has a trigger, 1 to 64 jobs with valid
  names, and each job has a printable image, 1 to 64 steps, resources inside the policy, timeouts of
  at most a day, conditions that parse and type-check, normalised paths, and secrets that are
  declared by the job, distinct from every variable, and delivered to files that do not overlap.
  The policy's own default must lie in its range, since the decoder returns it unchecked.
\<close>

theorem decoded_pipeline_is_well_formed:
  "in_range policy (rp_default policy) \<Longrightarrow> decode policy root = Inr p \<Longrightarrow> wf_pipeline policy p"
  by (rule decode_wf)

theorem decoded_pipeline_is_well_formed_witness:
  "decode POLICY_DEFAULT (example_document []) = Inr example_pipeline
   \<and> wf_pipeline POLICY_DEFAULT example_pipeline"
  using decoded_pipeline_is_well_formed [OF policy_default_in_range decode_example] decode_example by simp

text \<open>
  C17: the decoder refuses every document with a key it does not know or with a key given twice, in
  the root mapping, in \<open>concurrency\<close>, in any job, and in the steps, caches, artifacts, placement and
  resources of any job.
\<close>

theorem unknown_keys_are_refused:
  "\<not> known_document root \<Longrightarrow> \<exists>e. decode policy root = Inl e"
proof -
  assume "\<not> known_document root"
  then have "decode policy root \<noteq> Inr p" for p using decode_known by blast
  then show ?thesis by (cases "decode policy root") auto
qed

theorem unknown_keys_are_refused_witness:
  "known_document (example_document [])
   \<and> (\<exists>e. decode POLICY_DEFAULT (example_document [(''time_out'', N_Str ''1h'')]) = Inl e)"
proof -
  have "\<not> known_document (example_document [(''time_out'', N_Str ''1h'')])"
    by (simp add: known_document_def example_document_def known_job_def example_job_def only_keys_def)
  from unknown_keys_are_refused [OF this] decode_known [OF decode_example] show ?thesis by blast
qed

end
