(* ===== verification/Schema_Duration.thy ===== *)
theory Schema_Duration
  imports Schema_Reader
begin

text \<open>
  Durations of the pipeline schema: \<open>parse_duration_secs\<close> against a declarative reading of the text
  as groups of digits with a unit.
\<close>

subsection \<open>Groups\<close>

abbreviation accum :: "nat \<Rightarrow> string \<Rightarrow> nat" where
  "accum \<equiv> foldl (\<lambda>a c. 10 * a + digit_val c)"

definition duration_groups :: "(string \<times> char) list \<Rightarrow> bool" where
  "duration_groups gs \<longleftrightarrow> (\<forall>(ds, u)\<in>set gs. ds \<noteq> [] \<and> list_all is_digit ds \<and> u \<in> {CHR ''s'', CHR ''m'', CHR ''h''})"

definition groups_text :: "(string \<times> char) list \<Rightarrow> string" where
  "groups_text gs = concat (map (\<lambda>(ds, u). ds @ [u]) gs)"

definition groups_secs :: "(string \<times> char) list \<Rightarrow> nat" where
  "groups_secs gs = sum_list (map (\<lambda>(ds, u). digits_val ds * unit_secs u) gs)"

lemma groups_simps [simp]:
  "duration_groups []" "groups_text [] = []" "groups_secs [] = 0"
  "duration_groups ((ds, u) # gs) \<longleftrightarrow>
     ds \<noteq> [] \<and> list_all is_digit ds \<and> u \<in> {CHR ''s'', CHR ''m'', CHR ''h''} \<and> duration_groups gs"
  "groups_text ((ds, u) # gs) = ds @ u # groups_text gs"
  "groups_secs ((ds, u) # gs) = digits_val ds * unit_secs u + groups_secs gs"
  by (simp_all add: duration_groups_def groups_text_def groups_secs_def)

lemma unit_not_digit: "u \<in> {CHR ''s'', CHR ''m'', CHR ''h''} \<Longrightarrow> \<not> is_digit u"
  by (auto simp: is_digit_def less_eq_char_def)

lemma unit_secs_pos: "0 < unit_secs u"
  by (simp add: unit_secs_def)

lemma accum_ge: "num \<le> accum num ds"
proof (induction ds arbitrary: num)
  case (Cons d ds)
  from Cons [of "10 * num + digit_val d"] show ?case by simp
qed simp

text \<open>Inside a group whose digits so far have the value \<open>num\<close>, and between two groups.\<close>

definition in_group :: "nat \<Rightarrow> nat \<Rightarrow> string \<Rightarrow> nat \<Rightarrow> bool" where
  "in_group tot num s t \<longleftrightarrow> (\<exists>ds u gs. list_all is_digit ds \<and> u \<in> {CHR ''s'', CHR ''m'', CHR ''h''} \<and> duration_groups gs
     \<and> s = ds @ u # groups_text gs \<and> t = tot + accum num ds * unit_secs u + groups_secs gs \<and> t < 2 ^ 64)"

definition at_group :: "nat \<Rightarrow> bool \<Rightarrow> string \<Rightarrow> nat \<Rightarrow> bool" where
  "at_group tot any s t \<longleftrightarrow> (\<exists>gs. duration_groups gs \<and> (any \<or> gs \<noteq> []) \<and> s = groups_text gs
     \<and> t = tot + groups_secs gs \<and> t < 2 ^ 64)"

lemma in_group_digit:
  assumes "is_digit c"
  shows "in_group tot num (c # s) t \<longleftrightarrow> in_group tot (num * 10 + digit_val c) s t"
proof
  assume "in_group tot num (c # s) t"
  then obtain ds u gs where g: "list_all is_digit ds" "u \<in> {CHR ''s'', CHR ''m'', CHR ''h''}" "duration_groups gs"
    "c # s = ds @ u # groups_text gs" "t = tot + accum num ds * unit_secs u + groups_secs gs" "t < 2 ^ 64"
    unfolding in_group_def by blast
  then obtain ds' where "ds = c # ds'" using assms unit_not_digit by (cases ds) auto
  with g show "in_group tot (num * 10 + digit_val c) s t"
    unfolding in_group_def
    by (intro exI [of _ ds'] exI [of _ u] exI [of _ gs]) (auto simp: mult.commute)
next
  assume "in_group tot (num * 10 + digit_val c) s t"
  then obtain ds u gs where "list_all is_digit ds" "u \<in> {CHR ''s'', CHR ''m'', CHR ''h''}" "duration_groups gs"
    "s = ds @ u # groups_text gs"
    "t = tot + accum (num * 10 + digit_val c) ds * unit_secs u + groups_secs gs" "t < 2 ^ 64"
    unfolding in_group_def by blast
  with assms show "in_group tot num (c # s) t"
    unfolding in_group_def
    by (intro exI [of _ "c # ds"] exI [of _ u] exI [of _ gs]) (auto simp: mult.commute)
qed

lemma in_group_other:
  assumes "\<not> is_digit c"
  shows "in_group tot num (c # s) t \<longleftrightarrow>
    c \<in> {CHR ''s'', CHR ''m'', CHR ''h''} \<and> at_group (tot + num * unit_secs c) True s t"
proof
  assume "in_group tot num (c # s) t"
  then obtain ds u gs where g: "list_all is_digit ds" "u \<in> {CHR ''s'', CHR ''m'', CHR ''h''}" "duration_groups gs"
    "c # s = ds @ u # groups_text gs" "t = tot + accum num ds * unit_secs u + groups_secs gs" "t < 2 ^ 64"
    unfolding in_group_def by blast
  then have "ds = []" using assms by (cases ds) auto
  with g show "c \<in> {CHR ''s'', CHR ''m'', CHR ''h''} \<and> at_group (tot + num * unit_secs c) True s t"
    unfolding at_group_def by simp blast
next
  assume "c \<in> {CHR ''s'', CHR ''m'', CHR ''h''} \<and> at_group (tot + num * unit_secs c) True s t"
  then obtain gs where "c \<in> {CHR ''s'', CHR ''m'', CHR ''h''}" "duration_groups gs" "s = groups_text gs"
    "t = tot + num * unit_secs c + groups_secs gs" "t < 2 ^ 64"
    unfolding at_group_def by blast
  then show "in_group tot num (c # s) t"
    unfolding in_group_def by (intro exI [of _ "[]"] exI [of _ c] exI [of _ gs]) simp
qed

lemma at_group_Nil: "at_group tot any [] t \<longleftrightarrow> any \<and> t = tot \<and> t < 2 ^ 64"
proof
  assume "at_group tot any [] t"
  then obtain gs where g: "any \<or> gs \<noteq> []" "[] = groups_text gs" "t = tot + groups_secs gs" "t < 2 ^ 64"
    unfolding at_group_def by blast
  then have "gs = []" by (cases gs) auto
  with g show "any \<and> t = tot \<and> t < 2 ^ 64" by simp
next
  assume "any \<and> t = tot \<and> t < 2 ^ 64"
  then show "at_group tot any [] t" unfolding at_group_def by (intro exI [of _ "[]"]) simp
qed

lemma at_group_Cons:
  "at_group tot any (c # s) t \<longleftrightarrow> is_digit c \<and> in_group tot (digit_val c) s t"
proof
  assume "at_group tot any (c # s) t"
  then obtain gs where g: "duration_groups gs" "c # s = groups_text gs" "t = tot + groups_secs gs" "t < 2 ^ 64"
    unfolding at_group_def by blast
  then obtain ds u gs' where gs: "gs = (ds, u) # gs'" by (cases gs) auto
  with g obtain ds' where "ds = c # ds'" by (cases ds) auto
  with g gs show "is_digit c \<and> in_group tot (digit_val c) s t"
    unfolding in_group_def
    by (intro conjI exI [of _ ds'] exI [of _ u] exI [of _ gs']) (simp_all add: digits_val_def)
next
  assume "is_digit c \<and> in_group tot (digit_val c) s t"
  then obtain ds u gs where "is_digit c" "list_all is_digit ds" "u \<in> {CHR ''s'', CHR ''m'', CHR ''h''}"
    "duration_groups gs" "s = ds @ u # groups_text gs"
    "t = tot + accum (digit_val c) ds * unit_secs u + groups_secs gs" "t < 2 ^ 64"
    unfolding in_group_def by blast
  then show "at_group tot any (c # s) t"
    unfolding at_group_def by (intro exI [of _ "(c # ds, u) # gs"]) (simp add: digits_val_def)
qed

lemma in_group_bound: "in_group tot num s t \<Longrightarrow> tot + num \<le> t \<and> t < 2 ^ 64"
proof -
  assume "in_group tot num s t"
  then obtain ds u gs where t: "t = tot + accum num ds * unit_secs u + groups_secs gs" "t < 2 ^ 64"
    unfolding in_group_def by blast
  have "accum num ds * 1 \<le> accum num ds * unit_secs u"
    using unit_secs_pos [of u] by (intro mult_le_mono2) simp
  with accum_ge [of num ds] t show ?thesis by linarith
qed

lemma at_group_bound: "at_group tot any s t \<Longrightarrow> tot \<le> t \<and> t < 2 ^ 64"
  by (auto simp: at_group_def)

lemma duration_from_spec:
  "tot < 2 ^ 64 \<Longrightarrow> duration_from s tot num True any = Some t \<longleftrightarrow> in_group tot num s t"
  "tot < 2 ^ 64 \<Longrightarrow> duration_from s tot 0 False any = Some t \<longleftrightarrow> at_group tot any s t"
proof (induction s arbitrary: tot num any)
  case Nil
  { case 1 then show ?case by (simp add: in_group_def) }
  { case 2 then show ?case by (auto simp: at_group_Nil) }
next
  case (Cons c s)
  { case 1
    show ?case
    proof (cases "is_digit c")
      case True
      show ?thesis
      proof (cases "num * 10 + digit_val c < 2 ^ 64")
        case in_bounds: True
        with 1 True Cons.IH(1) [of tot "num * 10 + digit_val c" any] show ?thesis
          by (simp add: checked_u64_def in_group_digit)
      next
        case False
        then have "\<not> in_group tot (num * 10 + digit_val c) s t" using in_group_bound by force
        with False True show ?thesis by (simp add: checked_u64_def in_group_digit)
      qed
    next
      case False
      show ?thesis
      proof (cases "tot + num * unit_secs c < 2 ^ 64")
        case True
        with False Cons.IH(2) [of "tot + num * unit_secs c" True] show ?thesis
          by (simp add: checked_u64_def in_group_other)
      next
        case over: False
        then have "\<not> at_group (tot + num * unit_secs c) True s t" using at_group_bound by force
        with over False show ?thesis
          by (cases "num * unit_secs c < 2 ^ 64") (simp_all add: checked_u64_def in_group_other del: insert_iff)
      qed
    qed }
  { case 2
    show ?case
    proof (cases "digit_val c < 2 ^ 64")
      case True
      with 2 Cons.IH(1) [of tot "digit_val c" any] show ?thesis
        by (simp add: checked_u64_def at_group_Cons)
    next
      case False
      then have "\<not> in_group tot (digit_val c) s t" using in_group_bound by force
      with False show ?thesis by (simp add: checked_u64_def at_group_Cons)
    qed }
qed

subsection \<open>Property\<close>

text \<open>
  A duration text is read as one or more groups of decimal digits with a unit of seconds,
  minutes or hours. Exactly the texts of that form whose value fits in 64 bits are accepted, and
  the value is the sum of the groups; an intermediate overflow never rejects a text that fits.
\<close>

theorem duration_text_meaning:
  "parse_duration_secs s = Some t \<longleftrightarrow>
   (\<exists>gs. gs \<noteq> [] \<and> duration_groups gs \<and> s = groups_text gs \<and> t = groups_secs gs \<and> t < 2 ^ 64)"
proof -
  have "parse_duration_secs s = Some t \<longleftrightarrow> at_group 0 False s t"
    unfolding parse_duration_secs_def by (rule duration_from_spec(2)) simp
  then show ?thesis by (auto simp: at_group_def)
qed

end
