(* ===== verification/Pipeline_Compile.thy ===== *)
theory Pipeline_Compile
  imports Schema_Decode
begin

text \<open>
  Compilation of a decoded pipeline (\<open>crates/sentinel-pipeline/src/compile.rs\<close>): the checks of
  each job, the resolution of dependency names, the topological order with the smallest ready
  name first, and the digest of the compiled form.

  Job indices are \<open>u16\<close> in the source and naturals here; a decoded pipeline has at most 64 jobs, so
  the casts are the identity. The source finds a dependency by binary search in the sorted job
  list; with the distinct job names of a loaded document that is the one position of the name.
  The work-list loop is a partial function whose value \<open>None\<close> means that it does not return, and
  \<open>compile\<close> is \<open>None\<close> if the loop does not return or the final \<open>expect("placed")\<close> would panic.
\<close>

subsection \<open>Data\<close>

definition MAX_STEPS_TOTAL :: nat where "MAX_STEPS_TOTAL = 1024"

record compiled_job =
  cj_name :: string
  cj_needs :: "nat list"
  cj_spec :: job

record compiled_pipeline =
  cp_on :: triggers
  cp_concurrency :: "concurrency option"
  cp_jobs :: "compiled_job list"
  cp_digest :: u128

datatype compile_error =
    CE_UnknownDependency string string
  | CE_SelfDependency string
  | CE_DuplicateDependency string string
  | CE_Cycle "string list"
  | CE_DuplicateStepId string string
  | CE_DuplicateCacheName string string
  | CE_DuplicateArtifactName string string
  | CE_StepTimeoutExceedsJob string string
  | CE_TooManySteps nat
  | CE_Expression string string
  | CE_Encoding

fun compile_error_display :: "compile_error \<Rightarrow> string" where
  "compile_error_display (CE_UnknownDependency job needs) =
     ''jobs.'' @ job @ ''.needs: `'' @ needs @ ''` is not a job''"
| "compile_error_display (CE_SelfDependency job) = ''jobs.'' @ job @ ''.needs: job depends on itself''"
| "compile_error_display (CE_DuplicateDependency job needs) =
     ''jobs.'' @ job @ ''.needs: `'' @ needs @ ''` listed twice''"
| "compile_error_display (CE_Cycle jobs) =
     ''jobs: dependency cycle through '' @ join_with '' -> '' jobs"
| "compile_error_display (CE_DuplicateStepId job step) =
     ''jobs.'' @ job @ ''.steps: duplicate step id `'' @ step @ ''`''"
| "compile_error_display (CE_DuplicateCacheName job name) =
     ''jobs.'' @ job @ ''.cache: duplicate cache name `'' @ name @ ''`''"
| "compile_error_display (CE_DuplicateArtifactName job name) =
     ''jobs.'' @ job @ ''.artifacts: duplicate artifact name `'' @ name @ ''`''"
| "compile_error_display (CE_StepTimeoutExceedsJob job step) =
     ''jobs.'' @ job @ ''.steps.'' @ step @ ''.timeout: exceeds the job timeout''"
| "compile_error_display (CE_TooManySteps limit) =
     ''jobs: more than '' @ dec_nat limit @ '' steps in total''"
| "compile_error_display (CE_Expression path message) = path @ '': '' @ message"
| "compile_error_display CE_Encoding = ''jobs: cannot encode the canonical form for the digest''"

subsection \<open>Checks of one job\<close>

definition check_refs :: "string \<Rightarrow> string list \<Rightarrow> string list \<Rightarrow> compile_error + unit" where
  "check_refs path refs needs =
     (case find (\<lambda>r. r \<notin> set needs) refs of
        None \<Rightarrow> Inr ()
      | Some _ \<Rightarrow>
          Inl (CE_Expression path ''needs.<job> may only name a job listed in this job's `needs`''))"

definition check_template :: "string \<Rightarrow> template \<Rightarrow> string list \<Rightarrow> phase \<Rightarrow> compile_error + unit" where
  "check_template path t needs mx =
     (if mx < template_min_phase t then
        Inl (CE_Expression path
          ''uses context that is not available where this value is rendered'')
      else check_refs path (template_referenced_needs t []) needs)"

definition check_job_condition :: "string \<Rightarrow> job \<Rightarrow> compile_error + unit" where
  "check_job_condition name j =
     (case jb_condition j of
        None \<Rightarrow> Inr ()
      | Some cond \<Rightarrow>
          if Schedule < min_phase cond then
            Inl (CE_Expression (''jobs.'' @ name @ ''.if'')
              ''job conditions cannot use hash_files; use a step condition'')
          else check_refs (''jobs.'' @ name @ ''.if'') (referenced_needs cond []) (jb_needs j))"

definition check_job_step :: "string \<Rightarrow> job \<Rightarrow> nat \<Rightarrow> step \<Rightarrow> compile_error + unit" where
  "check_job_step name j i s =
     (if list_ex (\<lambda>other. st_id other = st_id s) (take i (jb_steps j)) then
        Inl (CE_DuplicateStepId name (st_id s))
      else
        res_bind (case st_condition s of
            None \<Rightarrow> Inr ()
          | Some cond \<Rightarrow>
              check_refs (''jobs.'' @ name @ ''.steps.'' @ st_id s @ ''.if'')
                (referenced_needs cond []) (jb_needs j)) (\<lambda>_.
        if is_some_and (st_timeout_secs s) (\<lambda>t. jb_timeout_secs j < t) then
          Inl (CE_StepTimeoutExceedsJob name (st_id s))
        else Inr ()))"

definition check_job_cache :: "string \<Rightarrow> job \<Rightarrow> nat \<Rightarrow> cache \<Rightarrow> compile_error + unit" where
  "check_job_cache name j i c =
     res_bind (check_template (''jobs.'' @ name @ ''.cache.'' @ ca_name c @ ''.key'') (ca_key c)
                 (jb_needs j) WorkerPhase) (\<lambda>_.
     if list_ex (\<lambda>other. ca_name other = ca_name c) (take i (jb_cache j)) then
       Inl (CE_DuplicateCacheName name (ca_name c))
     else Inr ())"

definition check_job_artifact :: "string \<Rightarrow> job \<Rightarrow> nat \<Rightarrow> artifact \<Rightarrow> compile_error + unit" where
  "check_job_artifact name j i a =
     (if list_ex (\<lambda>other. ar_name other = ar_name a) (take i (jb_artifacts j)) then
        Inl (CE_DuplicateArtifactName name (ar_name a))
      else Inr ())"

definition check_job :: "string \<Rightarrow> job \<Rightarrow> compile_error + unit" where
  "check_job name j =
     res_bind (check_job_condition name j) (\<lambda>_.
     res_bind (check_each 0 (check_job_step name j) (jb_steps j)) (\<lambda>_.
     res_bind (check_each 0 (check_job_cache name j) (jb_cache j)) (\<lambda>_.
     check_each 0 (check_job_artifact name j) (jb_artifacts j))))"

subsection \<open>Dependencies and their order\<close>

definition index_of :: "(string \<times> job) list \<Rightarrow> string \<Rightarrow> nat option" where
  "index_of sjobs name = position (\<lambda>(n, _). n = name) sjobs"

fun resolve_needs ::
    "(string \<times> job) list \<Rightarrow> string \<Rightarrow> string list \<Rightarrow> nat list \<Rightarrow> compile_error + nat list" where
  "resolve_needs sjobs name [] idx = Inr idx"
| "resolve_needs sjobs name (dep # deps) idx =
     (if dep = name then Inl (CE_SelfDependency name)
      else (case index_of sjobs dep of
          None \<Rightarrow> Inl (CE_UnknownDependency name dep)
        | Some i \<Rightarrow>
            if i \<in> set idx then Inl (CE_DuplicateDependency name dep)
            else resolve_needs sjobs name deps (idx @ [i])))"

definition needs_index :: "(string \<times> job) list \<Rightarrow> string \<times> job \<Rightarrow> compile_error + nat list" where
  "needs_index sjobs nj =
     (case nj of (name, j) \<Rightarrow>
        res_bind (check_job name j) (\<lambda>_.
        res_bind (resolve_needs sjobs name (jb_needs j) []) (\<lambda>idx.
        Inr (sort idx))))"

definition all_dependents :: "nat list list \<Rightarrow> nat list list" where
  "all_dependents needs_idx =
     fold (\<lambda>(j, deps) dependents.
         fold (\<lambda>d dependents. dependents[d := dependents ! d @ [j]]) deps dependents)
       (enumerate 0 needs_idx) (replicate (length needs_idx) [])"

definition U16_MAX :: nat where "U16_MAX = 65535"

record topo_state =
  ts_indegree :: "nat list"
  ts_ready :: "nat list"
  ts_order :: "nat list"
  ts_position :: "nat list"

definition topo_init :: "nat list list \<Rightarrow> topo_state" where
  "topo_init needs_idx =
     (let indegree = map length needs_idx; n = length needs_idx in
      \<lparr>ts_indegree = indegree,
       ts_ready = rev (sort (filter (\<lambda>i. indegree ! i = 0) [0..<n])),
       ts_order = [], ts_position = replicate n U16_MAX\<rparr>)"

definition relax :: "nat \<Rightarrow> nat list \<times> nat list \<Rightarrow> nat list \<times> nat list" where
  "relax d = (\<lambda>(indegree, newly).
     let v = indegree ! d - 1 in
     (indegree[d := v], if v = 0 then newly @ [d] else newly))"

definition topo_step :: "nat list list \<Rightarrow> nat \<Rightarrow> topo_state \<Rightarrow> topo_state" where
  "topo_step dependents i s =
     (let (indegree, newly) = fold relax (dependents ! i) (ts_indegree s, []);
          ready = butlast (ts_ready s)
      in \<lparr>ts_indegree = indegree,
          ts_ready = (if newly = [] then ready else rev (sort (ready @ newly))),
          ts_order = ts_order s @ [i],
          ts_position = (ts_position s)[i := length (ts_order s)]\<rparr>)"

partial_function (option) topo_loop :: "nat list list \<Rightarrow> topo_state \<Rightarrow> topo_state option" where
  [code]: "topo_loop dependents s =
     (if ts_ready s = [] then Some s
      else topo_loop dependents (topo_step dependents (last (ts_ready s)) s))"

subsection \<open>The digest\<close>

text \<open>
  The serializer (\<open>postcard\<close>) is a parameter: one function for optional conditions and one for
  templates, each returning \<open>None\<close> when the encoding fails.
\<close>

record codec =
  enc_condition :: "expr option \<Rightarrow> string option"
  enc_template :: "template \<Rightarrow> string option"

definition digest_new :: u128 where
  "digest_new = 0x6c62272e07bb014262b821756295c58d"

definition dg_byte :: "u8 \<Rightarrow> u128 \<Rightarrow> u128" where
  "dg_byte x h = (h XOR ucast x) * 0x0000000001000000000000000000013B"

definition le_bytes :: "u64 \<Rightarrow> u8 list" where
  "le_bytes v = map (\<lambda>i. ucast (drop_bit (8 * i) v)) [0..<8]"

definition dg_u64 :: "u64 \<Rightarrow> u128 \<Rightarrow> u128" where
  "dg_u64 v h = fold dg_byte (le_bytes v) h"

definition byte_of_char :: "char \<Rightarrow> u8" where
  "byte_of_char c = of_nat (of_char c)"

definition dg_bytes :: "string \<Rightarrow> u128 \<Rightarrow> u128" where
  "dg_bytes b h = fold (\<lambda>x. dg_byte (byte_of_char x)) b (dg_u64 (of_nat (length b)) h)"

definition dg_str :: "string \<Rightarrow> u128 \<Rightarrow> u128" where
  "dg_str = dg_bytes"

definition dg_encoded :: "string option \<Rightarrow> u128 \<Rightarrow> compile_error + u128" where
  "dg_encoded enc h = (case enc of None \<Rightarrow> Inl CE_Encoding | Some b \<Rightarrow> Inr (dg_bytes b h))"

definition dg_opt_str :: "string option \<Rightarrow> u128 \<Rightarrow> u128" where
  "dg_opt_str s h = (case s of None \<Rightarrow> dg_u64 0 h | Some s \<Rightarrow> dg_str s (dg_u64 1 h))"

text \<open>A length followed by the items, as every list is written.\<close>

definition dg_list :: "('a \<Rightarrow> u128 \<Rightarrow> u128) \<Rightarrow> 'a list \<Rightarrow> u128 \<Rightarrow> u128" where
  "dg_list f xs h = fold f xs (dg_u64 (of_nat (length xs)) h)"

fun dg_each :: "('a \<Rightarrow> u128 \<Rightarrow> compile_error + u128) \<Rightarrow> 'a list \<Rightarrow> u128 \<Rightarrow> compile_error + u128" where
  "dg_each f [] h = Inr h"
| "dg_each f (x # xs) h = res_bind (f x h) (dg_each f xs)"

definition bool_u64 :: "bool \<Rightarrow> u64" where
  "bool_u64 b = (if b then 1 else 0)"

primrec shell_u64 :: "shell \<Rightarrow> u64" where
  "shell_u64 Sh = 0"
| "shell_u64 Bash = 1"

primrec arch_u64 :: "arch \<Rightarrow> u64" where
  "arch_u64 Amd64 = 0"
| "arch_u64 Arm64 = 1"

primrec os_u64 :: "os \<Rightarrow> u64" where
  "os_u64 Linux = 0"
| "os_u64 Windows = 1"

primrec isolation_u64 :: "isolation \<Rightarrow> u64" where
  "isolation_u64 Container = 0"
| "isolation_u64 Microvm = 1"
| "isolation_u64 Native = 2"

primrec when_u64 :: "artifact_when \<Rightarrow> u64" where
  "when_u64 WhenSuccess = 0"
| "when_u64 WhenFailure = 1"
| "when_u64 WhenAlways = 2"

definition opt_u64 :: "('a \<Rightarrow> u64) \<Rightarrow> 'a option \<Rightarrow> u64" where
  "opt_u64 f x = (case x of None \<Rightarrow> - 1 | Some y \<Rightarrow> f y)"

definition dg_env :: "string \<times> string \<Rightarrow> u128 \<Rightarrow> u128" where
  "dg_env kv h = (case kv of (k, v) \<Rightarrow> dg_str v (dg_str k h))"

definition digest_step :: "codec \<Rightarrow> step \<Rightarrow> u128 \<Rightarrow> compile_error + u128" where
  "digest_step cd s h =
     res_bind (dg_encoded (enc_condition cd (st_condition s)) (dg_str (st_run s) (dg_str (st_id s) h))) (\<lambda>h.
     let h = dg_u64 (shell_u64 (st_shell s)) h;
         h = dg_list dg_env (st_env s) h;
         h = dg_list dg_str (st_secrets s) h;
         h = dg_list (\<lambda>f h. dg_str (sf_path f) (dg_str (sf_name f) h)) (st_secret_files s) h;
         h = dg_opt_str (st_workdir s) h
     in Inr (dg_u64 (of_nat (case st_timeout_secs s of None \<Rightarrow> 0 | Some t \<Rightarrow> t)) h))"

definition dg_filter :: "ref_filter \<Rightarrow> u128 \<Rightarrow> u128" where
  "dg_filter f h = dg_list dg_str (rf_tags f) (dg_list dg_str (rf_branches f) h)"

definition dg_triggers :: "triggers \<Rightarrow> u128 \<Rightarrow> u128" where
  "dg_triggers on h =
     (let h = dg_u64 (bool_u64 (tr_push on \<noteq> None)) h;
          h = dg_u64 (bool_u64 (tr_pull_request on \<noteq> None)) h;
          h = dg_u64 (bool_u64 (tr_tag on \<noteq> None)) h;
          h = dg_u64 (bool_u64 (tr_manual on)) h
      in fold dg_filter
           (concat (map (\<lambda>f. case f of None \<Rightarrow> [] | Some f \<Rightarrow> [f])
              [tr_push on, tr_pull_request on, tr_tag on])) h)"

definition dg_concurrency :: "codec \<Rightarrow> concurrency option \<Rightarrow> u128 \<Rightarrow> compile_error + u128" where
  "dg_concurrency cd c h =
     (case c of
        None \<Rightarrow> Inr (dg_u64 0 h)
      | Some c \<Rightarrow>
          res_bind (dg_encoded (enc_template cd (cc_group c)) (dg_u64 1 h)) (\<lambda>h.
          Inr (dg_u64 (bool_u64 (cc_cancel_in_progress c)) h)))"

definition dg_runs_on :: "runs_on \<Rightarrow> u128 \<Rightarrow> u128" where
  "dg_runs_on r h =
     (let h = dg_list dg_str (ro_labels r) (dg_u64 (opt_u64 arch_u64 (ro_arch r)) h) in
      if states_runtime r then
        dg_u64 (opt_u64 isolation_u64 (ro_isolation r))
          (dg_u64 (opt_u64 os_u64 (ro_os r)) (dg_str ''runtime'' h))
      else h)"

definition dg_resources :: "resources \<Rightarrow> u128 \<Rightarrow> u128" where
  "dg_resources r h =
     dg_u64 (of_nat (rs_disk_bytes r)) (dg_u64 (of_nat (rs_memory_bytes r))
       (dg_u64 (of_nat (rs_cpu_millis r)) h))"

definition dg_cache :: "codec \<Rightarrow> cache \<Rightarrow> u128 \<Rightarrow> compile_error + u128" where
  "dg_cache cd c h =
     res_bind (dg_encoded (enc_template cd (ca_key c))
       (dg_u64 (ucast (class_to_u8 (ca_class c))) (dg_str (ca_name c) h))) (\<lambda>h.
     Inr (dg_list dg_str (ca_paths c) h))"

definition dg_artifact :: "artifact \<Rightarrow> u128 \<Rightarrow> u128" where
  "dg_artifact a h =
     (let h = dg_list dg_str (ar_paths a) (dg_str (ar_name a) h);
          h = dg_u64 (when_u64 (ar_when a)) h;
          h = dg_u64 (of_nat (ar_retain_secs a)) h
      in dg_u64 (bool_u64 (ar_required a)) h)"

definition dg_job :: "codec \<Rightarrow> compiled_job \<Rightarrow> u128 \<Rightarrow> compile_error + u128" where
  "dg_job cd j h =
     (let s = cj_spec j;
          h = dg_list (\<lambda>n. dg_u64 (of_nat n)) (cj_needs j) (dg_str (cj_name j) h)
      in
      res_bind (dg_encoded (enc_condition cd (jb_condition s)) (dg_str (jb_image s) h)) (\<lambda>h.
      let h = dg_resources (jb_resources s) (dg_runs_on (jb_runs_on s) h);
          h = dg_u64 (of_nat (jb_timeout_secs s)) h;
          h = dg_list dg_env (jb_env s) h;
          h = dg_opt_str (jb_workdir s) h;
          h = dg_u64 (of_nat (length (jb_steps s))) h
      in
      res_bind (dg_each (digest_step cd) (jb_steps s) h) (\<lambda>h.
      res_bind (dg_each (dg_cache cd) (jb_cache s) (dg_u64 (of_nat (length (jb_cache s))) h)) (\<lambda>h.
      let h = dg_list dg_str (jb_secrets s) h;
          h = dg_opt_str (jb_registry_auth s) h
      in Inr (dg_list dg_artifact (jb_artifacts s) h)))))"

definition digest_of ::
    "codec \<Rightarrow> triggers \<Rightarrow> concurrency option \<Rightarrow> compiled_job list \<Rightarrow> compile_error + u128" where
  "digest_of cd on concurrency jobs =
     res_bind (dg_concurrency cd concurrency
       (dg_triggers on (dg_str ''sentinel.pipeline/4'' digest_new))) (\<lambda>h.
     dg_each (dg_job cd) jobs (dg_u64 (of_nat (length jobs)) h))"

subsection \<open>Compilation\<close>

definition cycle_names :: "(string \<times> job) list \<Rightarrow> nat list \<Rightarrow> string list" where
  "cycle_names sjobs pos =
     sort (map (\<lambda>(_, name, _). name) (filter (\<lambda>(i, _). pos ! i = U16_MAX) (enumerate 0 sjobs)))"

definition place_jobs ::
    "(string \<times> job) list \<Rightarrow> nat list list \<Rightarrow> nat list \<Rightarrow> compiled_job option list" where
  "place_jobs sjobs needs_idx pos =
     fold (\<lambda>(name_idx, name, j) compiled.
         compiled[pos ! name_idx := Some
           \<lparr>cj_name = name, cj_needs = sort (map (\<lambda>d. pos ! d) (needs_idx ! name_idx)),
            cj_spec = j\<rparr>])
       (enumerate 0 sjobs) (replicate (length sjobs) None)"

fun all_placed :: "'a option list \<Rightarrow> 'a list option" where
  "all_placed [] = Some []"
| "all_placed (None # _) = None"
| "all_placed (Some x # xs) = map_option (\<lambda>ys. x # ys) (all_placed xs)"

definition finish_order ::
    "codec \<Rightarrow> pipeline \<Rightarrow> (string \<times> job) list \<Rightarrow> nat list list \<Rightarrow> topo_state
      \<Rightarrow> (compile_error + compiled_pipeline) option" where
  "finish_order cd p sjobs needs_idx s =
     (if length (ts_order s) \<noteq> length sjobs then
        Some (Inl (CE_Cycle (cycle_names sjobs (ts_position s))))
      else
        map_option (\<lambda>jobs.
            res_map (\<lambda>digest. \<lparr>cp_on = pl_on p, cp_concurrency = pl_concurrency p, cp_jobs = jobs,
                cp_digest = digest\<rparr>)
              (digest_of cd (pl_on p) (pl_concurrency p) jobs))
          (all_placed (place_jobs sjobs needs_idx (ts_position s))))"

definition compile :: "codec \<Rightarrow> pipeline \<Rightarrow> (compile_error + compiled_pipeline) option" where
  "compile cd p =
     (if MAX_STEPS_TOTAL < sum_list (map (\<lambda>(_, j). length (jb_steps j)) (pl_jobs p)) then
        Some (Inl (CE_TooManySteps MAX_STEPS_TOTAL))
      else
        let sjobs = sort_key fst (pl_jobs p) in
        case traverse_from 0 (\<lambda>_. needs_index sjobs) sjobs of
          Inl e \<Rightarrow> Some (Inl e)
        | Inr needs_idx \<Rightarrow>
            Option.bind (topo_loop (all_dependents needs_idx) (topo_init needs_idx))
              (finish_order cd p sjobs needs_idx))"

end
