(* ===== verification/Compile_Order.thy ===== *)
theory Compile_Order
  imports Pipeline_Compile "HOL-Library.Multiset"
begin

text \<open>
  Compilation always returns, and what it returns: the work-list invariant, the placement of the
  jobs, and the properties of the compiled order.
\<close>

subsection \<open>Dependents and counters\<close>

lemma append_at_nth:
  assumes "distinct deps" "\<forall>d\<in>set deps. d < length D" "x < length D"
  shows "fold (\<lambda>d D. D[d := D ! d @ [j]]) deps D ! x = D ! x @ (if x \<in> set deps then [j] else [])"
    and "length (fold (\<lambda>d D. D[d := D ! d @ [j]]) deps D) = length D"
  using assms by (induction deps arbitrary: D) (auto simp: nth_list_update)

lemma append_at_length: "length (fold (\<lambda>d D. D[d := D ! d @ [j]]) deps D) = length D"
  by (induction deps arbitrary: D) auto

definition good_needs :: "nat list list \<Rightarrow> bool" where
  "good_needs N \<longleftrightarrow> (\<forall>ds\<in>set N. distinct ds \<and> (\<forall>d\<in>set ds. d < length N))"

lemma dependents_fold:
  assumes "\<forall>ds\<in>set M. distinct ds \<and> (\<forall>d\<in>set ds. d < length D)" "x < length D"
  shows "fold (\<lambda>(j, deps) D. fold (\<lambda>d D. D[d := D ! d @ [j]]) deps D) (enumerate i M) D ! x
    = D ! x @ map fst (filter (\<lambda>(_, ds). x \<in> set ds) (enumerate i M))"
  using assms
proof (induction M arbitrary: D i)
  case (Cons ds M)
  then show ?case by (simp add: append_at_nth append_at_length)
qed simp

lemma all_dependents_nth:
  assumes "good_needs N" "x < length N"
  shows "set (all_dependents N ! x) = {j. j < length N \<and> x \<in> set (N ! j)}"
    and "distinct (all_dependents N ! x)"
proof -
  have "all_dependents N ! x = map fst (filter (\<lambda>(_, ds). x \<in> set ds) (enumerate 0 N))"
    using assms unfolding all_dependents_def by (subst dependents_fold) (auto simp: good_needs_def)
  then show "set (all_dependents N ! x) = {j. j < length N \<and> x \<in> set (N ! j)}"
    and "distinct (all_dependents N ! x)"
    by (force simp: in_set_enumerate_eq distinct_map_filter)+
qed

lemma relax_length: "length (fst (fold relax ds (deg, newly))) = length deg"
  by (induction ds arbitrary: deg newly) (auto simp: relax_def Let_def)

lemma relax_nth:
  "distinct ds \<Longrightarrow> \<forall>d\<in>set ds. d < length deg \<Longrightarrow> x < length deg \<Longrightarrow>
   fst (fold relax ds (deg, newly)) ! x = (if x \<in> set ds then deg ! x - 1 else deg ! x)"
  by (induction ds arbitrary: deg newly) (auto simp: relax_def Let_def nth_list_update)

lemma relax_newly:
  "distinct ds \<Longrightarrow> \<forall>d\<in>set ds. d < length deg \<Longrightarrow>
   snd (fold relax ds (deg, newly)) = newly @ filter (\<lambda>d. deg ! d - 1 = 0) ds"
proof (induction ds arbitrary: deg newly)
  case (Cons d ds)
  have "filter (\<lambda>x. deg[d := v] ! x - 1 = 0) ds = filter (\<lambda>x. deg ! x - 1 = 0) ds" for v
    by (rule filter_cong [OF refl]) (use Cons.prems in \<open>auto simp: nth_list_update\<close>)
  with Cons show ?case by (simp add: relax_def Let_def)
qed simp

subsection \<open>The invariant of the work list\<close>

definition topo_inv :: "nat list list \<Rightarrow> topo_state \<Rightarrow> bool" where
  "topo_inv N s \<longleftrightarrow>
     length (ts_indegree s) = length N \<and> length (ts_position s) = length N
     \<and> distinct (ts_order s @ ts_ready s) \<and> set (ts_order s @ ts_ready s) \<subseteq> {..<length N}
     \<and> (\<forall>j<length N. ts_indegree s ! j = card (set (N ! j) - set (ts_order s)))
     \<and> (\<forall>j<length N. j \<in> set (ts_order s @ ts_ready s) \<longleftrightarrow> ts_indegree s ! j = 0)
     \<and> (\<forall>k<length (ts_order s). set (N ! (ts_order s ! k)) \<subseteq> set (take k (ts_order s)))
     \<and> (\<forall>k<length (ts_order s). ts_position s ! (ts_order s ! k) = k)
     \<and> (\<forall>i<length N. i \<notin> set (ts_order s) \<longrightarrow> ts_position s ! i = U16_MAX)"

lemma topo_init_inv: "good_needs N \<Longrightarrow> topo_inv N (topo_init N)"
  by (auto simp: topo_inv_def topo_init_def Let_def good_needs_def distinct_card)

lemma topo_inv_order:
  assumes "topo_inv N s"
  shows "length (ts_order s) + length (ts_ready s) \<le> length N"
proof -
  have "card (set (ts_order s @ ts_ready s)) \<le> card {..<length N}"
    using assms by (intro card_mono) (auto simp: topo_inv_def)
  then show ?thesis using assms by (simp add: topo_inv_def distinct_card del: set_append)
qed

lemma topo_inv_zero:
  "topo_inv N s \<Longrightarrow> j < length N \<Longrightarrow> j \<in> set (ts_order s @ ts_ready s) \<longleftrightarrow> set (N ! j) \<subseteq> set (ts_order s)"
  by (simp add: topo_inv_def)

text \<open>Placing job \<open>i\<close>: the counters are those of the longer order, and the new ready jobs are the
  ones whose counter has just reached zero.\<close>

abbreviation counters :: "nat list list \<Rightarrow> topo_state \<Rightarrow> nat \<Rightarrow> nat list" where
  "counters N s i \<equiv> fst (fold relax (all_dependents N ! i) (ts_indegree s, []))"

definition placeable :: "nat list list \<Rightarrow> topo_state \<Rightarrow> nat \<Rightarrow> bool" where
  "placeable N s i \<longleftrightarrow> good_needs N \<and> topo_inv N s \<and> i < length N \<and> i \<notin> set (ts_order s)"

lemma placeable_dependents:
  assumes "placeable N s i"
  shows "set (all_dependents N ! i) = {j. j < length N \<and> i \<in> set (N ! j)}"
    "distinct (all_dependents N ! i)"
    "\<forall>d\<in>set (all_dependents N ! i). d < length (ts_indegree s)"
  using assms all_dependents_nth [of N i] by (auto simp: placeable_def topo_inv_def)

lemma counters_nth:
  assumes "placeable N s i" "j < length N"
  shows "counters N s i ! j = card (set (N ! j) - set (ts_order s @ [i]))"
    and "counters N s i ! j =
      (if j \<in> set (all_dependents N ! i) then ts_indegree s ! j - 1 else ts_indegree s ! j)"
proof -
  note dep = placeable_dependents [OF assms(1)]
  have inv: "length (ts_indegree s) = length N" "i \<notin> set (ts_order s)"
    "ts_indegree s ! j = card (set (N ! j) - set (ts_order s))"
    using assms by (auto simp: placeable_def topo_inv_def)
  show c: "counters N s i ! j =
      (if j \<in> set (all_dependents N ! i) then ts_indegree s ! j - 1 else ts_indegree s ! j)"
    using relax_nth [OF dep(2,3)] assms(2) inv(1) by simp
  have "set (N ! j) - set (ts_order s @ [i]) = set (N ! j) - set (ts_order s) - {i}" by auto
  then show "counters N s i ! j = card (set (N ! j) - set (ts_order s @ [i]))"
    unfolding c dep(1) using inv(2,3) assms(2) by (auto simp: card_Diff_singleton)
qed

lemma newly_ready:
  assumes "placeable N s i"
  shows "set (filter (\<lambda>d. ts_indegree s ! d - 1 = 0) (all_dependents N ! i))
    = {d. d < length N \<and> d \<notin> set (ts_order s @ ts_ready s) \<and> counters N s i ! d = 0}" (is "?L = ?R")
proof -
  note dep = placeable_dependents [OF assms] and cn = counters_nth [OF assms]
  have inv: "i \<notin> set (ts_order s)"
    "\<And>j. j < length N \<Longrightarrow> ts_indegree s ! j = card (set (N ! j) - set (ts_order s))"
    "\<And>j. j < length N \<Longrightarrow> j \<in> set (ts_order s @ ts_ready s) \<longleftrightarrow> ts_indegree s ! j = 0"
    using assms by (auto simp: placeable_def topo_inv_def)
  have pos: "ts_indegree s ! d \<noteq> 0" if "d \<in> set (all_dependents N ! i)" for d
    using that dep(1) inv(1,2) by (auto simp: card_eq_0_iff)
  have "d \<in> ?L \<longleftrightarrow> d \<in> ?R" if "d < length N" for d
    using that cn(2) [OF that] inv(3) [OF that] pos [of d] by auto
  moreover have "d < length N" if "d \<in> ?L" for d using that dep(1) by auto
  ultimately show ?thesis by blast
qed

lemma topo_step_fields:
  assumes "placeable N s i"
  shows "ts_indegree (topo_step (all_dependents N) i s) = counters N s i"
    "ts_order (topo_step (all_dependents N) i s) = ts_order s @ [i]"
    "ts_position (topo_step (all_dependents N) i s) = (ts_position s)[i := length (ts_order s)]"
    "mset (ts_ready (topo_step (all_dependents N) i s)) = mset (butlast (ts_ready s)
       @ filter (\<lambda>d. ts_indegree s ! d - 1 = 0) (all_dependents N ! i))"
  using relax_newly [OF placeable_dependents(2,3) [OF assms], of "[]"]
  by (simp_all add: topo_step_def case_prod_beta Let_def filter_empty_conv)

lemma topo_step_ready:
  assumes "placeable N s i" "ts_ready s = rest @ [i]"
  shows "set (ts_ready (topo_step (all_dependents N) i s)) = set rest
      \<union> {d. d < length N \<and> d \<notin> set (ts_order s @ ts_ready s) \<and> counters N s i ! d = 0}"
    and "distinct (ts_ready (topo_step (all_dependents N) i s))"
proof -
  let ?new = "filter (\<lambda>d. ts_indegree s ! d - 1 = 0) (all_dependents N ! i)"
  have m: "mset (ts_ready (topo_step (all_dependents N) i s)) = mset (rest @ ?new)"
    using topo_step_fields(4) [OF assms(1)] assms(2) by simp
  have "distinct (ts_order s @ ts_ready s)" using assms(1) by (simp add: placeable_def topo_inv_def)
  then have "distinct (rest @ ?new)"
    using assms(2) newly_ready [OF assms(1)] placeable_dependents(2) [OF assms(1)] by auto
  then show "distinct (ts_ready (topo_step (all_dependents N) i s))"
    using m mset_eq_imp_distinct_iff by metis
  show "set (ts_ready (topo_step (all_dependents N) i s)) = set rest
      \<union> {d. d < length N \<and> d \<notin> set (ts_order s @ ts_ready s) \<and> counters N s i ! d = 0}"
    unfolding mset_eq_setD [OF m] set_append newly_ready [OF assms(1)] ..
qed

lemma topo_step_inv:
  assumes "placeable N s i" "ts_ready s = rest @ [i]"
  shows "topo_inv N (topo_step (all_dependents N) i s)"
proof -
  let ?s' = "topo_step (all_dependents N) i s"
  note f = topo_step_fields(1,2,3) [OF assms(1)] and r = topo_step_ready [OF assms]
  have inv: "topo_inv N s" and i: "i < length N" "i \<notin> set (ts_order s)"
    using assms(1) by (auto simp: placeable_def)
  have zero: "counters N s i ! j = 0" if "j < length N" "ts_indegree s ! j = 0" for j
    using counters_nth(2) [OF assms(1) that(1)] that(2) by simp
  have "set (N ! i) \<subseteq> set (ts_order s)"
    using topo_inv_zero [OF inv i(1)] assms(2) by simp
  then have order: "\<forall>k<length (ts_order ?s'). set (N ! (ts_order ?s' ! k)) \<subseteq> set (take k (ts_order ?s'))"
    using inv unfolding f(2) by (auto simp: topo_inv_def nth_append less_Suc_eq)
  have ready: "j \<in> set (ts_order ?s' @ ts_ready ?s') \<longleftrightarrow> ts_indegree ?s' ! j = 0" if "j < length N" for j
    using that inv zero [OF that] assms(2) unfolding f set_append r(1) by (auto simp: topo_inv_def)
  have "ts_position ?s' ! (ts_order ?s' ! k) = k" if "k < length (ts_order ?s')" for k
  proof -
    have "ts_order s ! k \<noteq> i" if "k < length (ts_order s)" using that i(2) by (metis nth_mem)
    with that inv i(1) show ?thesis
      unfolding f by (auto simp: topo_inv_def nth_append less_Suc_eq nth_list_update)
  qed
  moreover have "ts_position ?s' ! j = U16_MAX" if "j < length N" "j \<notin> set (ts_order ?s')" for j
    using that inv unfolding f by (auto simp: topo_inv_def nth_list_update)
  moreover have "distinct (ts_order ?s' @ ts_ready ?s')" "set (ts_order ?s' @ ts_ready ?s') \<subseteq> {..<length N}"
    using inv r i assms(2) unfolding f by (auto simp: topo_inv_def)
  moreover have "length (ts_indegree ?s') = length N" "length (ts_position ?s') = length N"
    using inv unfolding f by (auto simp: topo_inv_def relax_length)
  moreover have "ts_indegree ?s' ! j = card (set (N ! j) - set (ts_order ?s'))" if "j < length N" for j
    unfolding f by (rule counters_nth(1) [OF assms(1) that])
  ultimately show ?thesis using order ready unfolding topo_inv_def by blast
qed

lemma topo_loop_returns:
  assumes "good_needs N" "topo_inv N s"
  shows "\<exists>s'. topo_loop (all_dependents N) s = Some s' \<and> topo_inv N s' \<and> ts_ready s' = []"
  using assms(2)
proof (induction "length N - length (ts_order s)" arbitrary: s rule: less_induct)
  case less
  show ?case
  proof (cases "ts_ready s = []")
    case True
    then show ?thesis using less.prems by (subst topo_loop.simps) simp
  next
    case False
    let ?i = "last (ts_ready s)" and ?s' = "topo_step (all_dependents N) (last (ts_ready s)) s"
    have split: "ts_ready s = butlast (ts_ready s) @ [?i]" using False by simp
    then have "?i \<in> set (ts_ready s)" by (metis in_set_conv_decomp)
    then have p: "placeable N s ?i"
      using less.prems assms(1) by (auto simp: placeable_def topo_inv_def)
    have "length (ts_order s) < length N"
      using topo_inv_order [OF less.prems] False by (cases "ts_ready s") auto
    then have "length N - length (ts_order ?s') < length N - length (ts_order s)"
      using topo_step_fields(2) [OF p] by simp
    from less.hyps [OF this topo_step_inv [OF p split]] False show ?thesis
      by (subst topo_loop.simps) simp
  qed
qed
subsection \<open>Resolving names\<close>

lemma resolve_needs_ok:
  "resolve_needs sj name deps idx = Inr r \<Longrightarrow> distinct idx \<Longrightarrow>
   name \<notin> set deps \<and> distinct r \<and> (\<exists>js. r = idx @ js \<and> map (index_of sj) deps = map Some js)"
proof (induction sj name deps idx rule: resolve_needs.induct)
  case (2 sj name dep deps idx)
  then obtain i where i: "dep \<noteq> name" "index_of sj dep = Some i" "i \<notin> set idx"
    "resolve_needs sj name deps (idx @ [i]) = Inr r"
    by (auto split: if_splits option.splits)
  from 2(1) [OF i(1,2,3,4)] 2(3) i show ?case by auto
qed simp

lemma index_of_Some: "index_of sj name = Some i \<Longrightarrow> i < length sj \<and> fst (sj ! i) = name"
  by (auto simp: index_of_def position_Some case_prod_beta)

lemma needs_index_ok:
  assumes "needs_index sj (name, j) = Inr ds"
  shows "distinct ds \<and> sorted ds \<and> (\<forall>d\<in>set ds. d < length sj)
    \<and> mset (map (\<lambda>d. fst (sj ! d)) ds) = mset (jb_needs j) \<and> name \<notin> set (jb_needs j)
    \<and> check_job name j = Inr ()"
proof -
  obtain r where r: "check_job name j = Inr ()" "resolve_needs sj name (jb_needs j) [] = Inr r" "ds = sort r"
    using assms by (auto simp: needs_index_def res_bind_eq_Inr)
  from resolve_needs_ok [OF r(2)] have ok: "name \<notin> set (jb_needs j)" "distinct r"
    "map (index_of sj) (jb_needs j) = map Some r"
    by auto
  have l: "length (jb_needs j) = length r" using ok(3) by (metis length_map)
  have nth: "index_of sj (jb_needs j ! k) = Some (r ! k)" if "k < length r" for k
    using that ok(3) l by (metis nth_map)
  have "map (\<lambda>d. fst (sj ! d)) r = jb_needs j"
    by (rule nth_equalityI) (use l nth index_of_Some in \<open>fastforce+\<close>)
  moreover have "d < length sj" if "d \<in> set r" for d
    using that nth index_of_Some by (metis in_set_conv_nth)
  moreover have "mset (map (\<lambda>d. fst (sj ! d)) (sort r)) = mset (map (\<lambda>d. fst (sj ! d)) r)" by simp
  ultimately show ?thesis using r(1,3) ok(1,2) by (simp del: mset_map)
qed

definition needs_of :: "(string \<times> job) list \<Rightarrow> nat list list \<Rightarrow> bool" where
  "needs_of sj N \<longleftrightarrow> length N = length sj \<and> (\<forall>k<length sj. needs_index sj (sj ! k) = Inr (N ! k))"

lemma traverse_needs: "traverse_from 0 (\<lambda>_. needs_index sj) sj = Inr N \<Longrightarrow> needs_of sj N"
  using traverse_from_Inr_length [of 0 "\<lambda>_. needs_index sj" sj N] traverse_from_Inr_nth [of 0 "\<lambda>_. needs_index sj" sj N]
  by (auto simp: needs_of_def)

lemma needs_of_nth:
  assumes "needs_of sj N" "k < length sj"
  shows "distinct (N ! k) \<and> sorted (N ! k) \<and> (\<forall>d\<in>set (N ! k). d < length sj)
    \<and> mset (map (\<lambda>d. fst (sj ! d)) (N ! k)) = mset (jb_needs (snd (sj ! k)))
    \<and> fst (sj ! k) \<notin> set (jb_needs (snd (sj ! k))) \<and> check_job (fst (sj ! k)) (snd (sj ! k)) = Inr ()"
  using assms needs_index_ok [of sj "fst (sj ! k)" "snd (sj ! k)" "N ! k"] by (auto simp: needs_of_def)

lemma needs_of_good: "needs_of sj N \<Longrightarrow> good_needs N"
proof -
  assume n: "needs_of sj N"
  then have "length N = length sj" by (simp add: needs_of_def)
  then show ?thesis unfolding good_needs_def by (metis needs_of_nth [OF n] in_set_conv_nth)
qed

subsection \<open>Placing the jobs\<close>

definition placed_job :: "(string \<times> job) list \<Rightarrow> nat list list \<Rightarrow> nat list \<Rightarrow> nat \<Rightarrow> compiled_job" where
  "placed_job sj N pos i =
     \<lparr>cj_name = fst (sj ! i), cj_needs = sort (map (\<lambda>d. pos ! d) (N ! i)), cj_spec = snd (sj ! i)\<rparr>"

lemma fold_place:
  assumes "distinct (map (\<lambda>i. p i) (map fst xs))" "\<forall>i\<in>set (map fst xs). p i < length c" "(i, x) \<in> set xs"
  shows "fold (\<lambda>(i, x) c. c[p i := g i x]) xs c ! p i = g i x"
proof -
  have other: "fold (\<lambda>(i, x) c. c[p i := g i x]) xs c ! q = c ! q" if "q \<notin> p ` fst ` set xs" for xs c q
    using that by (induction xs arbitrary: c) (auto simp: nth_list_update)
  show ?thesis using assms
  proof (induction xs arbitrary: c)
    case (Cons y xs)
    obtain k z where y: "y = (k, z)" by fastforce
    show ?case
    proof (cases "(i, x) = y")
      case True
      then have "p i \<notin> p ` fst ` set xs" using Cons.prems(1) y by auto
      from other [OF this] True y Cons.prems(2) show ?thesis by simp
    next
      case False
      with Cons.prems y show ?thesis using Cons.IH [of "c[p k := g k z]"] by auto
    qed
  qed simp
qed

lemma fold_place_length: "length (fold (\<lambda>(i, x) c. c[p i := g i x]) xs c) = length c"
  by (induction xs arbitrary: c) auto

lemma place_jobs_eq:
  "place_jobs sj N pos = fold (\<lambda>(i, x) c. c[pos ! i := Some (placed_job sj N pos i)])
     (enumerate 0 sj) (replicate (length sj) None)"
  unfolding place_jobs_def
  by (rule fold_cong) (auto simp: placed_job_def in_set_enumerate_eq case_prod_beta)

lemma place_jobs_length: "length (place_jobs sj N pos) = length sj"
  by (simp add: place_jobs_eq fold_place_length)

lemma place_jobs_nth:
  assumes "inj_on (\<lambda>i. pos ! i) {..<length sj}" "\<forall>i<length sj. pos ! i < length sj" "i < length sj"
  shows "place_jobs sj N pos ! (pos ! i) = Some (placed_job sj N pos i)"
proof -
  have m: "map fst (enumerate 0 sj) = [0..<length sj]" by simp
  have "distinct (map (\<lambda>i. pos ! i) (map fst (enumerate 0 sj)))"
    unfolding m distinct_map using assms(1) by (simp add: lessThan_atLeast0)
  moreover have "\<forall>i\<in>set (map fst (enumerate 0 sj)). pos ! i < length (replicate (length sj) None)"
    unfolding m using assms(2) by simp
  moreover have "(i, sj ! i) \<in> set (enumerate 0 sj)" using assms(3) by (simp add: in_set_enumerate_eq)
  ultimately show ?thesis unfolding place_jobs_eq by (rule fold_place)
qed

lemma all_placed_map: "all_placed (map Some xs) = Some xs"
  by (induction xs) auto

subsection \<open>The compiled order\<close>

lemma topo_done:
  assumes "topo_inv N s" "length (ts_order s) = length N"
  shows "set (ts_order s) = {..<length N}" "distinct (ts_order s)"
    "\<forall>k<length N. ts_position s ! (ts_order s ! k) = k"
    "\<forall>i<length N. ts_position s ! i < length N \<and> ts_order s ! (ts_position s ! i) = i"
proof -
  show d: "distinct (ts_order s)" using assms(1) by (simp add: topo_inv_def)
  show o: "set (ts_order s) = {..<length N}"
    by (rule card_subset_eq) (use assms d distinct_card [OF d] in \<open>auto simp: topo_inv_def\<close>)
  show p: "\<forall>k<length N. ts_position s ! (ts_order s ! k) = k"
    using assms by (simp add: topo_inv_def)
  show "\<forall>i<length N. ts_position s ! i < length N \<and> ts_order s ! (ts_position s ! i) = i"
  proof (intro allI impI)
    fix i
    assume "i < length N"
    then obtain k where "k < length N" "ts_order s ! k = i"
      using o assms(2) by (metis in_set_conv_nth lessThan_iff)
    with p show "ts_position s ! i < length N \<and> ts_order s ! (ts_position s ! i) = i" by auto
  qed
qed

lemma place_jobs_order:
  assumes "topo_inv N s" "length (ts_order s) = length N" "length N = length sj"
  shows "place_jobs sj N (ts_position s) = map Some (map (placed_job sj N (ts_position s)) (ts_order s))"
proof (rule nth_equalityI)
  show "length (place_jobs sj N (ts_position s)) = length (map Some (map (placed_job sj N (ts_position s)) (ts_order s)))"
    using assms by (simp add: place_jobs_length)
next
  fix k
  assume "k < length (place_jobs sj N (ts_position s))"
  then have k: "k < length sj" by (simp add: place_jobs_length)
  note d = topo_done [OF assms(1,2)]
  have inj: "inj_on (\<lambda>i. ts_position s ! i) {..<length sj}"
    using d(4) assms(3) by (metis (no_types, lifting) inj_onI lessThan_iff)
  have "ts_order s ! k < length sj" using d(1) k assms by (metis lessThan_iff nth_mem)
  from place_jobs_nth [OF inj _ this, of N] d(3,4) k assms
  show "place_jobs sj N (ts_position s) ! k = map Some (map (placed_job sj N (ts_position s)) (ts_order s)) ! k"
    by simp
qed
lemma compile_cases:
  assumes "\<not> MAX_STEPS_TOTAL < sum_list (map (\<lambda>(_, j). length (jb_steps j)) (pl_jobs p))"
    "traverse_from 0 (\<lambda>_. needs_index (sort_key fst (pl_jobs p))) (sort_key fst (pl_jobs p)) = Inr N"
  obtains s where "topo_inv N s" "ts_ready s = []" "needs_of (sort_key fst (pl_jobs p)) N"
    "compile cd p = finish_order cd p (sort_key fst (pl_jobs p)) N s"
proof -
  have n: "needs_of (sort_key fst (pl_jobs p)) N" by (rule traverse_needs [OF assms(2)])
  then have g: "good_needs N" by (rule needs_of_good)
  from topo_loop_returns [OF g topo_init_inv [OF g]] obtain s where
    "topo_loop (all_dependents N) (topo_init N) = Some s" "topo_inv N s" "ts_ready s = []" by blast
  with n show ?thesis using assms by (intro that) (simp_all add: compile_def Let_def)
qed

lemma finish_order_done:
  assumes "topo_inv N s" "needs_of sj N" "length (ts_order s) = length sj"
  shows "finish_order cd p sj N s =
    (let jobs = map (placed_job sj N (ts_position s)) (ts_order s) in
     Some (res_map (\<lambda>digest. \<lparr>cp_on = pl_on p, cp_concurrency = pl_concurrency p, cp_jobs = jobs,
                cp_digest = digest\<rparr>) (digest_of cd (pl_on p) (pl_concurrency p) jobs)))"
  using assms place_jobs_order [OF assms(1), of sj]
  by (simp add: finish_order_def needs_of_def all_placed_map Let_def del: map_map)

lemma compile_returns: "\<exists>r. compile cd p = Some r"
proof (cases "MAX_STEPS_TOTAL < sum_list (map (\<lambda>(_, j). length (jb_steps j)) (pl_jobs p))")
  case steps: False
  let ?sj = "sort_key fst (pl_jobs p)"
  show ?thesis
  proof (cases "traverse_from 0 (\<lambda>_. needs_index ?sj) ?sj")
    case (Inl e)
    with steps show ?thesis by (simp add: compile_def Let_def)
  next
    case (Inr N)
    from compile_cases [OF steps Inr] obtain s where "topo_inv N s" "needs_of ?sj N"
      "compile cd p = finish_order cd p ?sj N s" by metis
    moreover have "\<exists>r. finish_order cd p ?sj N s = Some r"
    proof (cases "length (ts_order s) = length ?sj")
      case True
      then show ?thesis using finish_order_done \<open>topo_inv N s\<close> \<open>needs_of ?sj N\<close> by (metis (full_types))
    qed (simp add: finish_order_def)
    ultimately show ?thesis by simp
  qed
qed (simp add: compile_def)

lemma compiled_order:
  assumes "compile cd p = Some (Inr c)"
  obtains N s where "topo_inv N s" "needs_of (sort_key fst (pl_jobs p)) N"
    "length (ts_order s) = length (sort_key fst (pl_jobs p))"
    "cp_jobs c = map (placed_job (sort_key fst (pl_jobs p)) N (ts_position s)) (ts_order s)"
    "cp_on c = pl_on p" "cp_concurrency c = pl_concurrency p"
    "digest_of cd (pl_on p) (pl_concurrency p) (cp_jobs c) = Inr (cp_digest c)"
proof -
  let ?sj = "sort_key fst (pl_jobs p)"
  have steps: "\<not> MAX_STEPS_TOTAL < sum_list (map (\<lambda>(_, j). length (jb_steps j)) (pl_jobs p))"
    using assms by (auto simp: compile_def split: if_splits)
  obtain N where N: "traverse_from 0 (\<lambda>_. needs_index ?sj) ?sj = Inr N"
    using assms steps by (cases "traverse_from 0 (\<lambda>_. needs_index ?sj) ?sj") (auto simp: compile_def Let_def)
  from compile_cases [OF steps N] obtain s where s: "topo_inv N s" "needs_of ?sj N"
    "compile cd p = finish_order cd p ?sj N s" by metis
  then have l: "length (ts_order s) = length ?sj" using assms by (auto simp: finish_order_def split: if_splits)
  show ?thesis
    by (rule that [OF s(1,2) l])
      (use assms s(3) in \<open>auto simp: finish_order_done [OF s(1,2) l] Let_def res_map_eq_Inr\<close>)
qed

lemma compiled_nth:
  assumes "topo_inv N s" "needs_of sj N" "length (ts_order s) = length sj" "k < length sj"
    "jobs = map (placed_job sj N (ts_position s)) (ts_order s)"
  shows "cj_spec (jobs ! k) = snd (sj ! (ts_order s ! k))" "cj_name (jobs ! k) = fst (sj ! (ts_order s ! k))"
    "sorted (cj_needs (jobs ! k))" "distinct (cj_needs (jobs ! k))" "\<forall>d\<in>set (cj_needs (jobs ! k)). d < k"
    "mset (map (\<lambda>d. cj_name (jobs ! d)) (cj_needs (jobs ! k))) = mset (jb_needs (cj_spec (jobs ! k)))"
proof -
  let ?i = "ts_order s ! k" and ?pos = "ts_position s"
  have l: "length N = length sj" using assms(2) by (simp add: needs_of_def)
  have lo: "length (ts_order s) = length N" using assms(3) l by simp
  note d = topo_done [OF assms(1) lo]
  have i: "?i < length sj" using d(1) assms(3,4) l by (metis lessThan_iff nth_mem)
  note nd = needs_of_nth [OF assms(2) i]
  have jk: "jobs ! k = placed_job sj N ?pos ?i" using assms(3,4,5) by simp
  show "cj_spec (jobs ! k) = snd (sj ! ?i)" "cj_name (jobs ! k) = fst (sj ! ?i)" "sorted (cj_needs (jobs ! k))"
    by (simp_all add: jk placed_job_def)
  have inj: "inj_on (\<lambda>d. ?pos ! d) (set (N ! ?i))"
    using d(4) nd l by (metis (no_types, lifting) inj_onI)
  show "distinct (cj_needs (jobs ! k))" using inj nd by (simp add: jk placed_job_def distinct_map)
  have sub: "set (N ! ?i) \<subseteq> set (take k (ts_order s))"
    using assms(1,3,4) by (simp add: topo_inv_def)
  have "?pos ! e < k" if e: "e \<in> set (N ! ?i)" for e
  proof -
    have "e \<in> set (take k (ts_order s))" using e sub by blast
    then obtain m where "m < k" "ts_order s ! m = e"
      using assms(3,4) by (auto simp: in_set_conv_nth)
    with d(3) assms(4) l show ?thesis by auto
  qed
  then show "\<forall>d\<in>set (cj_needs (jobs ! k)). d < k" by (auto simp: jk placed_job_def)
  have "cj_name (jobs ! (?pos ! e)) = fst (sj ! e)" if "e \<in> set (N ! ?i)" for e
    using that nd d(4) l assms(3,5) by (simp add: placed_job_def)
  then have "map (\<lambda>d. cj_name (jobs ! (?pos ! d))) (N ! ?i) = map (\<lambda>d. fst (sj ! d)) (N ! ?i)" by simp
  then have "mset (map (\<lambda>d. cj_name (jobs ! (?pos ! d))) (N ! ?i)) = mset (jb_needs (snd (sj ! ?i)))"
    using nd by metis
  then show "mset (map (\<lambda>d. cj_name (jobs ! d)) (cj_needs (jobs ! k))) = mset (jb_needs (cj_spec (jobs ! k)))"
    by (simp add: jk placed_job_def image_mset.compositionality comp_def)
qed

lemma compiled_multiset:
  assumes "topo_inv N s" "needs_of sj N" "length (ts_order s) = length sj"
  shows "mset (map (\<lambda>i. sj ! i) (ts_order s)) = mset sj"
proof -
  have l: "length N = length sj" using assms(2) by (simp add: needs_of_def)
  then have "set (ts_order s) = set [0..<length sj]" "distinct (ts_order s)"
    using topo_done [OF assms(1)] assms(3) by (auto simp: lessThan_atLeast0)
  then have "mset (ts_order s) = mset [0..<length sj]" by (metis set_eq_iff_mset_eq_distinct distinct_upt)
  then have "mset (map (\<lambda>i. sj ! i) (ts_order s)) = mset (map (\<lambda>i. sj ! i) [0..<length sj])"
    unfolding mset_map by (rule arg_cong)
  then show ?thesis by (simp only: map_nth)
qed

subsection \<open>Cycles\<close>

definition needs_rel :: "(string \<times> job) list \<Rightarrow> (string \<times> string) set" where
  "needs_rel jobs = {(a, b). \<exists>j. (b, j) \<in> set jobs \<and> a \<in> set (jb_needs j)}"

lemma needs_rel_sorted: "needs_rel (sort_key fst jobs) = needs_rel jobs"
  by (simp add: needs_rel_def)

lemma needs_of_names:
  "needs_of sj N \<Longrightarrow> k < length sj \<Longrightarrow> (\<lambda>d. fst (sj ! d)) ` set (N ! k) = set (jb_needs (snd (sj ! k)))"
  using needs_of_nth [of sj N k] by (metis list.set_map mset_eq_setD)

lemma unplaced_needs_unplaced:
  assumes "topo_inv N s" "ts_ready s = []" "needs_of sj N" "i < length sj" "i \<notin> set (ts_order s)"
  obtains d where "d \<in> set (N ! i)" "d < length sj" "d \<notin> set (ts_order s)"
proof -
  have "\<not> set (N ! i) \<subseteq> set (ts_order s)"
    using topo_inv_zero [OF assms(1), of i] assms by (simp add: needs_of_def)
  then obtain d where "d \<in> set (N ! i)" "d \<notin> set (ts_order s)" by blast
  with that needs_of_nth [OF assms(3,4)] show ?thesis by blast
qed

lemma needs_rel_finite: "finite (needs_rel jobs)"
proof (rule finite_subset)
  show "needs_rel jobs \<subseteq> (\<Union>(b, j)\<in>set jobs. set (jb_needs j) \<times> {b})" by (auto simp: needs_rel_def)
qed auto

lemma stuck_is_cyclic:
  assumes "topo_inv N s" "ts_ready s = []" "needs_of sj N" "length (ts_order s) \<noteq> length sj"
  shows "\<not> acyclic (needs_rel sj)"
proof
  assume "acyclic (needs_rel sj)"
  then have wf: "wf (needs_rel sj)" using needs_rel_finite finite_acyclic_wf by blast
  let ?U = "{..<length sj} - set (ts_order s)"
  have "distinct (ts_order s)" "set (ts_order s) \<subseteq> {..<length sj}"
    using assms(1,3) by (auto simp: topo_inv_def needs_of_def)
  then have "?U \<noteq> {}" using assms(4) by (metis Diff_eq_empty_iff card_lessThan distinct_card subset_antisym)
  then obtain u where "u \<in> ?U" by blast
  then have "fst (sj ! u) \<in> (\<lambda>i. fst (sj ! i)) ` ?U" by blast
  from wfE_min [OF wf this] obtain z where z: "z \<in> (\<lambda>i. fst (sj ! i)) ` ?U"
    "\<And>y. (y, z) \<in> needs_rel sj \<Longrightarrow> y \<notin> (\<lambda>i. fst (sj ! i)) ` ?U" by blast
  then obtain i where i: "i < length sj" "i \<notin> set (ts_order s)" "z = fst (sj ! i)" by auto
  obtain d where d: "d \<in> set (N ! i)" "d < length sj" "d \<notin> set (ts_order s)"
    using unplaced_needs_unplaced [OF assms(1,2,3) i(1,2)] by blast
  have "(fst (sj ! i), snd (sj ! i)) \<in> set sj" using i(1) by simp
  moreover have "fst (sj ! d) \<in> set (jb_needs (snd (sj ! i)))"
    using needs_of_names [OF assms(3) i(1)] d(1) by blast
  ultimately have "(fst (sj ! d), z) \<in> needs_rel sj" unfolding needs_rel_def i(3) by blast
  with z(2) d(2,3) show False by blast
qed

lemma placed_is_acyclic:
  assumes "topo_inv N s" "needs_of sj N" "length (ts_order s) = length sj" "distinct (map fst sj)"
  shows "acyclic (needs_rel sj)"
proof -
  have lN: "length N = length sj" using assms(2) by (simp add: needs_of_def)
  then have lo: "length (ts_order s) = length N" using assms(3) by simp
  define rank where "rank b = ts_position s ! (the (position (\<lambda>n. n = b) (map fst sj)))" for b
  have rank: "rank (fst (sj ! i)) = ts_position s ! i" if "i < length sj" for i
  proof -
    have "position (\<lambda>n. n = fst (sj ! i)) (map fst sj) = Some i"
      using that assms(4) by (simp add: position_distinct)
    then show ?thesis by (simp add: rank_def)
  qed
  have "rank a < rank b" if ab: "(a, b) \<in> needs_rel sj" for a b
  proof -
    obtain j where j: "(b, j) \<in> set sj" "a \<in> set (jb_needs j)" using ab by (auto simp: needs_rel_def)
    then obtain i where "i < length sj" "sj ! i = (b, j)" by (metis in_set_conv_nth)
    with j have i: "i < length sj" "fst (sj ! i) = b" "a \<in> set (jb_needs (snd (sj ! i)))" by simp_all
    have "a \<in> (\<lambda>d. fst (sj ! d)) ` set (N ! i)" unfolding needs_of_names [OF assms(2) i(1)] by (rule i(3))
    then obtain d where d: "d \<in> set (N ! i)" "fst (sj ! d) = a" by auto
    then have dl: "d < length sj" using needs_of_nth [OF assms(2) i(1)] by blast
    note t = topo_done [OF assms(1) lo]
    define k where "k = ts_position s ! i"
    have k: "k < length (ts_order s)" "ts_order s ! k = i" using t(4) i(1) lN lo by (simp_all add: k_def)
    have "d \<in> set (take k (ts_order s))" using assms(1) k d(1) unfolding topo_inv_def by blast
    then obtain m where "m < k" "ts_order s ! m = d" using k(1) by (auto simp: in_set_conv_nth)
    then have "ts_position s ! d < k" using t(3) k(1) lo by auto
    then show ?thesis using rank [OF i(1)] rank [OF dl] i(2) d(2) by (simp add: k_def)
  qed
  then have "needs_rel sj \<subseteq> measure rank" by auto
  then show ?thesis by (meson wf_acyclic wf_measure wf_subset)
qed

lemma sort_key_unique:
  assumes "mset xs = mset ys" "distinct (map f xs)"
  shows "sort_key f xs = sort_key f ys"
proof (rule sort_key_inj_key_eq)
  show "mset xs = mset (sort_key f ys)" using assms(1) by simp
  show "inj_on f (set xs)" using assms(2) by (simp add: distinct_map)
  show "sorted (map f (sort_key f ys))" by simp
qed

subsection \<open>When compilation succeeds\<close>

abbreviation checked_needs :: "pipeline \<Rightarrow> nat list list \<Rightarrow> bool" where
  "checked_needs p N \<equiv>
     traverse_from 0 (\<lambda>_. needs_index (sort_key fst (pl_jobs p))) (sort_key fst (pl_jobs p)) = Inr N"

abbreviation few_steps :: "pipeline \<Rightarrow> bool" where
  "few_steps p \<equiv> sum_list (map (\<lambda>(_, j). length (jb_steps j)) (pl_jobs p)) \<le> MAX_STEPS_TOTAL"

definition total_codec :: "codec \<Rightarrow> bool" where
  "total_codec cd \<longleftrightarrow> (\<forall>c. enc_condition cd c \<noteq> None) \<and> (\<forall>t. enc_template cd t \<noteq> None)"

lemma dg_each_total: "(\<And>x h. \<exists>h'. f x h = Inr h') \<Longrightarrow> \<exists>h'. dg_each f xs h = Inr h'"
proof (induction xs arbitrary: h)
  case (Cons x xs)
  obtain h' where "f x h = Inr h'" using Cons.prems by blast
  with Cons show ?case by simp
qed simp

lemma digest_total:
  assumes "total_codec cd"
  shows "\<exists>d. digest_of cd on cc jobs = Inr d"
proof -
  have e: "\<exists>h'. dg_encoded (enc_condition cd c) h = Inr h'" "\<exists>h'. dg_encoded (enc_template cd t) h = Inr h'" for c t h
    using assms by (auto simp: total_codec_def dg_encoded_def split: option.splits)
  have st: "\<exists>h'. digest_step cd s h = Inr h'" for s h
    using e(1) by (auto simp: digest_step_def Let_def res_bind_eq_Inr)
  have ca: "\<exists>h'. dg_cache cd c h = Inr h'" for c h
    using e(2) by (auto simp: dg_cache_def res_bind_eq_Inr)
  have jb: "\<exists>h'. dg_job cd j h = Inr h'" for j h
    using e(1) dg_each_total [OF st] dg_each_total [OF ca] by (fastforce simp: dg_job_def Let_def res_bind_eq_Inr)
  have "\<exists>h'. dg_concurrency cd cc h = Inr h'" for h
    using e(2) by (cases cc) (auto simp: dg_concurrency_def res_bind_eq_Inr)
  then show ?thesis using dg_each_total [OF jb] by (fastforce simp: digest_of_def res_bind_eq_Inr)
qed

lemma dg_each_error:
  "dg_each f xs h = Inl e \<Longrightarrow> (\<And>x h e. f x h = Inl e \<Longrightarrow> e = CE_Encoding) \<Longrightarrow> e = CE_Encoding"
  by (induction xs arbitrary: h) (auto simp: res_bind_eq_Inl)

lemma digest_error: "digest_of cd on cc jobs = Inl e \<Longrightarrow> e = CE_Encoding"
proof -
  have e: "dg_encoded b h = Inl e \<Longrightarrow> e = CE_Encoding" for b h e
    by (auto simp: dg_encoded_def split: option.splits)
  have st: "digest_step cd s h = Inl e \<Longrightarrow> e = CE_Encoding" for s h e
    using e by (auto simp: digest_step_def Let_def res_bind_eq_Inl)
  have ca: "dg_cache cd c h = Inl e \<Longrightarrow> e = CE_Encoding" for c h e
    using e by (auto simp: dg_cache_def res_bind_eq_Inl)
  have jb: "dg_job cd j h = Inl e \<Longrightarrow> e = CE_Encoding" for j h e
    using e dg_each_error [OF _ st] dg_each_error [OF _ ca] by (auto simp: dg_job_def Let_def res_bind_eq_Inl)
  have "dg_concurrency cd cc h = Inl e \<Longrightarrow> e = CE_Encoding" for h e
    using e by (cases cc) (auto simp: dg_concurrency_def res_bind_eq_Inl)
  then show "digest_of cd on cc jobs = Inl e \<Longrightarrow> e = CE_Encoding"
    using dg_each_error [OF _ jb] by (auto simp: digest_of_def res_bind_eq_Inl)
qed

lemma compile_cycle_iff:
  assumes "distinct (map fst (pl_jobs p))" "few_steps p" "checked_needs p N"
  shows "(\<exists>cs. compile cd p = Some (Inl (CE_Cycle cs))) \<longleftrightarrow> \<not> acyclic (needs_rel (pl_jobs p))"
    and "acyclic (needs_rel (pl_jobs p)) \<Longrightarrow> total_codec cd \<Longrightarrow> \<exists>c. compile cd p = Some (Inr c)"
proof -
  let ?sj = "sort_key fst (pl_jobs p)"
  have "\<not> MAX_STEPS_TOTAL < sum_list (map (\<lambda>(_, j). length (jb_steps j)) (pl_jobs p))" using assms(2) by simp
  from compile_cases [OF this assms(3)] obtain s where s: "topo_inv N s" "ts_ready s = []" "needs_of ?sj N"
    "compile cd p = finish_order cd p ?sj N s" by metis
  have d: "distinct (map fst ?sj)" using assms(1) by (simp add: distinct_map)
  show "(\<exists>cs. compile cd p = Some (Inl (CE_Cycle cs))) \<longleftrightarrow> \<not> acyclic (needs_rel (pl_jobs p))"
  proof (cases "length (ts_order s) = length ?sj")
    case True
    have "acyclic (needs_rel (pl_jobs p))"
      using placed_is_acyclic [OF s(1,3) True d] by (simp only: needs_rel_sorted)
    moreover have "compile cd p \<noteq> Some (Inl (CE_Cycle cs))" for cs
      unfolding s(4) finish_order_done [OF s(1,3) True] Let_def
      by (auto simp: res_map_def split: sum.splits dest: digest_error)
    ultimately show ?thesis by blast
  next
    case False
    have "\<not> acyclic (needs_rel (pl_jobs p))"
      using stuck_is_cyclic [OF s(1,2,3) False] unfolding needs_rel_sorted .
    with False s(4) show ?thesis by (simp add: finish_order_def)
  qed
  assume a: "acyclic (needs_rel (pl_jobs p))" "total_codec cd"
  have l: "length (ts_order s) = length ?sj"
  proof (rule ccontr)
    assume "length (ts_order s) \<noteq> length ?sj"
    from stuck_is_cyclic [OF s(1,2,3) this] a(1) show False unfolding needs_rel_sorted by blast
  qed
  show "\<exists>c. compile cd p = Some (Inr c)"
    unfolding s(4) finish_order_done [OF s(1,3) l] Let_def using digest_total [OF a(2)]
    by (metis res_map_simps(2))
qed

text \<open>Two jobs, the second of which the first needs; the second may need the first in turn.\<close>

definition plain_job :: "string list \<Rightarrow> job" where
  "plain_job needs = \<lparr>jb_image = ''alpine'', jb_needs = needs, jb_condition = None,
     jb_runs_on = runs_on_default, jb_resources = rp_default POLICY_DEFAULT, jb_timeout_secs = 3600,
     jb_env = [], jb_workdir = None, jb_steps = [], jb_cache = [], jb_artifacts = [],
     jb_secrets = [], jb_registry_auth = None\<rparr>"

definition two_jobs :: "string list \<Rightarrow> pipeline" where
  "two_jobs needs = \<lparr>pl_on = triggers_default, pl_concurrency = None,
     pl_jobs = [(''t'', plain_job [''b'']), (''b'', plain_job needs)]\<rparr>"

definition null_codec :: codec where
  "null_codec = \<lparr>enc_condition = \<lambda>_. Some [], enc_template = \<lambda>_. Some []\<rparr>"

lemma two_jobs_facts:
  "distinct (map fst (pl_jobs (two_jobs needs)))" "few_steps (two_jobs needs)"
  "sort_key fst (pl_jobs (two_jobs needs)) = [(''b'', plain_job needs), (''t'', plain_job [''b''])]"
  "total_codec null_codec"
  by (simp_all add: two_jobs_def plain_job_def MAX_STEPS_TOTAL_def total_codec_def null_codec_def
    less_char_def less_eq_char_def)

lemma plain_job_check: "check_job name (plain_job needs) = Inr ()" "jb_needs (plain_job needs) = needs"
  by (simp_all add: check_job_def check_job_condition_def plain_job_def)

lemma two_jobs_checked:
  "checked_needs (two_jobs []) [[], [0]]" "checked_needs (two_jobs [''t'']) [[1], [0]]"
  unfolding two_jobs_facts by (simp_all add: needs_index_def plain_job_check index_of_def)

lemma two_jobs_rel:
  "(x, y) \<in> needs_rel (pl_jobs (two_jobs needs)) \<longleftrightarrow> y = ''t'' \<and> x = ''b'' \<or> y = ''b'' \<and> x \<in> set needs"
proof -
  have "(x, y) \<in> needs_rel (pl_jobs (two_jobs needs)) \<longleftrightarrow>
      (\<exists>j. (y = ''t'' \<and> j = plain_job [''b''] \<or> y = ''b'' \<and> j = plain_job needs) \<and> x \<in> set (jb_needs j))"
    by (simp add: needs_rel_def two_jobs_def)
  also have "\<dots> \<longleftrightarrow> y = ''t'' \<and> x \<in> set [''b''] \<or> y = ''b'' \<and> x \<in> set needs"
    unfolding conj_disj_distribR ex_disj_distrib by (simp add: plain_job_check)
  finally show ?thesis by simp
qed

lemma two_jobs_acyclic: "acyclic (needs_rel (pl_jobs (two_jobs [])))"
proof (rule wf_acyclic, rule wf_subset)
  show "wf (measure (\<lambda>s. if s = ''t'' then 1 else 0))" by simp
  show "needs_rel (pl_jobs (two_jobs [])) \<subseteq> measure (\<lambda>s. if s = ''t'' then 1 else 0)"
    by (rule subrelI) (simp add: two_jobs_rel)
qed

lemma two_jobs_cyclic: "\<not> acyclic (needs_rel (pl_jobs (two_jobs [''t''])))"
proof
  let ?R = "needs_rel (pl_jobs (two_jobs [''t'']))"
  assume "acyclic ?R"
  moreover have "(''b'', ''b'') \<in> ?R\<^sup>+"
    by (rule trancl_into_trancl [where b = "''t''"]) (rule r_into_trancl, simp_all add: two_jobs_rel)
  ultimately show False unfolding acyclic_def by blast
qed

lemma two_jobs_compile: "\<exists>c. compile null_codec (two_jobs []) = Some (Inr c)"
  by (rule compile_cycle_iff(2) [OF two_jobs_facts(1,2) two_jobs_checked(1) two_jobs_acyclic two_jobs_facts(4)])

subsection \<open>Properties\<close>

text \<open>
  C22: compilation returns for every pipeline: the work list always empties, and every job has been
  placed when the order is complete, so the final \<open>expect\<close> cannot panic.
\<close>

theorem compile_always_returns:
  "\<exists>r. compile cd p = Some r"
  by (rule compile_returns)

text \<open>
  C18: a compiled pipeline has exactly the jobs of the source, each at an index above those of the
  jobs it needs. The indices a job needs are increasing, without repetition, and name exactly the
  jobs of its \<open>needs\<close> list.
\<close>

theorem compiled_jobs_are_topologically_ordered:
  assumes "distinct (map fst (pl_jobs p))" "compile cd p = Some (Inr c)"
  shows "mset (map (\<lambda>j. (cj_name j, cj_spec j)) (cp_jobs c)) = mset (pl_jobs p)
    \<and> (\<forall>k<length (cp_jobs c). let j = cp_jobs c ! k in
         sorted (cj_needs j) \<and> distinct (cj_needs j) \<and> (\<forall>d\<in>set (cj_needs j). d < k)
         \<and> mset (map (\<lambda>d. cj_name (cp_jobs c ! d)) (cj_needs j)) = mset (jb_needs (cj_spec j)))"
proof -
  let ?sj = "sort_key fst (pl_jobs p)"
  obtain N s where s: "topo_inv N s" "needs_of ?sj N" "length (ts_order s) = length ?sj"
    and jobs: "cp_jobs c = map (placed_job ?sj N (ts_position s)) (ts_order s)"
    using compiled_order [OF assms(2)] by metis
  have "map (\<lambda>j. (cj_name j, cj_spec j)) (cp_jobs c) = map (\<lambda>i. ?sj ! i) (ts_order s)"
    by (simp add: jobs placed_job_def)
  then have "mset (map (\<lambda>j. (cj_name j, cj_spec j)) (cp_jobs c)) = mset (pl_jobs p)"
    using compiled_multiset [OF s] by simp
  moreover have "length (cp_jobs c) = length ?sj" using jobs s(3) by simp
  ultimately show ?thesis using compiled_nth(3-6) [OF s _ jobs] by (simp add: Let_def)
qed

theorem compiled_jobs_are_topologically_ordered_witness:
  "\<exists>c. compile null_codec (two_jobs []) = Some (Inr c)
     \<and> mset (map (\<lambda>j. (cj_name j, cj_spec j)) (cp_jobs c)) = mset (pl_jobs (two_jobs []))"
  using two_jobs_compile compiled_jobs_are_topologically_ordered [OF two_jobs_facts(1)] by blast

text \<open>
  C19: a dependency cycle is reported exactly when there is one: for a pipeline whose jobs pass
  their own checks, compilation fails with a cycle error if and only if the \<open>needs\<close> relation is
  cyclic.
\<close>

theorem cycles_are_reported_exactly:
  assumes "distinct (map fst (pl_jobs p))" "few_steps p" "checked_needs p N"
  shows "(\<exists>cs. compile cd p = Some (Inl (CE_Cycle cs))) \<longleftrightarrow> \<not> acyclic (needs_rel (pl_jobs p))"
  by (rule compile_cycle_iff(1) [OF assms])

theorem cycles_are_reported_exactly_witness:
  "(\<exists>cs. compile null_codec (two_jobs [''t'']) = Some (Inl (CE_Cycle cs)))
   \<and> \<not> (\<exists>cs. compile null_codec (two_jobs []) = Some (Inl (CE_Cycle cs)))"
  using cycles_are_reported_exactly [OF two_jobs_facts(1,2) two_jobs_checked(1), of null_codec]
    cycles_are_reported_exactly [OF two_jobs_facts(1,2) two_jobs_checked(2), of null_codec]
    two_jobs_acyclic two_jobs_cyclic by simp

text \<open>
  C34: the compiled form, the digest included, is a function of the set of jobs: the order in which
  the document lists them does not matter.
\<close>

theorem compile_ignores_listing_order:
  assumes "distinct (map fst (pl_jobs p))" "mset (pl_jobs q) = mset (pl_jobs p)"
    "pl_on q = pl_on p" "pl_concurrency q = pl_concurrency p"
  shows "compile cd q = compile cd p"
proof -
  have k: "sort_key fst (pl_jobs q) = sort_key fst (pl_jobs p)"
    using sort_key_unique [OF assms(2) [symmetric] assms(1)] by simp
  have "mset (map (\<lambda>(_, j). length (jb_steps j)) (pl_jobs q)) = mset (map (\<lambda>(_, j). length (jb_steps j)) (pl_jobs p))"
    using assms(2) by simp
  then have steps: "sum_list (map (\<lambda>(_, j). length (jb_steps j)) (pl_jobs q)) = sum_list (map (\<lambda>(_, j). length (jb_steps j)) (pl_jobs p))"
    using sum_mset_sum_list by metis
  have fin: "finish_order cd q = finish_order cd p"
    by (simp add: fun_eq_iff finish_order_def assms(3,4))
  show ?thesis unfolding compile_def k steps fin ..
qed

theorem compile_ignores_listing_order_witness:
  "compile null_codec (two_jobs []\<lparr>pl_jobs := rev (pl_jobs (two_jobs []))\<rparr>) = compile null_codec (two_jobs [])
   \<and> rev (pl_jobs (two_jobs [])) \<noteq> pl_jobs (two_jobs [])"
  using compile_ignores_listing_order [OF two_jobs_facts(1),
      of "two_jobs []\<lparr>pl_jobs := rev (pl_jobs (two_jobs []))\<rparr>" "[]" null_codec]
  by (simp add: two_jobs_def)

end
