(* ===== verification/Run_Spec.thy ===== *)
theory Run_Spec
  imports Compile_Order Schema_Wf
begin

text \<open>
  The immutable specification of a run, \<open>crates/sentinel-pipeline/src/run.rs\<close>: pinned sources, image
  references, the stored blob with its five readable formats, and the command of a step.

  The positional serializer (the \<open>postcard\<close> crate) is the parameter \<open>spec_codec\<close>: one writer or reader
  per type graph.  The conversions between the graphs, the choice of the written format and the
  refusal of trailing bytes are the program's and are modelled.
\<close>

subsection \<open>Pinned sources\<close>

record pinned_source =
  ps_repo :: string
  ps_sha :: string
  ps_ref_name :: "string option"

datatype source_error = EmptyRepo | InvalidSha

definition is_lower_hex :: "char \<Rightarrow> bool" where
  "is_lower_hex c \<longleftrightarrow> is_digit c \<or> (CHR ''a'' \<le> c \<and> c \<le> CHR ''f'')"

definition pinned_source_new :: "string \<Rightarrow> string \<Rightarrow> string option \<Rightarrow> source_error + pinned_source" where
  "pinned_source_new repo sha ref_name =
     (if repo = [] \<or> length repo > 512 then Inl EmptyRepo
      else if \<not> ((length sha = 40 \<or> length sha = 64) \<and> list_all is_lower_hex sha) then Inl InvalidSha
      else Inr \<lparr>ps_repo = repo, ps_sha = sha, ps_ref_name = ref_name\<rparr>)"

subsection \<open>Image references\<close>

record image_ref =
  im_name :: string
  im_tag :: "string option"
  im_digest :: "string option"

datatype image_error = IE_Empty | IE_InvalidDigest | IE_InvalidTag | IE_InvalidName

text \<open>\<open>str::rfind\<close> and \<open>str::find\<close> for one byte.\<close>

definition find_byte :: "char \<Rightarrow> string \<Rightarrow> nat option" where
  "find_byte c s = position (\<lambda>x. x = c) s"

definition rfind_byte :: "char \<Rightarrow> string \<Rightarrow> nat option" where
  "rfind_byte c s = map_option (\<lambda>i. length s - 1 - i) (find_byte c (rev s))"

definition split_digest :: "string \<Rightarrow> image_error + (string \<times> string option)" where
  "split_digest reference =
     (case split_once (CHR ''@'') reference of
        Some (r, d) \<Rightarrow>
          res_bind (ok_or IE_InvalidDigest (strip_prefix ''sha256:'' d)) (\<lambda>hex.
            if length hex \<noteq> 64 \<or> \<not> list_all is_lower_hex hex then Inl IE_InvalidDigest
            else Inr (r, Some d))
      | None \<Rightarrow> Inr (reference, None))"

definition split_tag :: "string \<Rightarrow> image_error + (string \<times> string option)" where
  "split_tag rest =
     (let last_slash = (case rfind_byte (CHR ''/'') rest of Some i \<Rightarrow> i + 1 | None \<Rightarrow> 0) in
      case find_byte (CHR '':'') (drop last_slash rest) of
        Some i \<Rightarrow>
          let tag = drop (last_slash + i + 1) rest in
          if tag = [] \<or> length tag > 128
             \<or> \<not> list_all (\<lambda>b. is_alnum b \<or> b = CHR ''_'' \<or> b = CHR ''.'' \<or> b = CHR ''-'') tag
          then Inl IE_InvalidTag
          else Inr (take (last_slash + i) rest, Some tag)
      | None \<Rightarrow> Inr (rest, None))"

definition image_parse :: "string \<Rightarrow> image_error + image_ref" where
  "image_parse reference =
     (if reference = [] then Inl IE_Empty
      else res_bind (split_digest reference) (\<lambda>(rest, digest).
        res_bind (split_tag rest) (\<lambda>(name, tag).
          if name = [] \<or> suffix ''/'' name \<or> prefix ''/'' name then Inl IE_InvalidName
          else Inr \<lparr>im_name = name, im_tag = tag, im_digest = digest\<rparr>)))"

definition is_pinned :: "image_ref \<Rightarrow> bool" where
  "is_pinned self \<longleftrightarrow> im_digest self \<noteq> None"

definition image_pin :: "image_ref \<Rightarrow> string \<Rightarrow> image_error + image_ref" where
  "image_pin self digest =
     (if im_digest self \<noteq> None then Inl IE_InvalidDigest
      else res_bind (image_parse (im_name self @ ''@'' @ digest)) (\<lambda>parsed.
        Inr (self\<lparr>im_digest := im_digest parsed\<rparr>)))"

definition image_display :: "image_ref \<Rightarrow> string" where
  "image_display self =
     im_name self
     @ (case im_tag self of Some t \<Rightarrow> '':'' @ t | None \<Rightarrow> [])
     @ (case im_digest self of Some d \<Rightarrow> ''@'' @ d | None \<Rightarrow> [])"

subsection \<open>Specifications\<close>

record run_spec =
  sp_source :: pinned_source
  sp_pipeline :: compiled_pipeline
  sp_images :: "image_ref list"

datatype spec_error = SpecImage nat image_error | SpecEncode | SpecDecode

definition SPEC_FORMAT :: u8 where "SPEC_FORMAT = 7"
definition SPEC_FORMAT_READ_MIN :: u8 where "SPEC_FORMAT_READ_MIN = 3"

definition run_spec_new :: "pinned_source \<Rightarrow> compiled_pipeline \<Rightarrow> spec_error + run_spec" where
  "run_spec_new source pipeline =
     res_bind (traverse_from 0 (\<lambda>i job. map_err (SpecImage i) (image_parse (jb_image (cj_spec job))))
       (cp_jobs pipeline)) (\<lambda>images.
     Inr \<lparr>sp_source = source, sp_pipeline = pipeline, sp_images = images\<rparr>)"

definition spec_format :: "run_spec \<Rightarrow> u8" where
  "spec_format self =
     (if list_ex (\<lambda>j. states_runtime (jb_runs_on (cj_spec j))) (cp_jobs (sp_pipeline self))
      then SPEC_FORMAT else 6)"

subsection \<open>Earlier type graphs\<close>

record runs_on_v1 =
  o1_arch :: "arch option"
  o1_labels :: "string list"

definition runs_on_of_v1 :: "runs_on_v1 \<Rightarrow> runs_on" where
  "runs_on_of_v1 old =
     \<lparr>ro_arch = o1_arch old, ro_labels = o1_labels old, ro_os = None, ro_isolation = None\<rparr>"

record cache_v3 =
  c3_name :: string
  c3_key :: template
  c3_paths :: "string list"

record step_v4 =
  s4_id :: string
  s4_run :: string
  s4_condition :: "expr option"
  s4_shell :: shell
  s4_env :: "(string \<times> string) list"
  s4_workdir :: "string option"
  s4_timeout_secs :: "nat option"

record job_v6 =
  j6_image :: string
  j6_needs :: "string list"
  j6_condition :: "expr option"
  j6_runs_on :: runs_on_v1
  j6_resources :: resources
  j6_timeout_secs :: nat
  j6_env :: "(string \<times> string) list"
  j6_workdir :: "string option"
  j6_steps :: "step list"
  j6_cache :: "cache list"
  j6_artifacts :: "artifact list"
  j6_secrets :: "string list"
  j6_registry_auth :: "string option"

record job_v5 =
  j5_image :: string
  j5_needs :: "string list"
  j5_condition :: "expr option"
  j5_runs_on :: runs_on_v1
  j5_resources :: resources
  j5_timeout_secs :: nat
  j5_env :: "(string \<times> string) list"
  j5_workdir :: "string option"
  j5_steps :: "step list"
  j5_cache :: "cache list"
  j5_artifacts :: "artifact list"
  j5_secrets :: "string list"

record job_v4 =
  j4_image :: string
  j4_needs :: "string list"
  j4_condition :: "expr option"
  j4_runs_on :: runs_on_v1
  j4_resources :: resources
  j4_timeout_secs :: nat
  j4_env :: "(string \<times> string) list"
  j4_workdir :: "string option"
  j4_steps :: "step_v4 list"
  j4_cache :: "cache list"
  j4_artifacts :: "artifact list"
  j4_secrets :: "string list"

record job_v3 =
  j3_image :: string
  j3_needs :: "string list"
  j3_condition :: "expr option"
  j3_runs_on :: runs_on_v1
  j3_resources :: resources
  j3_timeout_secs :: nat
  j3_env :: "(string \<times> string) list"
  j3_workdir :: "string option"
  j3_steps :: "step_v4 list"
  j3_cache :: "cache_v3 list"
  j3_artifacts :: "artifact list"
  j3_secrets :: "string list"

text \<open>The compiled job, pipeline and specification of a format differ only in the job they hold.\<close>

record 'j compiled_job_old =
  cjo_name :: string
  cjo_needs :: "nat list"
  cjo_spec :: 'j

record 'j compiled_pipeline_old =
  cpo_on :: triggers
  cpo_concurrency :: "concurrency option"
  cpo_jobs :: "'j compiled_job_old list"
  cpo_digest :: u128

record 'j run_spec_old =
  spo_source :: pinned_source
  spo_pipeline :: "'j compiled_pipeline_old"
  spo_images :: "image_ref list"

text \<open>The part the four \<open>From<RunSpecVn> for RunSpec\<close> share, over the conversion of a job.\<close>

definition run_spec_of_old :: "('j \<Rightarrow> job) \<Rightarrow> 'j run_spec_old \<Rightarrow> run_spec" where
  "run_spec_of_old job_of old =
     \<lparr>sp_source = spo_source old,
      sp_pipeline =
        \<lparr>cp_on = cpo_on (spo_pipeline old), cp_concurrency = cpo_concurrency (spo_pipeline old),
         cp_jobs = map (\<lambda>j. \<lparr>cj_name = cjo_name j, cj_needs = cjo_needs j, cj_spec = job_of (cjo_spec j)\<rparr>)
           (cpo_jobs (spo_pipeline old)),
         cp_digest = cpo_digest (spo_pipeline old)\<rparr>,
      sp_images = spo_images old\<rparr>"

definition job_of_v6 :: "job_v6 \<Rightarrow> job" where
  "job_of_v6 j =
     \<lparr>jb_image = j6_image j, jb_needs = j6_needs j, jb_condition = j6_condition j,
      jb_runs_on = runs_on_of_v1 (j6_runs_on j), jb_resources = j6_resources j,
      jb_timeout_secs = j6_timeout_secs j, jb_env = j6_env j, jb_workdir = j6_workdir j,
      jb_steps = j6_steps j, jb_cache = j6_cache j, jb_artifacts = j6_artifacts j,
      jb_secrets = j6_secrets j, jb_registry_auth = j6_registry_auth j\<rparr>"

definition job_of_v5 :: "job_v5 \<Rightarrow> job" where
  "job_of_v5 j =
     \<lparr>jb_image = j5_image j, jb_needs = j5_needs j, jb_condition = j5_condition j,
      jb_runs_on = runs_on_of_v1 (j5_runs_on j), jb_resources = j5_resources j,
      jb_timeout_secs = j5_timeout_secs j, jb_env = j5_env j, jb_workdir = j5_workdir j,
      jb_steps = j5_steps j, jb_cache = j5_cache j, jb_artifacts = j5_artifacts j,
      jb_secrets = j5_secrets j, jb_registry_auth = None\<rparr>"

definition step_of_v4 :: "step_v4 \<Rightarrow> step" where
  "step_of_v4 old =
     \<lparr>st_id = s4_id old, st_run = s4_run old, st_condition = s4_condition old,
      st_shell = s4_shell old, st_env = s4_env old, st_secrets = [], st_secret_files = [],
      st_workdir = s4_workdir old, st_timeout_secs = s4_timeout_secs old\<rparr>"

definition job_of_v4 :: "job_v4 \<Rightarrow> job" where
  "job_of_v4 j =
     \<lparr>jb_image = j4_image j, jb_needs = j4_needs j, jb_condition = j4_condition j,
      jb_runs_on = runs_on_of_v1 (j4_runs_on j), jb_resources = j4_resources j,
      jb_timeout_secs = j4_timeout_secs j, jb_env = j4_env j, jb_workdir = j4_workdir j,
      jb_steps = map step_of_v4 (j4_steps j), jb_cache = j4_cache j,
      jb_artifacts = j4_artifacts j, jb_secrets = j4_secrets j, jb_registry_auth = None\<rparr>"

definition job_of_v3 :: "job_v3 \<Rightarrow> job" where
  "job_of_v3 v3 =
     \<lparr>jb_image = j3_image v3, jb_needs = j3_needs v3, jb_condition = j3_condition v3,
      jb_runs_on = runs_on_of_v1 (j3_runs_on v3), jb_resources = j3_resources v3,
      jb_timeout_secs = j3_timeout_secs v3, jb_env = j3_env v3, jb_workdir = j3_workdir v3,
      jb_steps = map step_of_v4 (j3_steps v3),
      jb_cache = map (\<lambda>c. \<lparr>ca_name = c3_name c, ca_class = Dependencies, ca_key = c3_key c,
        ca_paths = c3_paths c\<rparr>) (j3_cache v3),
      jb_artifacts = j3_artifacts v3, jb_secrets = j3_secrets v3, jb_registry_auth = None\<rparr>"

definition run_spec_of_v6 :: "job_v6 run_spec_old \<Rightarrow> run_spec" where
  "run_spec_of_v6 = run_spec_of_old job_of_v6"

definition run_spec_of_v5 :: "job_v5 run_spec_old \<Rightarrow> run_spec" where
  "run_spec_of_v5 = run_spec_of_old job_of_v5"

definition run_spec_of_v4 :: "job_v4 run_spec_old \<Rightarrow> run_spec" where
  "run_spec_of_v4 = run_spec_of_old job_of_v4"

definition run_spec_of_v3 :: "job_v3 run_spec_old \<Rightarrow> run_spec" where
  "run_spec_of_v3 = run_spec_of_old job_of_v3"

definition run_spec_to_v6 :: "run_spec \<Rightarrow> job_v6 run_spec_old" where
  "run_spec_to_v6 spec =
     \<lparr>spo_source = sp_source spec,
      spo_pipeline =
        \<lparr>cpo_on = cp_on (sp_pipeline spec), cpo_concurrency = cp_concurrency (sp_pipeline spec),
         cpo_jobs = map (\<lambda>j.
           \<lparr>cjo_name = cj_name j, cjo_needs = cj_needs j,
            cjo_spec =
              \<lparr>j6_image = jb_image (cj_spec j), j6_needs = jb_needs (cj_spec j),
               j6_condition = jb_condition (cj_spec j),
               j6_runs_on = \<lparr>o1_arch = ro_arch (jb_runs_on (cj_spec j)),
                 o1_labels = ro_labels (jb_runs_on (cj_spec j))\<rparr>,
               j6_resources = jb_resources (cj_spec j),
               j6_timeout_secs = jb_timeout_secs (cj_spec j), j6_env = jb_env (cj_spec j),
               j6_workdir = jb_workdir (cj_spec j), j6_steps = jb_steps (cj_spec j),
               j6_cache = jb_cache (cj_spec j), j6_artifacts = jb_artifacts (cj_spec j),
               j6_secrets = jb_secrets (cj_spec j),
               j6_registry_auth = jb_registry_auth (cj_spec j)\<rparr>\<rparr>) (cp_jobs (sp_pipeline spec)),
         cpo_digest = cp_digest (sp_pipeline spec)\<rparr>,
      spo_images = sp_images spec\<rparr>"

subsection \<open>The stored blob\<close>

text \<open>
  \<open>postcard::to_allocvec\<close> for the two graphs that are written, \<open>postcard::take_from_bytes\<close> for the
  five that are read: the value and the bytes that follow it.
\<close>

record spec_codec =
  pc_to_v7 :: "run_spec \<Rightarrow> u8 list option"
  pc_to_v6 :: "job_v6 run_spec_old \<Rightarrow> u8 list option"
  pc_from_v7 :: "u8 list \<Rightarrow> (run_spec \<times> u8 list) option"
  pc_from_v6 :: "u8 list \<Rightarrow> (job_v6 run_spec_old \<times> u8 list) option"
  pc_from_v5 :: "u8 list \<Rightarrow> (job_v5 run_spec_old \<times> u8 list) option"
  pc_from_v4 :: "u8 list \<Rightarrow> (job_v4 run_spec_old \<times> u8 list) option"
  pc_from_v3 :: "u8 list \<Rightarrow> (job_v3 run_spec_old \<times> u8 list) option"

definition spec_encode :: "spec_codec \<Rightarrow> run_spec \<Rightarrow> spec_error + u8 list" where
  "spec_encode pc self =
     (let fmt = spec_format self;
          body = (if fmt = 6 then pc_to_v6 pc (run_spec_to_v6 self) else pc_to_v7 pc self)
      in res_map (\<lambda>b. fmt # b) (ok_or SpecEncode body))"

definition whole :: "(u8 list \<Rightarrow> ('a \<times> u8 list) option) \<Rightarrow> u8 list \<Rightarrow> spec_error + 'a" where
  "whole take_from_bytes body =
     (case take_from_bytes body of Some (v, []) \<Rightarrow> Inr v | _ \<Rightarrow> Inl SpecDecode)"

definition spec_decode :: "spec_codec \<Rightarrow> u8 list \<Rightarrow> spec_error + run_spec" where
  "spec_decode pc bytes =
     (case bytes of
        [] \<Rightarrow> Inl SpecDecode
      | fmt # body \<Rightarrow>
          if fmt = SPEC_FORMAT then whole (pc_from_v7 pc) body
          else if fmt = 6 then res_map run_spec_of_v6 (whole (pc_from_v6 pc) body)
          else if fmt = 5 then res_map run_spec_of_v5 (whole (pc_from_v5 pc) body)
          else if fmt = 4 then res_map run_spec_of_v4 (whole (pc_from_v4 pc) body)
          else if fmt = 3 then res_map run_spec_of_v3 (whole (pc_from_v3 pc) body)
          else Inl SpecDecode)"

subsection \<open>Step commands\<close>

record step_command =
  sc_argv :: "string list"
  sc_env :: "(string \<times> string) list"
  sc_secrets :: "string list"
  sc_secret_files :: "secret_file list"
  sc_workdir :: "string option"
  sc_timeout_secs :: nat

text \<open>\<open>match env.iter_mut().find(..) { Some(slot) => slot.1 = v, None => env.push((k, v)) }\<close>.\<close>

fun env_set :: "(string \<times> string) list \<Rightarrow> string \<Rightarrow> string \<Rightarrow> (string \<times> string) list" where
  "env_set [] k v = [(k, v)]"
| "env_set ((name, w) # env) k v =
     (if name = k then (name, v) # env else (name, w) # env_set env k v)"

definition shell_argv :: "shell \<Rightarrow> string list" where
  "shell_argv s = (case s of
       Sh \<Rightarrow> [''/bin/sh'', ''-e'', ''-c'']
     | Bash \<Rightarrow> [''bash'', ''-e'', ''-o'', ''pipefail'', ''-c''])"

definition step_command_new :: "job \<Rightarrow> step \<Rightarrow> step_command" where
  "step_command_new job step =
     \<lparr>sc_argv = shell_argv (st_shell step) @ [st_run step],
      sc_env = foldl (\<lambda>env (k, v). env_set env k v) (jb_env job) (st_env step),
      sc_secrets = st_secrets step,
      sc_secret_files = st_secret_files step,
      sc_workdir =
        (case (jb_workdir job, st_workdir step) of
           (None, None) \<Rightarrow> None
         | (Some j, None) \<Rightarrow> Some j
         | (None, Some s) \<Rightarrow> Some s
         | (Some j, Some s) \<Rightarrow> Some (j @ ''/'' @ s)),
      sc_timeout_secs =
        (case st_timeout_secs step of Some t \<Rightarrow> t | None \<Rightarrow> jb_timeout_secs job)\<rparr>"

definition run_spec_step_command :: "run_spec \<Rightarrow> nat \<Rightarrow> nat \<Rightarrow> step_command option" where
  "run_spec_step_command self job step =
     (if job < length (cp_jobs (sp_pipeline self)) then
        (let j = cj_spec (cp_jobs (sp_pipeline self) ! job) in
         if step < length (jb_steps j) then Some (step_command_new j (jb_steps j ! step)) else None)
      else None)"

subsection \<open>What a compiled job has passed\<close>

lemma compiled_job_facts:
  assumes "compile cd p = Some (Inr c)" "k < length (cp_jobs c)"
  shows "(cj_name (cp_jobs c ! k), cj_spec (cp_jobs c ! k)) \<in> set (pl_jobs p)"
    "check_job (cj_name (cp_jobs c ! k)) (cj_spec (cp_jobs c ! k)) = Inr ()"
    "sorted (cj_needs (cp_jobs c ! k))" "distinct (cj_needs (cp_jobs c ! k))"
    "\<forall>d\<in>set (cj_needs (cp_jobs c ! k)). d < k"
    "mset (map (\<lambda>d. cj_name (cp_jobs c ! d)) (cj_needs (cp_jobs c ! k))) =
       mset (jb_needs (cj_spec (cp_jobs c ! k)))"
proof -
  let ?sj = "sort_key fst (pl_jobs p)"
  obtain N s where s: "topo_inv N s" "needs_of ?sj N" "length (ts_order s) = length ?sj"
    and jobs: "cp_jobs c = map (placed_job ?sj N (ts_position s)) (ts_order s)"
    using compiled_order [OF assms(1)] by metis
  have k: "k < length ?sj" using assms(2) jobs s(3) by simp
  note n = compiled_nth [OF s k jobs]
  have "set (map (\<lambda>i. ?sj ! i) (ts_order s)) = set ?sj"
    using compiled_multiset [OF s] by (metis set_mset_mset)
  then have "?sj ! (ts_order s ! k) \<in> set ?sj" using k s(3) by auto
  then have mem: "(cj_name (cp_jobs c ! k), cj_spec (cp_jobs c ! k)) \<in> set ?sj" using n(1,2) by simp
  then show "(cj_name (cp_jobs c ! k), cj_spec (cp_jobs c ! k)) \<in> set (pl_jobs p)" by simp
  obtain N' where N': "traverse_from 0 (\<lambda>_. needs_index ?sj) ?sj = Inr N'"
    using assms(1) by (cases "traverse_from 0 (\<lambda>_. needs_index ?sj) ?sj")
      (auto simp: compile_def Let_def split: if_splits)
  have "\<exists>v. needs_index ?sj nj = Inr v" if "nj \<in> set ?sj" for nj
    using that traverse_from_Inr_nth [OF N'] traverse_from_Inr_length [OF N']
    by (metis in_set_conv_nth)
  from this [OF mem] show "check_job (cj_name (cp_jobs c ! k)) (cj_spec (cp_jobs c ! k)) = Inr ()"
    by (auto simp: needs_index_def res_bind_eq_Inr)
  show "sorted (cj_needs (cp_jobs c ! k))" "distinct (cj_needs (cp_jobs c ! k))"
    "\<forall>d\<in>set (cj_needs (cp_jobs c ! k)). d < k"
    "mset (map (\<lambda>d. cj_name (cp_jobs c ! d)) (cj_needs (cp_jobs c ! k))) =
       mset (jb_needs (cj_spec (cp_jobs c ! k)))" by (rule n(3-6))+
qed

subsection \<open>Image references\<close>

lemma split_digest_join:
  "split_digest s = Inr (rest, d) \<Longrightarrow> s = rest @ (case d of Some d \<Rightarrow> ''@'' @ d | None \<Rightarrow> [])"
  by (auto simp: split_digest_def res_simps str_simps split: option.splits if_splits)

lemma split_tag_join:
  assumes "split_tag rest = Inr (name, t)"
  shows "rest = name @ (case t of Some t \<Rightarrow> '':'' @ t | None \<Rightarrow> [])"
proof -
  obtain ls where ls: "(case rfind_byte (CHR ''/'') rest of Some i \<Rightarrow> i + 1 | None \<Rightarrow> 0) = ls" by blast
  show ?thesis
  proof (cases "find_byte (CHR '':'') (drop ls rest)")
    case None
    with assms ls show ?thesis by (simp add: split_tag_def Let_def)
  next
    case (Some i)
    then have i: "i < length (drop ls rest)" "drop ls rest ! i = CHR '':''"
      by (auto simp: find_byte_def position_Some)
    then have "rest = take (ls + i) rest @ CHR '':'' # drop (Suc (ls + i)) rest"
      using id_take_nth_drop [of "ls + i" rest] by simp
    with assms ls Some show ?thesis by (auto simp: split_tag_def Let_def split: if_splits)
  qed
qed

lemma image_display_parse: "image_parse s = Inr r \<Longrightarrow> image_display r = s"
  using split_digest_join split_tag_join
  by (fastforce simp: image_parse_def image_display_def res_bind_eq_Inr split: if_splits)

lemma find_byte_Some:
  "find_byte c s = Some i \<longleftrightarrow> i < length s \<and> s ! i = c \<and> (\<forall>j<i. s ! j \<noteq> c)"
  by (auto simp: find_byte_def position_Some)

lemma find_byte_None: "find_byte c s = None \<longleftrightarrow> c \<notin> set s"
  by (auto simp: find_byte_def position_None)

lemma rfind_byte_Some:
  "rfind_byte c s = Some i \<longleftrightarrow> i < length s \<and> s ! i = c \<and> (\<forall>j. i < j \<longrightarrow> j < length s \<longrightarrow> s ! j \<noteq> c)"
proof
  assume "rfind_byte c s = Some i"
  then obtain k where k: "find_byte c (rev s) = Some k" "i = length s - 1 - k"
    by (auto simp: rfind_byte_def)
  then have k': "k < length s" "rev s ! k = c" "\<forall>j<k. rev s ! j \<noteq> c" by (auto simp: find_byte_Some)
  have "s ! j \<noteq> c" if "i < j" "j < length s" for j
  proof -
    have "length s - 1 - j < k" using that k(2) k'(1) by simp
    with k'(3) have "rev s ! (length s - 1 - j) \<noteq> c" by blast
    with that show ?thesis by (simp add: rev_nth)
  qed
  with k k' show "i < length s \<and> s ! i = c \<and> (\<forall>j. i < j \<longrightarrow> j < length s \<longrightarrow> s ! j \<noteq> c)"
    by (simp add: rev_nth)
next
  assume i: "i < length s \<and> s ! i = c \<and> (\<forall>j. i < j \<longrightarrow> j < length s \<longrightarrow> s ! j \<noteq> c)"
  then have "find_byte c (rev s) = Some (length s - 1 - i)"
    by (auto simp: find_byte_Some rev_nth)
  with i show "rfind_byte c s = Some i" by (simp add: rfind_byte_def)
qed

lemma rfind_byte_None: "rfind_byte c s = None \<longleftrightarrow> c \<notin> set s"
  by (simp add: rfind_byte_def find_byte_None)

text \<open>The name a reference splits into has no tag of its own.\<close>

lemma split_tag_name:
  assumes "split_tag rest = Inr (name, t)"
  shows "split_tag name = Inr (name, None)"
proof -
  define ls where ls: "ls = (case rfind_byte (CHR ''/'') rest of Some i \<Rightarrow> i + 1 | None \<Rightarrow> 0)"
  show ?thesis
  proof (cases "find_byte (CHR '':'') (drop ls rest)")
    case None
    with assms have "rest = name \<and> t = None" by (simp add: split_tag_def Let_def ls [symmetric])
    with assms show ?thesis by simp
  next
    case (Some i)
    with assms have name: "name = take (ls + i) rest"
      by (auto simp: split_tag_def Let_def ls [symmetric] split: if_splits)
    from Some have i: "i < length (drop ls rest)" "\<forall>j<i. drop ls rest ! j \<noteq> CHR '':''"
      by (auto simp: find_byte_Some)
    have "(case rfind_byte (CHR ''/'') name of Some i \<Rightarrow> i + 1 | None \<Rightarrow> 0) = ls"
    proof (cases "rfind_byte (CHR ''/'') rest")
      case None
      then have "CHR ''/'' \<notin> set name" by (auto simp: rfind_byte_None name dest: in_set_takeD)
      with None show ?thesis by (simp add: ls rfind_byte_None [THEN iffD2])
    next
      case (Some m)
      then have "ls = m + 1" by (simp add: ls)
      with i(1) Some [unfolded rfind_byte_Some] have "rfind_byte (CHR ''/'') name = Some m"
        unfolding rfind_byte_Some name by auto
      then show ?thesis using \<open>ls = m + 1\<close> by simp
    qed
    moreover have "find_byte (CHR '':'') (drop ls name) = None"
      using i by (auto simp: find_byte_None name in_set_conv_nth)
    ultimately show ?thesis by (simp add: split_tag_def Let_def)
  qed
qed

definition valid_digest :: "string \<Rightarrow> bool" where
  "valid_digest d \<longleftrightarrow> (\<exists>hex. d = ''sha256:'' @ hex \<and> length hex = 64 \<and> list_all is_lower_hex hex)"

lemma split_digest_at:
  "CHR ''@'' \<notin> set r \<Longrightarrow> split_digest (r @ ''@'' @ d) = (if valid_digest d then Inr (r, Some d) else Inl IE_InvalidDigest)"
proof -
  assume "CHR ''@'' \<notin> set r"
  then have s: "split_once (CHR ''@'') (r @ ''@'' @ d) = Some (r, d)" by (simp add: split_once_Some)
  show ?thesis
  proof (cases "strip_prefix ''sha256:'' d")
    case None
    then have "\<not> valid_digest d" by (auto simp: valid_digest_def strip_prefix_None)
    with None s show ?thesis by (simp add: split_digest_def)
  next
    case (Some hex)
    then have d: "d = ''sha256:'' @ hex" by (simp add: strip_prefix_Some)
    then have "valid_digest d \<longleftrightarrow> length hex = 64 \<and> list_all is_lower_hex hex" by (simp add: valid_digest_def)
    with Some s show ?thesis by (simp add: split_digest_def)
  qed
qed

lemma image_pin_parse:
  assumes "image_parse s = Inr r" "im_digest r = None"
  shows "image_pin r d = (if valid_digest d then Inr (r\<lparr>im_digest := Some d\<rparr>) else Inl IE_InvalidDigest)"
    "image_parse (s @ ''@'' @ d) = image_pin r d"
proof -
  from assms have sd: "split_digest s = Inr (s, None)" "CHR ''@'' \<notin> set s"
    by (auto simp: image_parse_def res_simps split_digest_def str_simps split: if_splits option.splits)
  with assms have st: "split_tag s = Inr (im_name r, im_tag r)"
    and nm: "im_name r \<noteq> []" "\<not> suffix ''/'' (im_name r)" "\<not> prefix ''/'' (im_name r)"
    by (auto simp: image_parse_def res_bind_eq_Inr split: if_splits)
  have na: "CHR ''@'' \<notin> set (im_name r)" using sd(2) split_tag_join [OF st] by auto
  show pin: "image_pin r d = (if valid_digest d then Inr (r\<lparr>im_digest := Some d\<rparr>) else Inl IE_InvalidDigest)"
    using assms(2) nm split_tag_name [OF st]
    by (simp add: image_pin_def image_parse_def split_digest_at [OF na, simplified])
  show "image_parse (s @ ''@'' @ d) = image_pin r d"
    using assms(2) nm st unfolding pin
    by (simp add: image_parse_def split_digest_at [OF sd(2), simplified])
qed

lemma image_parse_pinned: "image_parse s = Inr r \<Longrightarrow> pred_option valid_digest (im_digest r)"
  by (auto simp: image_parse_def split_digest_def valid_digest_def res_simps str_simps
    split: if_splits option.splits)

subsection \<open>Blobs\<close>

lemma runs_on_v1_lossless:
  "\<not> states_runtime r \<Longrightarrow> runs_on_of_v1 \<lparr>o1_arch = ro_arch r, o1_labels = ro_labels r\<rparr> = r"
  by (cases r) (simp add: states_runtime_def runs_on_of_v1_def)

lemma v6_lossless:
  assumes "spec_format s = 6"
  shows "run_spec_of_v6 (run_spec_to_v6 s) = s"
proof -
  have "\<not> states_runtime (jb_runs_on (cj_spec j))" if "j \<in> set (cp_jobs (sp_pipeline s))" for j
    using assms that by (auto simp: spec_format_def SPEC_FORMAT_def list_ex_iff split: if_splits)
  then show ?thesis
    by (auto simp: run_spec_of_v6_def run_spec_of_old_def run_spec_to_v6_def job_of_v6_def
      runs_on_v1_lossless intro!: run_spec.equality compiled_pipeline.equality map_idI
      compiled_job.equality job.equality)
qed

text \<open>What \<open>postcard\<close> documents, for the value at hand: a reader returns what the writer of the same
  type wrote, and the bytes after it.\<close>

definition reads_back :: "('a \<Rightarrow> u8 list option) \<Rightarrow> (u8 list \<Rightarrow> ('a \<times> u8 list) option) \<Rightarrow> 'a \<Rightarrow> bool" where
  "reads_back to_bytes from_bytes x \<longleftrightarrow>
     (\<forall>b rest. to_bytes x = Some b \<longrightarrow> from_bytes (b @ rest) = Some (x, rest))"

lemma whole_reads_back:
  "reads_back to_bytes from_bytes x \<Longrightarrow> to_bytes x = Some b
   \<Longrightarrow> whole from_bytes (b @ rest) = (if rest = [] then Inr x else Inl SpecDecode)"
  by (auto simp: reads_back_def whole_def split: list.splits)

subsection \<open>Step commands\<close>

lemma env_set_map_of: "map_of (env_set env k v) = (map_of env)(k \<mapsto> v)"
  by (induction env k v rule: env_set.induct) auto

lemma env_set_keys:
  "map fst (env_set env k v) = (if k \<in> fst ` set env then map fst env else map fst env @ [k])"
  by (induction env k v rule: env_set.induct) auto

lemma merged_env:
  "map_of (foldl (\<lambda>env (k, v). env_set env k v) env upd) = map_of env ++ map_of (rev upd)
   \<and> (distinct (map fst env) \<longrightarrow> distinct (map fst (foldl (\<lambda>env (k, v). env_set env k v) env upd)))
   \<and> fst ` set (foldl (\<lambda>env (k, v). env_set env k v) env upd) = fst ` set env \<union> fst ` set upd"
proof (induction upd arbitrary: env)
  case (Cons kv upd)
  obtain k v where kv: "kv = (k, v)" by fastforce
  have keys: "fst ` set (env_set env k v) = insert k (fst ` set env)"
    using arg_cong [OF env_set_keys [of env k v], of set] by (auto split: if_splits)
  have "distinct (map fst env) \<Longrightarrow> distinct (map fst (env_set env k v))"
    by (simp add: env_set_keys)
  with Cons.IH [of "env_set env k v"] keys show ?case
    by (auto simp: kv env_set_map_of map_add_def fun_eq_iff split: option.splits)
qed simp

text \<open>A path each of whose components names something below the directory it starts from.\<close>

definition confined_path :: "string \<Rightarrow> bool" where
  "confined_path w \<longleftrightarrow>
     list_all (\<lambda>seg. seg \<noteq> [] \<and> seg \<noteq> ''.'' \<and> seg \<noteq> ''..'') (split_on (CHR ''/'') w)"

lemma split_on_append_sep: "split_on c (s @ c # t) = split_on c s @ split_on c t"
  by (induction s) (auto split: list.splits)

lemma confined_join: "confined_path j \<Longrightarrow> confined_path s \<Longrightarrow> confined_path (j @ ''/'' @ s)"
  by (simp add: confined_path_def split_on_append_sep)

lemma relative_confined: "valid_relative_path s \<Longrightarrow> confined_path s"
  by (simp add: valid_relative_path_def confined_path_def)

lemma command_confined:
  assumes "wf_job policy j" "s \<in> set (jb_steps j)"
  shows "pred_option confined_path (sc_workdir (step_command_new j s))"
  using assms relative_confined confined_join
  by (fastforce simp: step_command_new_def wf_job_def wf_step_def list_all_iff split: option.splits)

lemma command_env:
  assumes "wf_job policy j" "s \<in> set (jb_steps j)"
  shows "distinct (map fst (sc_env (step_command_new j s)))"
    "map_of (sc_env (step_command_new j s)) = map_of (jb_env j) ++ map_of (st_env s)"
    "\<forall>name\<in>set (st_secrets s) \<union> sf_name ` set (st_secret_files s).
       map_of (sc_env (step_command_new j s)) name = None"
proof -
  let ?env = "foldl (\<lambda>env (k, v). env_set env k v) (jb_env j) (st_env s)"
  have d: "distinct (map fst (jb_env j))" "distinct (map fst (st_env s))"
    using assms by (auto simp: wf_job_def wf_step_def wf_env_def list_all_iff)
  have e: "sc_env (step_command_new j s) = ?env" by (simp add: step_command_new_def)
  note m = merged_env [of "jb_env j" "st_env s"]
  show "distinct (map fst (sc_env (step_command_new j s)))" using m d(1) by (simp add: e)
  have "map_of (rev (st_env s)) = map_of (st_env s)"
    using d(2) by (subst map_of_inject_set) (simp_all add: rev_map [symmetric])
  with m show "map_of (sc_env (step_command_new j s)) = map_of (jb_env j) ++ map_of (st_env s)"
    by (simp add: e)
  have sep: "secrets_separate j s" using assms by (simp add: wf_job_def list_all_iff)
  have "map_of (sc_env (step_command_new j s)) name = None"
    if "name \<in> set (st_secrets s) \<union> sf_name ` set (st_secret_files s)" for name
  proof -
    have "name \<notin> fst ` set (jb_env j) \<and> name \<notin> fst ` set (st_env s)"
      using sep that unfolding secrets_separate_def by blast
    then have "name \<notin> fst ` set ?env" using m by simp
    then show ?thesis by (simp only: e map_of_eq_None_iff not_False_eq_True)
  qed
  then show "\<forall>name\<in>set (st_secrets s) \<union> sf_name ` set (st_secret_files s).
       map_of (sc_env (step_command_new j s)) name = None" ..
qed

lemma command_timeout:
  assumes "wf_job policy j" "s \<in> set (jb_steps j)" "check_job name j = Inr ()"
  shows "timeout_in_bounds (sc_timeout_secs (step_command_new j s))"
    "sc_timeout_secs (step_command_new j s) \<le> jb_timeout_secs j"
proof -
  obtain i where i: "i < length (jb_steps j)" "jb_steps j ! i = s" using assms(2) by (auto simp: in_set_conv_nth)
  have "check_job_step name j i s = Inr ()"
    using assms(3) i by (auto simp: check_job_def res_bind_eq_Inr check_each_ok)
  then have "\<not> is_some_and (st_timeout_secs s) (\<lambda>t. jb_timeout_secs j < t)"
    by (auto simp: check_job_step_def res_bind_eq_Inr split: if_splits)
  then show "sc_timeout_secs (step_command_new j s) \<le> jb_timeout_secs j"
    by (auto simp: step_command_new_def is_some_and_def split: option.splits)
  show "timeout_in_bounds (sc_timeout_secs (step_command_new j s))"
    using assms(1,2) by (auto simp: step_command_new_def wf_job_def wf_step_def list_all_iff split: option.splits)
qed
lemma compiled_multiset_jobs:
  assumes "compile cd p = Some (Inr c)"
  shows "mset (map (\<lambda>j. (cj_name j, cj_spec j)) (cp_jobs c)) = mset (pl_jobs p)"
proof -
  let ?sj = "sort_key fst (pl_jobs p)"
  obtain N s where s: "topo_inv N s" "needs_of ?sj N" "length (ts_order s) = length ?sj"
    and jobs: "cp_jobs c = map (placed_job ?sj N (ts_position s)) (ts_order s)"
    using compiled_order [OF assms] by metis
  have "map (\<lambda>j. (cj_name j, cj_spec j)) (cp_jobs c) = map (\<lambda>i. ?sj ! i) (ts_order s)"
    by (simp add: jobs placed_job_def)
  then show ?thesis using compiled_multiset [OF s] by simp
qed

subsection \<open>Properties\<close>

text \<open>An example: the two-job pipeline of \<open>Compile_Order\<close> and the blob codec that knows one value.\<close>

definition example_source :: pinned_source where
  "example_source = \<lparr>ps_repo = ''r'', ps_sha = replicate 40 (CHR ''0''), ps_ref_name = None\<rparr>"

definition example_spec :: run_spec where
  "example_spec = \<lparr>sp_source = example_source,
     sp_pipeline = \<lparr>cp_on = triggers_default, cp_concurrency = None, cp_jobs = [], cp_digest = 0\<rparr>,
     sp_images = []\<rparr>"

definition one_value_codec :: "run_spec \<Rightarrow> spec_codec" where
  "one_value_codec s =
     \<lparr>pc_to_v7 = (\<lambda>x. if x = s then Some [] else None),
      pc_to_v6 = (\<lambda>x. if x = run_spec_to_v6 s then Some [] else None),
      pc_from_v7 = (\<lambda>b. Some (s, b)), pc_from_v6 = (\<lambda>b. Some (run_spec_to_v6 s, b)),
      pc_from_v5 = (\<lambda>_. None), pc_from_v4 = (\<lambda>_. None), pc_from_v3 = (\<lambda>_. None)\<rparr>"

lemma example_pipeline_compiles: "\<exists>c. compile null_codec example_pipeline = Some (Inr c)"
proof (rule compile_cycle_iff(2) [OF _ _ _ _ two_jobs_facts(4)])
  show "checked_needs example_pipeline [[]]"
    by (simp add: example_pipeline_def needs_index_def check_job_def check_job_condition_def
      check_job_step_def is_some_and_def)
  show "acyclic (needs_rel (pl_jobs example_pipeline))"
    by (simp add: needs_rel_def example_pipeline_def acyclic_def)
qed (simp_all add: example_pipeline_def MAX_STEPS_TOTAL_def)

text \<open>
  C35: a stored run specification decodes to the specification that was encoded, whichever of the two
  written formats was chosen (the older one drops the operating system and isolation fields, and is
  chosen only when no job states them), and a blob with anything appended is refused.  The serializer
  is assumed to read back this one value as it documents.
\<close>

theorem run_spec_blob_round_trip:
  assumes "reads_back (pc_to_v7 pc) (pc_from_v7 pc) s"
    "reads_back (pc_to_v6 pc) (pc_from_v6 pc) (run_spec_to_v6 s)"
    "spec_encode pc s = Inr blob"
  shows "spec_decode pc (blob @ extra) = (if extra = [] then Inr s else Inl SpecDecode)"
proof (cases "spec_format s = 6")
  case True
  with assms(3) obtain b where "pc_to_v6 pc (run_spec_to_v6 s) = Some b" "blob = 6 # b"
    by (auto simp: spec_encode_def res_simps)
  with whole_reads_back [OF assms(2)] v6_lossless [OF True] show ?thesis
    by (simp add: spec_decode_def SPEC_FORMAT_def)
next
  case False
  then have "spec_format s = SPEC_FORMAT" by (simp add: spec_format_def split: if_splits)
  with False assms(3) obtain b where "pc_to_v7 pc s = Some b" "blob = SPEC_FORMAT # b"
    by (auto simp: spec_encode_def res_simps)
  with whole_reads_back [OF assms(1)] show ?thesis by (simp add: spec_decode_def)
qed

theorem run_spec_blob_round_trip_witness:
  "spec_encode (one_value_codec example_spec) example_spec = Inr [6]
   \<and> spec_decode (one_value_codec example_spec) ([6] @ []) = Inr example_spec
   \<and> spec_decode (one_value_codec example_spec) ([6] @ [0]) = Inl SpecDecode"
proof -
  have r: "reads_back (pc_to_v7 (one_value_codec s)) (pc_from_v7 (one_value_codec s)) s"
    "reads_back (pc_to_v6 (one_value_codec s)) (pc_from_v6 (one_value_codec s)) (run_spec_to_v6 s)" for s
    by (simp_all add: one_value_codec_def reads_back_def)
  have e: "spec_encode (one_value_codec example_spec) example_spec = Inr [6]"
    by (simp add: spec_encode_def one_value_codec_def spec_format_def example_spec_def)
  show ?thesis
    using run_spec_blob_round_trip [OF r e, of "[]"] run_spec_blob_round_trip [OF r e, of "[0]"] e by simp
qed

text \<open>
  C37: printing a parsed image reference gives the text it was parsed from; pinning an unpinned one by
  a digest is the same as parsing its text with the digest appended, succeeds exactly for a lower-case
  SHA-256 digest, and changes nothing but the digest; a pinned reference is never pinned again.
\<close>

theorem image_reference_round_trip:
  assumes "image_parse s = Inr r"
  shows "image_display r = s
    \<and> (im_digest r = None \<longrightarrow>
        image_pin r d = image_parse (s @ ''@'' @ d)
        \<and> image_pin r d = (if valid_digest d then Inr (r\<lparr>im_digest := Some d\<rparr>) else Inl IE_InvalidDigest))
    \<and> (im_digest r \<noteq> None \<longrightarrow> image_pin r d = Inl IE_InvalidDigest)"
  using image_display_parse [OF assms] image_pin_parse [OF assms] by (simp add: image_pin_def)

theorem image_reference_round_trip_witness:
  "image_parse ''h:5/img:v1'' = Inr \<lparr>im_name = ''h:5/img'', im_tag = Some ''v1'', im_digest = None\<rparr>
   \<and> image_display \<lparr>im_name = ''h:5/img'', im_tag = Some ''v1'', im_digest = None\<rparr> = ''h:5/img:v1''"
proof -
  have p: "image_parse ''h:5/img:v1'' = Inr \<lparr>im_name = ''h:5/img'', im_tag = Some ''v1'', im_digest = None\<rparr>"
    by code_simp
  from image_reference_round_trip [OF p] p show ?thesis by simp
qed

text \<open>
  C38: the command of every step of a decoded and compiled pipeline is confined: its working directory
  never leaves the checkout, its time limit is positive and at most the job's, its environment gives
  each variable once, the step's value over the job's, and holds none of the secrets the step names.
\<close>

theorem step_commands_are_confined:
  assumes "in_range policy (rp_default policy)" "decode policy root = Inr p"
    "compile cd p = Some (Inr (sp_pipeline s))" "run_spec_step_command s i k = Some cmd"
  shows "let j = cj_spec (cp_jobs (sp_pipeline s) ! i); st = jb_steps j ! k in
    pred_option confined_path (sc_workdir cmd)
    \<and> 0 < sc_timeout_secs cmd \<and> sc_timeout_secs cmd \<le> jb_timeout_secs j
    \<and> distinct (map fst (sc_env cmd)) \<and> map_of (sc_env cmd) = map_of (jb_env j) ++ map_of (st_env st)
    \<and> (\<forall>name\<in>set (sc_secrets cmd) \<union> sf_name ` set (sc_secret_files cmd). map_of (sc_env cmd) name = None)"
proof -
  let ?j = "cj_spec (cp_jobs (sp_pipeline s) ! i)"
  have i: "i < length (cp_jobs (sp_pipeline s))" "k < length (jb_steps ?j)"
    and cmd: "cmd = step_command_new ?j (jb_steps ?j ! k)"
    using assms(4) by (auto simp: run_spec_step_command_def Let_def split: if_splits)
  note f = compiled_job_facts [OF assms(3) i(1)]
  have wf: "wf_job policy ?j" using decode_wf [OF assms(1,2)] f(1) by (auto simp: wf_pipeline_def list_all_iff)
  have st: "jb_steps ?j ! k \<in> set (jb_steps ?j)" using i(2) by simp
  have sec: "sc_secrets cmd = st_secrets (jb_steps ?j ! k)"
    "sc_secret_files cmd = st_secret_files (jb_steps ?j ! k)"
    by (simp_all add: cmd step_command_new_def)
  show ?thesis
    using command_confined [OF wf st] command_env [OF wf st] command_timeout [OF wf st f(2)]
    unfolding Let_def sec by (simp only: cmd)
qed

theorem step_commands_are_confined_witness:
  "\<exists>s cmd. decode POLICY_DEFAULT (example_document []) = Inr example_pipeline
     \<and> compile null_codec example_pipeline = Some (Inr (sp_pipeline s))
     \<and> run_spec_step_command s 0 0 = Some cmd \<and> 0 < sc_timeout_secs cmd"
proof -
  obtain c where c: "compile null_codec example_pipeline = Some (Inr c)"
    using example_pipeline_compiles by blast
  define s where "s = example_spec\<lparr>sp_pipeline := c\<rparr>"
  have cs: "compile null_codec example_pipeline = Some (Inr (sp_pipeline s))" using c by (simp add: s_def)
  have "mset (map (\<lambda>j. (cj_name j, cj_spec j)) (cp_jobs c)) = mset (pl_jobs example_pipeline)"
    using compiled_multiset_jobs [OF c] .
  then have l: "0 < length (cp_jobs (sp_pipeline s))"
    by (auto simp: s_def example_pipeline_def)
  have "(cj_name (cp_jobs (sp_pipeline s) ! 0), cj_spec (cp_jobs (sp_pipeline s) ! 0)) \<in> set (pl_jobs example_pipeline)"
    by (rule compiled_job_facts(1) [OF cs l])
  then have "0 < length (jb_steps (cj_spec (cp_jobs (sp_pipeline s) ! 0)))" by (auto simp: example_pipeline_def)
  with l obtain cmd where cmd: "run_spec_step_command s 0 0 = Some cmd"
    by (simp add: run_spec_step_command_def Let_def)
  from step_commands_are_confined [OF policy_default_in_range decode_example cs cmd] cs cmd decode_example
  show ?thesis unfolding Let_def by blast
qed

end
