(* ===== verification/Store_Tables.thy ===== *)
theory Store_Tables
  imports Run_Spec Core_Id Expr_Contexts
begin

text \<open>
  The database of \<open>crates/sentinel-store\<close>: the error type of the crate (\<open>src/lib.rs\<close>), the state codes
  of \<open>src/codec.rs\<close>, and the tables the modelled operations read and write, declared in
  \<open>src/schema.rs\<close> and \<open>src/migrations\<close>.

  A table is a list of rows and a database a record of tables.  The SQL of the operations becomes list
  functions: \<open>find\<close> for a query by key, \<open>update_where\<close> for an \<open>UPDATE\<close> with the number of changed
  rows.  Operations run inside one write transaction, so each is a function from a database to a
  database or an error, and an error leaves the database of the caller's savepoint in force.
  Columns no modelled operation reads or writes are left out.  64-bit integer columns are integers;
  the fence column, which the source casts between \<open>i64\<close> and \<open>u64\<close>, is a 64-bit word.  Code outside
  the repository is gathered in \<open>store_env\<close>: the text form and the supply of identifiers (the
  \<open>uuid\<close> crate) and the serializer of run specifications.
\<close>

subsection \<open>Errors\<close>

datatype store_error =
    SE_Sqlite | SE_Conflict | SE_NotFound | SE_Forbidden | SE_StepUpRequired
  | SE_InvalidInput string | SE_Transition transition_error | SE_Corrupt string | SE_Spec spec_error
  | SE_WriterUnavailable | SE_WriteAmbiguous | SE_WriterPanicked | SE_Overloaded | SE_AlreadyOwned
  | SE_Unresolved | SE_StorageFull | SE_QuotaExceeded | SE_IdempotencyMismatch | SE_Io
  | SE_MigrationFailed

subsection \<open>Codes\<close>

definition TERMINAL_BASE :: int where "TERMINAL_BASE = 16"
definition READY :: int where "READY = 1"

fun encode_state :: "job_state \<Rightarrow> int" where
  "encode_state Blocked = 0"
| "encode_state Queued = 1"
| "encode_state Leased = 2"
| "encode_state Preparing = 3"
| "encode_state Running = 4"
| "encode_state Finalizing = 5"
| "encode_state (Terminal out) = TERMINAL_BASE + int (outcome_code out)"

definition decode_state :: "int \<Rightarrow> job_state option" where
  "decode_state code =
     (if code = 0 then Some Blocked
      else if code = 1 then Some Queued
      else if code = 2 then Some Leased
      else if code = 3 then Some Preparing
      else if code = 4 then Some Running
      else if code = 5 then Some Finalizing
      else if code = 16 then Some (Terminal Passed)
      else if code = 17 then Some (Terminal Skipped)
      else if code = 18 then Some (Terminal Canceled)
      else if code = 19 then Some (Terminal TimedOut)
      else if code = 20 then Some (Terminal Failed)
      else if code = 21 then Some (Terminal InfraFailed)
      else None)"

fun encode_failure :: "failure_class \<Rightarrow> int" where
  "encode_failure FC_CommandFailed = 0"
| "encode_failure FC_CommandSignaled = 1"
| "encode_failure FC_OutOfMemory = 2"
| "encode_failure FC_ExecutionTimeout = 3"
| "encode_failure FC_QueueTimeout = 4"
| "encode_failure FC_Canceled = 5"
| "encode_failure FC_Preparation = 6"
| "encode_failure FC_LeaseExpired = 7"
| "encode_failure FC_WorkerLost = 8"
| "encode_failure FC_Reconciled = 9"
| "encode_failure FC_Publication = 10"
| "encode_failure FC_Runtime = 11"

definition decode_failure :: "int \<Rightarrow> failure_class option" where
  "decode_failure code =
     (if code = 0 then Some FC_CommandFailed
      else if code = 1 then Some FC_CommandSignaled
      else if code = 2 then Some FC_OutOfMemory
      else if code = 3 then Some FC_ExecutionTimeout
      else if code = 4 then Some FC_QueueTimeout
      else if code = 5 then Some FC_Canceled
      else if code = 6 then Some FC_Preparation
      else if code = 7 then Some FC_LeaseExpired
      else if code = 8 then Some FC_WorkerLost
      else if code = 9 then Some FC_Reconciled
      else if code = 10 then Some FC_Publication
      else if code = 11 then Some FC_Runtime
      else None)"

interpretation state_code: code_table encode_state decode_state
proof
  show "decode_state (encode_state s) = Some s" for s
  proof (cases s)
    case (Terminal out)
    then show ?thesis by (cases out) (simp_all add: decode_state_def TERMINAL_BASE_def)
  qed (simp_all add: decode_state_def)
qed (auto simp: decode_state_def TERMINAL_BASE_def split: if_splits)

interpretation failure_code: code_table encode_failure decode_failure
proof
  show "decode_failure (encode_failure c) = Some c" for c by (cases c) (simp_all add: decode_failure_def)
qed (auto simp: decode_failure_def split: if_splits)

subsection \<open>Tables\<close>

record tenant_rec =
  tn_id :: uuid
  tn_slug :: string

record repo_rec =
  rp_id :: uuid
  rp_tenant :: uuid
  rp_name :: string

record run_rec =
  rn_id :: uuid
  rn_tenant :: uuid
  rn_repo :: uuid
  rn_source_sha :: string
  rn_created_ms :: int
  rn_cancel_requested :: bool

record job_rec =
  jr_id :: uuid
  jr_tenant :: uuid
  jr_run :: uuid
  jr_name :: string
  jr_state_code :: int
  jr_fence :: u64
  jr_priority :: int
  jr_created_seq :: int
  jr_cancel_requested :: bool
  jr_failure_class :: "int option"
  jr_stamps :: attempt_timestamps
  jr_spec_index :: int
  jr_cpu_millis :: int
  jr_memory_bytes :: int
  jr_disk_bytes :: int
  jr_timeout_ms :: int
  jr_image_digest :: "string option"
  jr_image_platform :: "string option"
  jr_repo :: "uuid option"
  jr_arch :: "string option"
  jr_labels :: string
  jr_concurrency_group :: "string option"
  jr_requires_secret_delivery :: bool
  jr_runtime :: int
  jr_image_name :: "string option"

record attempt_rec =
  at_id :: uuid
  at_tenant :: uuid
  at_job :: uuid
  at_fence :: u64
  at_worker :: uuid
  at_lease_until_ms :: int
  at_cpu_millis :: int
  at_memory_bytes :: int
  at_disk_bytes :: int
  at_offered_ms :: int
  at_acked_ms :: "int option"
  at_released_ms :: "int option"
  at_repo :: "uuid option"
  at_summary :: "u8 list option"
  at_log_state :: int

record worker_rec =
  wk_id :: uuid
  wk_revoked_ms :: "int option"

record spec_rec =
  sr_run :: uuid
  sr_tenant :: uuid
  sr_format :: int
  sr_spec :: "u8 list"

record binding_rec =
  sb_repo :: uuid
  sb_revoked :: bool
  sb_installation :: "uuid option"
  sb_forge_repo :: "int option"
  sb_binding :: "u8 list"

record provenance_rec =
  pv_run :: uuid
  pv_trigger :: string
  pv_ref_name :: "string option"
  pv_head_sha :: "string option"
  pv_pr_number :: "int option"

record delivery_rec =
  dl_id :: uuid
  dl_tenant :: uuid
  dl_repo :: uuid
  dl_ref_name :: "string option"
  dl_new_sha :: "string option"

record pr_delivery_rec =
  pd_delivery :: uuid
  pd_head_sha :: string

record check_rec =
  ck_id :: uuid
  ck_tenant :: uuid
  ck_repo :: uuid
  ck_run :: "uuid option"
  ck_delivery :: "uuid option"
  ck_scope :: string
  ck_name :: string
  ck_head_sha :: string
  ck_external_id :: string
  ck_status :: string
  ck_conclusion :: "string option"
  ck_title :: string
  ck_summary :: string
  ck_check_run_id :: "int option"
  ck_check_suite_id :: "int option"
  ck_create_started_ms :: "int option"
  ck_create_seq :: "int option"
  ck_seq :: int
  ck_published_seq :: int
  ck_attempts :: int
  ck_next_attempt_ms :: "int option"
  ck_state :: int
  ck_reason :: "string option"
  ck_created_ms :: int
  ck_updated_ms :: int
  ck_settled_ms :: "int option"

record artifact_rec =
  af_id :: uuid
  af_tenant :: uuid
  af_run :: uuid
  af_job :: uuid
  af_attempt :: uuid
  af_name :: string
  af_state_code :: int
  af_manifest_version :: "int option"
  af_entries :: int
  af_bytes :: int
  af_retain_until_ms :: int
  af_created_ms :: int

record policy_rec =
  po_tenant :: uuid
  po_repo :: "u8 list"
  po_artifact_retention_ms :: "int option"

text \<open>\<open>db_drawn\<close> counts the identifiers drawn from the supply.\<close>

record db =
  db_tenants :: "tenant_rec list"
  db_repos :: "repo_rec list"
  db_runs :: "run_rec list"
  db_jobs :: "job_rec list"
  db_attempts :: "attempt_rec list"
  db_workers :: "worker_rec list"
  db_specs :: "spec_rec list"
  db_bindings :: "binding_rec list"
  db_provenance :: "provenance_rec list"
  db_deliveries :: "delivery_rec list"
  db_pr_deliveries :: "pr_delivery_rec list"
  db_checks :: "check_rec list"
  db_artifacts :: "artifact_rec list"
  db_policies :: "policy_rec list"
  db_artifact_default_ms :: "int option"
  db_drawn :: nat

record store_env =
  env_uuid_text :: "uuid \<Rightarrow> string"
  env_new_id :: "nat \<Rightarrow> uuid"
  env_codec :: spec_codec

subsection \<open>SQL on lists\<close>

definition update_where :: "('r \<Rightarrow> bool) \<Rightarrow> ('r \<Rightarrow> 'r) \<Rightarrow> 'r list \<Rightarrow> nat \<times> 'r list" where
  "update_where P f rows = (length (filter P rows), map (\<lambda>r. if P r then f r else r) rows)"

definition coalesce :: "'a option \<Rightarrow> 'a option \<Rightarrow> 'a option" where
  "coalesce x y = (case x of Some v \<Rightarrow> Some v | None \<Rightarrow> y)"

text \<open>SQL's \<open>length\<close> of a text counts its characters up to a NUL; a character is one byte that does
  not continue another.\<close>

definition sql_length :: "string \<Rightarrow> nat" where
  "sql_length s =
     length (filter (\<lambda>c. of_char c < (128 :: nat) \<or> of_char c \<ge> (192 :: nat))
       (takeWhile (\<lambda>c. c \<noteq> CHR 0x00) s))"

definition typed :: "string \<Rightarrow> u8 list \<Rightarrow> store_error + uuid" where
  "typed what bytes = map_err (\<lambda>_. SE_Corrupt what) (id_from_bytes bytes)"

definition fresh_id :: "store_env \<Rightarrow> db \<Rightarrow> uuid \<times> db" where
  "fresh_id env db = (env_new_id env (db_drawn db), db\<lparr>db_drawn := Suc (db_drawn db)\<rparr>)"

abbreviation valid_uuid :: "uuid \<Rightarrow> bool" where
  "valid_uuid b \<equiv> length b = 16 \<and> id_from_bytes b = Inr b"

lemma typed_ok [simp]: "id_from_bytes b = Inr b \<Longrightarrow> typed what b = Inr b"
  by (simp add: typed_def)

lemma typed_eq: "typed what b = Inr u \<Longrightarrow> u = b \<and> id_from_bytes b = Inr b"
  by (auto simp: typed_def id_from_bytes_def res_simps split: if_splits)

subsection \<open>Rows with a key\<close>

lemma filter_keyed:
  assumes "distinct (map key rows)" "r \<in> set rows" "P r" and key: "\<And>x. P x \<Longrightarrow> key x = key r"
  shows "filter P rows = [r]"
  using assms(1,2)
proof (induction rows)
  case (Cons x rows)
  have new: "key x \<notin> key ` set rows" and d: "distinct (map key rows)" using Cons.prems(1) by simp_all
  show ?case
  proof (cases "x = r")
    case True
    have "\<not> P y" if "y \<in> set rows" for y using key [of y] new that True by (metis imageI)
    then have "filter P rows = []" by (simp only: filter_empty_conv) blast
    with True assms(3) show ?thesis by simp
  next
    case False
    then have r: "r \<in> set rows" using Cons.prems(2) by simp
    then have "\<not> P x" using key [of x] new by (metis imageI)
    with Cons.IH [OF d r] show ?thesis by simp
  qed
qed simp

lemma find_filter: "find P xs = (case filter P xs of [] \<Rightarrow> None | x # _ \<Rightarrow> Some x)"
  by (induction xs) auto

lemma find_keyed:
  assumes "distinct (map key rows)" "r \<in> set rows" "P r" "\<And>x. P x \<Longrightarrow> key x = key r"
  shows "find P rows = Some r"
proof -
  have "filter P rows = [r]" by (rule filter_keyed [of key]) (fact assms)+
  then show ?thesis by (simp add: find_filter)
qed

lemma keyed_inj: "distinct (map key rows) \<Longrightarrow> r \<in> set rows \<Longrightarrow> r' \<in> set rows \<Longrightarrow> key r = key r' \<Longrightarrow> r = r'"
  by (metis distinct_map inj_onD)

lemma update_where_map_key: "(\<And>r. key (f r) = key r) \<Longrightarrow> map key (snd (update_where P f rows)) = map key rows"
  by (simp add: update_where_def comp_def if_distrib [of key] cong: if_cong)

lemma set_update_where: "set (snd (update_where P f rows)) = (\<lambda>r. if P r then f r else r) ` set rows"
  by (simp add: update_where_def)

end
