(* ===== verification/Store_Checks.thy ===== *)
theory Store_Checks
  imports Store_Tables "HOL-Library.Product_Lexorder"
begin

text \<open>
  The Checks outbox, \<open>crates/sentinel-store/src/checks.rs\<close>: what a forge should be told about a run,
  one row per job and one for the whole run, coalesced to the newest desired state.  The operations of
  the writer (\<open>record_run\<close>, \<open>record_job\<close>, \<open>record_delivery\<close>) and of the publisher (\<open>due\<close>,
  \<open>create_started\<close>, \<open>published\<close>, \<open>retry\<close>, \<open>check_defer\<close>, \<open>refused\<close>, \<open>rearm_exhausted\<close>) are modelled
  with the constraints and triggers of the table (\<open>src/migrations/020_checks.sql\<close>), whose violation is
  the error \<open>SE_Sqlite\<close>.
\<close>

subsection \<open>Constants and enumerations\<close>

definition AGGREGATE_SCOPE :: string where "AGGREGATE_SCOPE = ''aggregate''"
definition AGGREGATE_NAME :: string where "AGGREGATE_NAME = ''sentinel / ci''"
definition JOB_PREFIX :: string where "JOB_PREFIX = ''sentinel / ''"
definition EXTERNAL_PREFIX :: string where "EXTERNAL_PREFIX = ''sentinel:''"
definition MAX_ATTEMPTS :: nat where "MAX_ATTEMPTS = 8"
definition MAX_TERMINAL_ATTEMPTS :: nat where "MAX_TERMINAL_ATTEMPTS = 40"
definition BASE_BACKOFF_MS :: int where "BASE_BACKOFF_MS = 1000"
definition MAX_BACKOFF_MS :: int where "MAX_BACKOFF_MS = 5 * 60 * 1000"
definition TERMINAL_MAX_BACKOFF_MS :: int where "TERMINAL_MAX_BACKOFF_MS = 15 * 60 * 1000"
definition MAX_DEFER_MS :: int where "MAX_DEFER_MS = 60 * 60 * 1000"
definition REARM_WINDOW_MS :: int where "REARM_WINDOW_MS = 7 * 24 * 60 * 60 * 1000"

datatype check_state = CS_Pending | CS_Published | CS_Refused

primrec check_state_as_str :: "check_state \<Rightarrow> string" where
  "check_state_as_str CS_Pending = ''pending''"
| "check_state_as_str CS_Published = ''published''"
| "check_state_as_str CS_Refused = ''refused''"

definition check_state_decode :: "int \<Rightarrow> check_state option" where
  "check_state_decode code =
     (if code = 0 then Some CS_Pending
      else if code = 1 then Some CS_Published
      else if code = 2 then Some CS_Refused
      else None)"

datatype check_status = St_Queued | St_InProgress | St_Completed

primrec status_as_str :: "check_status \<Rightarrow> string" where
  "status_as_str St_Queued = ''queued''"
| "status_as_str St_InProgress = ''in_progress''"
| "status_as_str St_Completed = ''completed''"

definition status_parse :: "string \<Rightarrow> check_status option" where
  "status_parse text =
     (if text = ''queued'' then Some St_Queued
      else if text = ''in_progress'' then Some St_InProgress
      else if text = ''completed'' then Some St_Completed
      else None)"

datatype conclusion =
  Co_Success | Co_Failure | Co_Neutral | Co_Cancelled | Co_TimedOut | Co_Skipped

primrec conclusion_as_str :: "conclusion \<Rightarrow> string" where
  "conclusion_as_str Co_Success = ''success''"
| "conclusion_as_str Co_Failure = ''failure''"
| "conclusion_as_str Co_Neutral = ''neutral''"
| "conclusion_as_str Co_Cancelled = ''cancelled''"
| "conclusion_as_str Co_TimedOut = ''timed_out''"
| "conclusion_as_str Co_Skipped = ''skipped''"

definition conclusion_parse :: "string \<Rightarrow> conclusion option" where
  "conclusion_parse text =
     (if text = ''success'' then Some Co_Success
      else if text = ''failure'' then Some Co_Failure
      else if text = ''neutral'' then Some Co_Neutral
      else if text = ''cancelled'' then Some Co_Cancelled
      else if text = ''timed_out'' then Some Co_TimedOut
      else if text = ''skipped'' then Some Co_Skipped
      else None)"

definition conclusion_of_reason :: "string \<Rightarrow> conclusion option" where
  "conclusion_of_reason reason =
     (if reason \<in> set [''ref_deleted'', ''duplicate'', ''superseded''] then None
      else if reason \<in> set [''no_trigger'', ''fork_pr'', ''merge_unavailable''] then Some Co_Neutral
      else Some Co_Failure)"

primrec conclusion_of_outcome :: "outcome \<Rightarrow> conclusion" where
  "conclusion_of_outcome Passed = Co_Success"
| "conclusion_of_outcome Failed = Co_Failure"
| "conclusion_of_outcome InfraFailed = Co_Failure"
| "conclusion_of_outcome TimedOut = Co_TimedOut"
| "conclusion_of_outcome Canceled = Co_Cancelled"
| "conclusion_of_outcome Skipped = Co_Skipped"

interpretation status_code: code_table status_as_str status_parse
proof
  show "status_parse (status_as_str s) = Some s" for s by (cases s) (simp_all add: status_parse_def)
  show "status_parse t = Some s \<Longrightarrow> status_as_str s = t" for s t
    by (simp add: status_parse_def split: if_splits)
qed

interpretation conclusion_code: code_table conclusion_as_str conclusion_parse
proof
  show "conclusion_parse (conclusion_as_str c) = Some c" for c
    by (cases c) (simp_all add: conclusion_parse_def)
  show "conclusion_parse t = Some c \<Longrightarrow> conclusion_as_str c = t" for c t
    by (simp add: conclusion_parse_def split: if_splits)
qed

record publication =
  pb_id :: uuid
  pb_tenant :: uuid
  pb_repo :: uuid
  pb_run :: "uuid option"
  pb_delivery :: "uuid option"
  pb_scope :: string
  pb_name :: string
  pb_head_sha :: string
  pb_external_id :: string
  pb_status :: check_status
  pb_conclusion :: "conclusion option"
  pb_title :: string
  pb_summary :: string
  pb_check_run_id :: "int option"
  pb_check_suite_id :: "int option"
  pb_create_started_ms :: "int option"
  pb_create_seq :: "int option"
  pb_seq :: int
  pb_published_seq :: int
  pb_state :: check_state
  pb_reason :: "string option"

definition create_identity :: "string \<Rightarrow> int \<Rightarrow> string" where
  "create_identity external_id sq = external_id @ '':'' @ dec_int sq"

definition created_identity :: "publication \<Rightarrow> string" where
  "created_identity self =
     (case pb_create_seq self of
        Some sq \<Rightarrow> create_identity (pb_external_id self) sq
      | None \<Rightarrow> pb_external_id self)"

datatype retry_outcome = Retry_Scheduled nat int | Retry_Exhausted

definition backoff_ms :: "nat \<Rightarrow> int" where
  "backoff_ms attempts = min (i64_clamp (BASE_BACKOFF_MS * 2 ^ min attempts 20)) MAX_BACKOFF_MS"

definition terminal_backoff_ms :: "nat \<Rightarrow> int" where
  "terminal_backoff_ms attempts =
     min (i64_clamp (BASE_BACKOFF_MS * 2 ^ min attempts 20)) TERMINAL_MAX_BACKOFF_MS"

subsection \<open>What a check says\<close>

type_synonym content = "check_status \<times> conclusion option \<times> string \<times> string"

definition terminal_text :: "outcome \<Rightarrow> string \<Rightarrow> string \<times> string" where
  "terminal_text out cls =
     (case out of
        Passed \<Rightarrow> (''Passed'', ''passed'')
      | Skipped \<Rightarrow> (''Skipped'', ''a dependency did not pass'')
      | Canceled \<Rightarrow> (''Cancelled'', ''cancellation was requested'')
      | TimedOut \<Rightarrow>
          if cls = ''queue_timeout'' then (''Timed out'', ''waited too long for a worker'')
          else (''Timed out'', ''exceeded its time budget'')
      | Failed \<Rightarrow>
          if cls = ''command_failed'' then (''Failed'', ''a command exited non-zero'')
          else if cls = ''command_signaled'' then (''Failed'', ''a command was killed by a signal'')
          else if cls = ''out_of_memory'' then (''Failed'', ''the container ran out of memory'')
          else (''Failed'', ''failed'')
      | InfraFailed \<Rightarrow>
          (''Infrastructure failure'', ''sentinel could not run it ('' @ cls @ '')''))"

definition job_content :: "job_state \<Rightarrow> failure_class option \<Rightarrow> string \<Rightarrow> content" where
  "job_content state cls job =
     (case state of
        Terminal out \<Rightarrow>
          (let c = (case cls of Some c \<Rightarrow> failure_as_str c | None \<Rightarrow> ''-'');
               (title, why) = terminal_text out c
           in (St_Completed, Some (conclusion_of_outcome out), title, ''job '' @ job @ '': '' @ why))
      | _ \<Rightarrow>
          if state = Blocked \<or> state = Queued then
            (St_Queued, None, ''Queued'', ''job '' @ job @ '': waiting for a worker'')
          else (St_InProgress, None, ''Running'', ''job '' @ job @ '': running''))"

text \<open>The separator of the run summary is a middle dot, two bytes in UTF-8.\<close>

definition middle_dot :: string where
  "middle_dot = '' '' @ [CHR 0xC2, CHR 0xB7] @ '' ''"

definition count_where :: "(outcome \<Rightarrow> bool) \<Rightarrow> job_state list \<Rightarrow> nat" where
  "count_where P states =
     length (filter (\<lambda>s. case s of Terminal out \<Rightarrow> P out | _ \<Rightarrow> False) states)"

definition run_summary :: "job_state list \<Rightarrow> string" where
  "run_summary states =
     dec_nat (count_where (\<lambda>x. x = Passed) states) @ ''/'' @ dec_nat (length states) @ '' jobs passed''
     @ middle_dot @ dec_nat (count_where (\<lambda>x. x = Failed \<or> x = InfraFailed) states) @ '' failed''
     @ middle_dot @ dec_nat (count_where (\<lambda>x. x = Skipped) states) @ '' skipped''
     @ middle_dot @ dec_nat (count_where (\<lambda>x. x = Canceled) states) @ '' cancelled''"

primrec run_title :: "outcome \<Rightarrow> string" where
  "run_title Passed = ''Passed''"
| "run_title Skipped = ''Skipped''"
| "run_title Canceled = ''Cancelled''"
| "run_title TimedOut = ''Timed out''"
| "run_title Failed = ''Failed''"
| "run_title InfraFailed = ''Infrastructure failure''"

definition aggregate_content :: "job_state list \<Rightarrow> store_error + content" where
  "aggregate_content states =
     (if states = [] then Inl (SE_Corrupt ''run has no jobs'')
      else Inr (case aggregate states of
          Run_Pending \<Rightarrow>
            (St_Queued, None, ''Queued'', dec_nat (length states) @ '' jobs waiting for a worker'')
        | Run_Active \<Rightarrow> (St_InProgress, None, ''Running'', run_summary states)
        | Run_Terminal out \<Rightarrow>
            (St_Completed, Some (conclusion_of_outcome out), run_title out, run_summary states)))"

subsection \<open>Writing a row\<close>

text \<open>The run a check is about, when it has a forge to tell: \<open>checks::run_facts\<close>.\<close>

definition check_facts :: "db \<Rightarrow> uuid \<Rightarrow> uuid \<Rightarrow> store_error + (uuid \<times> string) option" where
  "check_facts db tenant run =
     (case find (\<lambda>r. rn_id r = run \<and> rn_tenant r = tenant) (db_runs db) of
        None \<Rightarrow> Inr None
      | Some r \<Rightarrow>
          let b = find (\<lambda>b. sb_repo b = rn_repo r \<and> \<not> sb_revoked b) (db_bindings db);
              p = find (\<lambda>p. pv_run p = rn_id r) (db_provenance db);
              head_sha = (case Option.bind p pv_head_sha of Some h \<Rightarrow> h | None \<Rightarrow> rn_source_sha r);
              forge = (Option.bind b sb_installation \<noteq> None);
              event_driven = (map_option pv_trigger p \<in>
                {Some ''push'', Some ''tag'', Some ''pull_request''})
          in if \<not> forge \<or> \<not> event_driven then Inr None
             else res_map (\<lambda>repo. Some (repo, head_sha)) (typed ''repo_id'' (rn_repo r)))"

record draft =
  dr_tenant :: uuid
  dr_repo :: uuid
  dr_run :: "uuid option"
  dr_delivery :: "uuid option"
  dr_scope :: string
  dr_name :: string
  dr_head_sha :: string
  dr_external :: string
  dr_content :: content

text \<open>The row's \<open>CHECK\<close> constraints.\<close>

definition check_rec_ok :: "check_rec \<Rightarrow> bool" where
  "check_rec_ok c \<longleftrightarrow>
     length (ck_id c) = 16 \<and> length (ck_tenant c) = 16 \<and> length (ck_repo c) = 16
     \<and> 1 \<le> sql_length (ck_scope c) \<and> sql_length (ck_scope c) \<le> 64
     \<and> 1 \<le> sql_length (ck_name c) \<and> sql_length (ck_name c) \<le> 255
     \<and> (sql_length (ck_head_sha c) = 40 \<or> sql_length (ck_head_sha c) = 64)
     \<and> 1 \<le> sql_length (ck_external_id c) \<and> sql_length (ck_external_id c) \<le> 128
     \<and> ck_status c \<in> set [''queued'', ''in_progress'', ''completed'']
     \<and> pred_option (\<lambda>t. 1 \<le> sql_length t \<and> sql_length t \<le> 32) (ck_conclusion c)
     \<and> 1 \<le> sql_length (ck_title c) \<and> sql_length (ck_title c) \<le> 128
     \<and> 1 \<le> sql_length (ck_summary c) \<and> sql_length (ck_summary c) \<le> 1024
     \<and> pred_option (\<lambda>i. 0 < i) (ck_check_run_id c)
     \<and> pred_option (\<lambda>i. 0 < i) (ck_check_suite_id c)
     \<and> 1 \<le> ck_seq c \<and> 0 \<le> ck_published_seq c \<and> ck_published_seq c \<le> ck_seq c
     \<and> 0 \<le> ck_attempts c \<and> ck_state c \<in> {0, 1, 2}
     \<and> pred_option (\<lambda>t. 1 \<le> sql_length t \<and> sql_length t \<le> 128) (ck_reason c)
     \<and> (ck_conclusion c = None) = (ck_status c \<noteq> ''completed'')
     \<and> (ck_state c = 0) = (ck_settled_ms c = None)
     \<and> (ck_run c = None) \<noteq> (ck_delivery c = None)"

text \<open>The trigger \<open>check_owner_insert\<close> and the foreign keys of an inserted row.\<close>

definition check_owned :: "db \<Rightarrow> check_rec \<Rightarrow> bool" where
  "check_owned db c \<longleftrightarrow>
     (case ck_run c of
        Some run \<Rightarrow> list_ex (\<lambda>r. rn_id r = run \<and> rn_tenant r = ck_tenant c \<and> rn_repo r = ck_repo c) (db_runs db)
      | None \<Rightarrow> True)
     \<and> (case ck_delivery c of
        Some d \<Rightarrow> list_ex (\<lambda>r. dl_id r = d \<and> dl_tenant r = ck_tenant c \<and> dl_repo r = ck_repo c) (db_deliveries db)
      | None \<Rightarrow> True)
     \<and> list_ex (\<lambda>r. rp_tenant r = ck_tenant c \<and> rp_id r = ck_repo c) (db_repos db)"

definition check_insert :: "uuid \<Rightarrow> draft \<Rightarrow> int \<Rightarrow> check_rec" where
  "check_insert cid d now =
     (case dr_content d of (status, conclusion, title, summary) \<Rightarrow>
       \<lparr>ck_id = cid, ck_tenant = dr_tenant d, ck_repo = dr_repo d, ck_run = dr_run d,
        ck_delivery = dr_delivery d, ck_scope = dr_scope d, ck_name = dr_name d,
        ck_head_sha = dr_head_sha d, ck_external_id = dr_external d,
        ck_status = status_as_str status, ck_conclusion = map_option conclusion_as_str conclusion,
        ck_title = title, ck_summary = summary, ck_check_run_id = None, ck_check_suite_id = None,
        ck_create_started_ms = None, ck_create_seq = None, ck_seq = 1, ck_published_seq = 0,
        ck_attempts = 0, ck_next_attempt_ms = None, ck_state = 0, ck_reason = None,
        ck_created_ms = now, ck_updated_ms = now, ck_settled_ms = None\<rparr>)"

text \<open>\<open>DO UPDATE SET\<close>: the next generation, which drops the handle of a delivered completed one.\<close>

definition delivered_completed :: "check_rec \<Rightarrow> bool" where
  "delivered_completed c \<longleftrightarrow>
     ck_status c = ''completed'' \<and> ck_state c = 1 \<and> ck_published_seq c = ck_seq c"

definition next_generation :: "check_rec \<Rightarrow> check_rec \<Rightarrow> check_rec" where
  "next_generation excluded c =
     c\<lparr>ck_status := ck_status excluded, ck_conclusion := ck_conclusion excluded,
       ck_title := ck_title excluded, ck_summary := ck_summary excluded,
       ck_check_run_id := (if delivered_completed c then None else ck_check_run_id c),
       ck_create_started_ms := (if delivered_completed c then None else ck_create_started_ms c),
       ck_create_seq := (if delivered_completed c then None else ck_create_seq c),
       ck_seq := ck_seq c + 1, ck_state := 0, ck_reason := None, ck_attempts := 0,
       ck_next_attempt_ms := None, ck_settled_ms := None, ck_updated_ms := ck_updated_ms excluded\<rparr>"

definition desired_changed :: "check_rec \<Rightarrow> check_rec \<Rightarrow> bool" where
  "desired_changed excluded c \<longleftrightarrow>
     ck_state c = 2 \<or> ck_status c \<noteq> ck_status excluded \<or> ck_conclusion c \<noteq> ck_conclusion excluded
     \<or> ck_title c \<noteq> ck_title excluded \<or> ck_summary c \<noteq> ck_summary excluded"

definition upsert :: "store_env \<Rightarrow> db \<Rightarrow> draft \<Rightarrow> int \<Rightarrow> store_error + db" where
  "upsert env db d now =
     (let (cid, db) = fresh_id env db;
          row = check_insert cid d now;
          conflict = (\<lambda>c. ck_run c \<noteq> None \<and> ck_run c = ck_run row \<and> ck_scope c = ck_scope row)
      in if \<not> check_owned db row \<or> \<not> check_rec_ok row then Inl SE_Sqlite
         else case find conflict (db_checks db) of
           Some c \<Rightarrow>
             if \<not> desired_changed row c then Inr db
             else if \<not> check_rec_ok (next_generation row c) then Inl SE_Sqlite
             else Inr (db\<lparr>db_checks := snd (update_where conflict (next_generation row) (db_checks db))\<rparr>)
         | None \<Rightarrow>
             if list_ex (\<lambda>c. ck_id c = cid
                 \<or> ck_delivery row \<noteq> None \<and> ck_delivery c = ck_delivery row) (db_checks db)
             then Inl SE_Sqlite
             else Inr (db\<lparr>db_checks := db_checks db @ [row]\<rparr>))"

definition external_id :: "store_env \<Rightarrow> uuid \<Rightarrow> string \<Rightarrow> string" where
  "external_id env run scope = EXTERNAL_PREFIX @ id_display (env_uuid_text env) RunId run @ '':'' @ scope"

definition qualified_name :: "string \<Rightarrow> string" where
  "qualified_name job = JOB_PREFIX @ job"

text \<open>The draft of a run's own row and of one of its jobs.\<close>

definition run_draft ::
    "store_env \<Rightarrow> uuid \<Rightarrow> uuid \<Rightarrow> uuid \<times> string \<Rightarrow> string \<Rightarrow> string \<Rightarrow> content \<Rightarrow> draft" where
  "run_draft env tenant run facts scope name content =
     \<lparr>dr_tenant = tenant, dr_repo = fst facts, dr_run = Some run, dr_delivery = None,
      dr_scope = scope, dr_name = name, dr_head_sha = snd facts,
      dr_external = external_id env run scope, dr_content = content\<rparr>"

definition job_scope :: "store_env \<Rightarrow> uuid \<Rightarrow> string" where
  "job_scope env job = id_display (env_uuid_text env) JobId job"

definition run_states :: "db \<Rightarrow> uuid \<Rightarrow> uuid \<Rightarrow> store_error + job_state list" where
  "run_states db tenant run =
     traverse_from 0 (\<lambda>_ r. ok_or (SE_Corrupt ''state_code'') (decode_state (jr_state_code r)))
       (filter (\<lambda>r. jr_run r = run \<and> jr_tenant r = tenant) (db_jobs db))"

definition record_aggregate ::
    "store_env \<Rightarrow> db \<Rightarrow> uuid \<Rightarrow> uuid \<Rightarrow> uuid \<times> string \<Rightarrow> int \<Rightarrow> store_error + db" where
  "record_aggregate env db tenant run facts now =
     res_bind (run_states db tenant run) (\<lambda>states.
     res_bind (aggregate_content states) (\<lambda>content.
     upsert env db (run_draft env tenant run facts AGGREGATE_SCOPE AGGREGATE_NAME content) now))"

definition record_job :: "store_env \<Rightarrow> db \<Rightarrow> uuid \<Rightarrow> uuid \<Rightarrow> int \<Rightarrow> store_error + db" where
  "record_job env db tenant job now =
     (case find (\<lambda>r. jr_id r = job \<and> jr_tenant r = tenant) (db_jobs db) of
        None \<Rightarrow> Inl (SE_Corrupt ''job'')
      | Some r \<Rightarrow>
          res_bind (typed ''run_id'' (jr_run r)) (\<lambda>run.
          res_bind (check_facts db tenant run) (\<lambda>facts.
          case facts of
            None \<Rightarrow> Inr db
          | Some facts \<Rightarrow>
              res_bind (ok_or (SE_Corrupt ''state_code'') (decode_state (jr_state_code r))) (\<lambda>state.
              res_bind (case jr_failure_class r of
                  None \<Rightarrow> Inr None
                | Some code \<Rightarrow> res_map Some (ok_or (SE_Corrupt ''failure_class'') (decode_failure code))) (\<lambda>cls.
              res_bind (upsert env db (run_draft env tenant run facts (job_scope env job)
                  (qualified_name (jr_name r)) (job_content state cls (jr_name r))) now) (\<lambda>db.
              record_aggregate env db tenant run facts now))))))"

fun record_queued ::
    "store_env \<Rightarrow> db \<Rightarrow> uuid \<Rightarrow> uuid \<Rightarrow> uuid \<times> string \<Rightarrow> (uuid \<times> string) list \<Rightarrow> int \<Rightarrow> nat
     \<Rightarrow> store_error + nat \<times> db" where
  "record_queued env db tenant run facts [] now written = Inr (written, db)"
| "record_queued env db tenant run facts ((job, name) # rows) now written =
     res_bind (typed ''job_id'' job) (\<lambda>job.
     res_bind (upsert env db (run_draft env tenant run facts (job_scope env job)
         (qualified_name name) (job_content Queued None name)) now) (\<lambda>db.
     record_queued env db tenant run facts rows now (Suc written)))"

definition record_run :: "store_env \<Rightarrow> db \<Rightarrow> uuid \<Rightarrow> uuid \<Rightarrow> int \<Rightarrow> store_error + nat \<times> db" where
  "record_run env db tenant run now =
     res_bind (check_facts db tenant run) (\<lambda>facts.
     case facts of
       None \<Rightarrow> Inr (0, db)
     | Some facts \<Rightarrow>
         let rows = map (\<lambda>r. (jr_id r, jr_name r)) (sort_key jr_spec_index
               (filter (\<lambda>r. jr_run r = run \<and> jr_tenant r = tenant) (db_jobs db)))
         in res_bind (record_queued env db tenant run facts rows now 0) (\<lambda>(written, db).
            res_bind (record_aggregate env db tenant run facts now) (\<lambda>db.
            Inr (written + 1, db))))"

subsection \<open>Refused events\<close>

definition delivery_text :: "string \<Rightarrow> string \<times> string" where
  "delivery_text reason =
     (if reason = ''no_trigger'' then (''Not run'', ''the pipeline does not declare this event'')
      else if reason = ''fork_pr'' then (''Not executed'', ''fork pull requests are not executed yet'')
      else if reason = ''merge_unavailable'' then
        (''Not run'', ''GitHub did not compute a tested merge for this pull request'')
      else if reason = ''binding_revoked'' then (''Not run'', ''the source binding was revoked'')
      else if reason = ''tenant_suspended'' then (''Not run'', ''the repository's tenant is suspended'')
      else if reason = ''access_removed'' then
        (''Not run'', ''the GitHub App installation no longer grants access'')
      else if reason = ''destination_refused'' then
        (''Not run'', ''the deployment no longer approves this source's destination'')
      else if reason = ''ref_not_allowed'' then (''Not run'', ''the binding does not allow this ref'')
      else if reason = ''no_pipeline'' then
        (''Not run'', ''the bound pipeline path is missing at this revision'')
      else if reason = ''pipeline_invalid'' then (''Not run'', ''the pipeline did not compile'')
      else if reason = ''image_unpinned'' then (''Not run'', ''a job image is not pinned by digest'')
      else if reason = ''source_unavailable'' then (''Not run'', ''no usable source credential exists'')
      else if reason = ''no_forge_association'' then
        (''Not run'', ''the pull request has no forge association'')
      else if reason = ''pr_metadata'' then (''Not run'', ''the pull request metadata is incomplete'')
      else if reason = ''resolution_attempts'' then (''Not run'', ''source resolution failed repeatedly'')
      else (''Not run'', ''the event did not produce a run''))"

text \<open>A row whose head commit is null fails to decode as text: an error of the database layer.\<close>

definition record_delivery :: "store_env \<Rightarrow> db \<Rightarrow> uuid \<Rightarrow> string \<Rightarrow> int \<Rightarrow> store_error + db" where
  "record_delivery env db delivery reason now =
     (case conclusion_of_reason reason of
        None \<Rightarrow> Inr db
      | Some conclusion \<Rightarrow>
          (case find (\<lambda>d. dl_id d = delivery) (db_deliveries db) of
             None \<Rightarrow> Inr db
           | Some d \<Rightarrow>
               let p = find (\<lambda>p. pd_delivery p = dl_id d) (db_pr_deliveries db);
                   b = find (\<lambda>b. sb_repo b = dl_repo d) (db_bindings db)
               in res_bind (ok_or SE_Sqlite (coalesce (map_option pd_head_sha p) (dl_new_sha d))) (\<lambda>head_sha.
                  if Option.bind b sb_installation = None \<or> map_option sb_revoked b = Some True then Inr db
                  else if pred_option (prefix ''refs/tags/'') (dl_ref_name d) \<and> dl_ref_name d \<noteq> None then Inr db
                  else
                    res_bind (typed ''tenant_id'' (dl_tenant d)) (\<lambda>tenant.
                    res_bind (typed ''repo_id'' (dl_repo d)) (\<lambda>repo.
                    let (title, why) = delivery_text reason;
                        summary = why @ '' ('' @ reason @ '')''
                          @ (case dl_ref_name d of Some reference \<Rightarrow> '': '' @ reference | None \<Rightarrow> [])
                    in upsert env db
                         \<lparr>dr_tenant = tenant, dr_repo = repo, dr_run = None, dr_delivery = Some delivery,
                          dr_scope = AGGREGATE_SCOPE, dr_name = AGGREGATE_NAME, dr_head_sha = head_sha,
                          dr_external = EXTERNAL_PREFIX @ ''dlv:''
                            @ id_display (env_uuid_text env) DeliveryId delivery,
                          dr_content = (St_Completed, Some conclusion, title, summary)\<rparr> now)))))"

subsection \<open>The publisher's side\<close>

definition check_decode :: "check_rec \<Rightarrow> store_error + publication" where
  "check_decode c =
     res_bind (typed ''check id'' (ck_id c)) (\<lambda>cid.
     res_bind (typed ''tenant_id'' (ck_tenant c)) (\<lambda>tenant.
     res_bind (typed ''repo_id'' (ck_repo c)) (\<lambda>repo.
     res_bind (case ck_run c of None \<Rightarrow> Inr None | Some b \<Rightarrow> res_map Some (typed ''run_id'' b)) (\<lambda>run.
     res_bind (case ck_delivery c of None \<Rightarrow> Inr None
         | Some b \<Rightarrow> res_map Some (typed ''delivery_id'' b)) (\<lambda>delivery.
     res_bind (ok_or (SE_Corrupt ''check status'') (status_parse (ck_status c))) (\<lambda>status.
     res_bind (case ck_conclusion c of None \<Rightarrow> Inr None
         | Some t \<Rightarrow> res_map Some (ok_or (SE_Corrupt ''check conclusion'') (conclusion_parse t))) (\<lambda>conclusion.
     res_bind (ok_or (SE_Corrupt ''check state'') (check_state_decode (ck_state c))) (\<lambda>state.
     Inr \<lparr>pb_id = cid, pb_tenant = tenant, pb_repo = repo, pb_run = run, pb_delivery = delivery,
          pb_scope = ck_scope c, pb_name = ck_name c, pb_head_sha = ck_head_sha c,
          pb_external_id = ck_external_id c, pb_status = status, pb_conclusion = conclusion,
          pb_title = ck_title c, pb_summary = ck_summary c, pb_check_run_id = ck_check_run_id c,
          pb_check_suite_id = ck_check_suite_id c, pb_create_started_ms = ck_create_started_ms c,
          pb_create_seq = ck_create_seq c, pb_seq = ck_seq c, pb_published_seq = ck_published_seq c,
          pb_state = state, pb_reason = ck_reason c\<rparr>))))))))"

definition is_due :: "int \<Rightarrow> check_rec \<Rightarrow> bool" where
  "is_due now c \<longleftrightarrow>
     ck_state c = 0 \<and> ck_published_seq c < ck_seq c
     \<and> (case ck_next_attempt_ms c of None \<Rightarrow> True | Some t \<Rightarrow> t \<le> now)"

text \<open>\<open>due\<close>: the decoded rows, and the keys of those that do not decode.\<close>

definition due :: "db \<Rightarrow> int \<Rightarrow> nat \<Rightarrow> publication list \<times> uuid list" where
  "due db now limit =
     (let rows = take limit (sort_key (\<lambda>c. (ck_created_ms c, ck_id c)) (filter (is_due now) (db_checks db)))
      in (List.map_filter (\<lambda>c. case check_decode c of Inr p \<Rightarrow> Some p | Inl _ \<Rightarrow> None) rows,
          List.map_filter (\<lambda>c. case check_decode c of Inr _ \<Rightarrow> None | Inl _ \<Rightarrow> Some (ck_id c)) rows))"

text \<open>In the order of the column, null comes first and reads as zero.\<close>

definition next_due_ms :: "db \<Rightarrow> int option" where
  "next_due_ms db =
     (let rows = filter (\<lambda>c. ck_state c = 0 \<and> ck_published_seq c < ck_seq c) (db_checks db) in
      if rows = [] then None
      else if list_ex (\<lambda>c. ck_next_attempt_ms c = None) rows then Some 0
      else Some (Min (set (List.map_filter ck_next_attempt_ms rows))))"

definition check_get :: "db \<Rightarrow> uuid \<Rightarrow> store_error + publication option" where
  "check_get db cid =
     (case find (\<lambda>c. ck_id c = cid) (db_checks db) of
        None \<Rightarrow> Inr None
      | Some c \<Rightarrow> res_map Some (check_decode c))"

definition checks_of_run :: "db \<Rightarrow> uuid \<Rightarrow> uuid \<Rightarrow> store_error + publication list" where
  "checks_of_run db tenant run =
     traverse_from 0 (\<lambda>_. check_decode)
       (sort_key ck_scope (filter (\<lambda>c. ck_tenant c = tenant \<and> ck_run c = Some run) (db_checks db)))"

definition check_of_delivery :: "db \<Rightarrow> uuid \<Rightarrow> store_error + publication option" where
  "check_of_delivery db delivery =
     (case find (\<lambda>c. ck_delivery c = Some delivery) (db_checks db) of
        None \<Rightarrow> Inr None
      | Some c \<Rightarrow> res_map Some (check_decode c))"

definition update_checks :: "(check_rec \<Rightarrow> bool) \<Rightarrow> (check_rec \<Rightarrow> check_rec) \<Rightarrow> db \<Rightarrow> store_error + nat \<times> db" where
  "update_checks P f db =
     (if list_ex (\<lambda>c. P c \<and> \<not> check_rec_ok (f c)) (db_checks db) then Inl SE_Sqlite
      else let (n, rows) = update_where P f (db_checks db) in Inr (n, db\<lparr>db_checks := rows\<rparr>))"

definition create_started :: "db \<Rightarrow> uuid \<Rightarrow> int \<Rightarrow> int \<Rightarrow> store_error + db" where
  "create_started db cid sq now =
     res_bind (update_checks (\<lambda>c. ck_id c = cid \<and> ck_seq c = sq)
       (\<lambda>c. c\<lparr>ck_create_started_ms := Some now, ck_create_seq := Some sq, ck_updated_ms := now\<rparr>) db)
       (\<lambda>(changed, db). if changed \<noteq> 1 then Inl SE_Conflict else Inr db)"

definition published ::
    "db \<Rightarrow> uuid \<Rightarrow> int \<Rightarrow> int \<Rightarrow> int option \<Rightarrow> int \<Rightarrow> store_error + bool \<times> db" where
  "published db cid sq check_run_id check_suite_id now =
     res_bind (update_checks (\<lambda>c. ck_id c = cid)
       (\<lambda>c. c\<lparr>ck_check_run_id := Some check_run_id,
         ck_check_suite_id := coalesce check_suite_id (ck_check_suite_id c), ck_updated_ms := now\<rparr>) db)
       (\<lambda>(_, db).
     res_bind (update_checks (\<lambda>c. ck_id c = cid \<and> ck_seq c = sq)
       (\<lambda>c. c\<lparr>ck_published_seq := sq, ck_state := 1, ck_reason := None, ck_next_attempt_ms := None,
         ck_settled_ms := Some now, ck_updated_ms := now\<rparr>) db)
       (\<lambda>(changed, db). Inr (changed = 1, db)))"

text \<open>The characters of a text, each its UTF-8 bytes, and those of the category \<open>Cc\<close>.\<close>

definition is_continuation :: "char \<Rightarrow> bool" where
  "is_continuation c \<longleftrightarrow> (128 :: nat) \<le> of_char c \<and> (of_char c :: nat) < 192"

lemma length_dropWhile_less [termination_simp]: "length (dropWhile P xs) < Suc (length xs)"
  by (simp add: length_dropWhile_le less_Suc_eq_le)

fun utf8_chars :: "string \<Rightarrow> string list" where
  "utf8_chars [] = []"
| "utf8_chars (c # s) =
     (c # takeWhile is_continuation s) # utf8_chars (dropWhile is_continuation s)"

definition is_control :: "string \<Rightarrow> bool" where
  "is_control ch \<longleftrightarrow>
     (case ch of
        [c] \<Rightarrow> (of_char c :: nat) < 32 \<or> of_char c = (127 :: nat)
      | [a, c] \<Rightarrow> a = CHR 0xC2 \<and> (128 :: nat) \<le> of_char c \<and> (of_char c :: nat) < 160
      | _ \<Rightarrow> False)"

definition clean_reason :: "string \<Rightarrow> string" where
  "clean_reason reason =
     (let r = trim (concat (take 120 (filter (\<lambda>ch. \<not> is_control ch) (utf8_chars reason)))) in
      if r = [] then ''refused'' else r)"

definition refused :: "db \<Rightarrow> uuid \<Rightarrow> int \<Rightarrow> string \<Rightarrow> int \<Rightarrow> store_error + db" where
  "refused db cid sq reason now =
     res_bind (update_checks (\<lambda>c. ck_id c = cid \<and> ck_seq c = sq)
       (\<lambda>c. c\<lparr>ck_state := 2, ck_reason := Some (clean_reason reason), ck_next_attempt_ms := None,
         ck_settled_ms := Some now, ck_updated_ms := now\<rparr>) db)
       (\<lambda>(changed, db). if changed \<noteq> 1 then Inl SE_Conflict else Inr db)"

text \<open>\<open>u32::try_from(n).unwrap_or(u32::MAX)\<close>.\<close>

definition to_u32 :: "int \<Rightarrow> nat" where
  "to_u32 n = (if 0 \<le> n \<and> n < 2 ^ 32 then nat n else 2 ^ 32 - 1)"

definition retry :: "db \<Rightarrow> uuid \<Rightarrow> int \<Rightarrow> int \<Rightarrow> int \<Rightarrow> store_error + retry_outcome \<times> db" where
  "retry db cid sq now delay_ms =
     (case find (\<lambda>c. ck_id c = cid \<and> ck_seq c = sq) (db_checks db) of
        None \<Rightarrow> Inl SE_Conflict
      | Some c \<Rightarrow>
          let final = (ck_status c = status_as_str St_Completed);
              budget = (if final then MAX_TERMINAL_ATTEMPTS else MAX_ATTEMPTS);
              ceiling = (if final then TERMINAL_MAX_BACKOFF_MS else MAX_BACKOFF_MS);
              nxt = to_u32 (i64_clamp (ck_attempts c + 1))
          in if budget \<le> nxt then
               res_bind (refused db cid sq ''attempts'' now) (\<lambda>db. Inr (Retry_Exhausted, db))
             else
               let base = (if final then terminal_backoff_ms nxt else backoff_ms nxt);
                   wait = max base (min (max delay_ms 0) ceiling);
                   next_attempt_ms = i64_clamp (now + wait)
               in res_bind (update_checks (\<lambda>c. ck_id c = cid \<and> ck_seq c = sq)
                    (\<lambda>c. c\<lparr>ck_attempts := int nxt, ck_next_attempt_ms := Some next_attempt_ms,
                      ck_updated_ms := now\<rparr>) db)
                    (\<lambda>(changed, db). if changed \<noteq> 1 then Inl SE_Conflict
                       else Inr (Retry_Scheduled nxt next_attempt_ms, db)))"

definition check_defer :: "db \<Rightarrow> uuid \<Rightarrow> int \<Rightarrow> int \<Rightarrow> int \<Rightarrow> store_error + bool \<times> db" where
  "check_defer db cid sq now until_ms =
     res_bind (update_checks (\<lambda>c. ck_id c = cid \<and> ck_seq c = sq \<and> ck_state c = 0)
       (\<lambda>c. c\<lparr>ck_next_attempt_ms := Some (min until_ms (i64_clamp (now + MAX_DEFER_MS))),
         ck_updated_ms := now\<rparr>) db)
       (\<lambda>(changed, db). Inr (changed = 1, db))"

definition defer_raw :: "db \<Rightarrow> uuid \<Rightarrow> int \<Rightarrow> int \<Rightarrow> store_error + bool \<times> db" where
  "defer_raw db cid now until_ms =
     res_bind (update_checks (\<lambda>c. ck_id c = cid \<and> ck_state c = 0 \<and> ck_published_seq c < ck_seq c)
       (\<lambda>c. c\<lparr>ck_next_attempt_ms := Some (min until_ms (i64_clamp (now + MAX_DEFER_MS))),
         ck_updated_ms := now\<rparr>) db)
       (\<lambda>(changed, db). Inr (changed = 1, db))"

text \<open>The newest exhausted rows of the window; rows created in the same millisecond come in the order
  of the table.\<close>

definition rearm_exhausted :: "db \<Rightarrow> int \<Rightarrow> nat \<Rightarrow> store_error + nat \<times> db" where
  "rearm_exhausted db now limit =
     (let picked = map ck_id (take limit (sort_key (\<lambda>c. - ck_created_ms c)
            (filter (\<lambda>c. ck_state c = 2 \<and> ck_reason c = Some ''attempts'' \<and> ck_status c = ''completed''
               \<and> i64_clamp (now - REARM_WINDOW_MS) \<le> ck_created_ms c) (db_checks db))))
      in update_checks (\<lambda>c. ck_id c \<in> set picked)
           (\<lambda>c. c\<lparr>ck_state := 0, ck_reason := None, ck_attempts := 0, ck_next_attempt_ms := None,
             ck_settled_ms := None, ck_updated_ms := now\<rparr>) db)"

end
