(* ===== verification/Checks_Outbox.thy ===== *)
theory Checks_Outbox
  imports Store_Checks
begin

text \<open>
  What the Checks outbox guarantees: its invariant under every operation of the writer and of the
  publisher in any order, that a publisher which read an old generation settles nothing, that a row
  which owes a delivery comes due again within an hour until that generation is settled, and the
  retry budget.
\<close>

subsection \<open>The invariant\<close>

definition settled_ok :: "check_rec \<Rightarrow> bool" where
  "settled_ok c \<longleftrightarrow> check_rec_ok c \<and> (ck_state c = 1 \<longrightarrow> ck_published_seq c = ck_seq c)"

definition run_keys :: "check_rec list \<Rightarrow> (uuid option \<times> string) list" where
  "run_keys rows = map (\<lambda>c. (ck_run c, ck_scope c)) (filter (\<lambda>c. ck_run c \<noteq> None) rows)"

definition outbox_ok :: "db \<Rightarrow> bool" where
  "outbox_ok db \<longleftrightarrow>
     distinct (map ck_id (db_checks db)) \<and> distinct (run_keys (db_checks db))
     \<and> list_all settled_ok (db_checks db)"

definition keeps_identity :: "(check_rec \<Rightarrow> check_rec) \<Rightarrow> bool" where
  "keeps_identity f \<longleftrightarrow>
     (\<forall>c. ck_id (f c) = ck_id c \<and> ck_run (f c) = ck_run c \<and> ck_scope (f c) = ck_scope c)"

lemma update_where_keys:
  assumes "keeps_identity f"
  shows "map ck_id (snd (update_where P f rows)) = map ck_id rows"
    "run_keys (snd (update_where P f rows)) = run_keys rows"
  using assms by (induction rows) (auto simp: update_where_def run_keys_def keeps_identity_def)

lemma update_checks_eq:
  "update_checks P f db = Inr (n, db') \<longleftrightarrow>
     (\<forall>c\<in>set (db_checks db). P c \<longrightarrow> check_rec_ok (f c))
     \<and> n = length (filter P (db_checks db))
     \<and> db' = db\<lparr>db_checks := map (\<lambda>c. if P c then f c else c) (db_checks db)\<rparr>"
  by (auto simp: update_checks_def update_where_def list_ex_iff)

lemma update_checks_ok:
  assumes "update_checks P f db = Inr (n, db')" "outbox_ok db" "keeps_identity f"
    and "\<And>c. c \<in> set (db_checks db) \<Longrightarrow> P c \<Longrightarrow> ck_state (f c) = 1 \<Longrightarrow> ck_published_seq (f c) = ck_seq (f c)"
  shows "outbox_ok db'"
proof -
  have rows: "db_checks db' = snd (update_where P f (db_checks db))"
    and ok: "\<forall>c\<in>set (db_checks db). P c \<longrightarrow> check_rec_ok (f c)"
    using assms(1) by (auto simp: update_checks_eq update_where_def)
  have "settled_ok (if P c then f c else c)" if "c \<in> set (db_checks db)" for c
    using that assms(2,4) ok by (auto simp: settled_ok_def outbox_ok_def list_all_iff)
  then have "list_all settled_ok (db_checks db')" unfolding rows list_all_iff set_update_where by blast
  then show ?thesis
    using assms(2) update_where_keys [OF assms(3), of P "db_checks db"] by (simp add: outbox_ok_def rows)
qed

lemma next_generation_identity: "keeps_identity (next_generation row)"
  by (simp add: keeps_identity_def next_generation_def)

abbreviation row_at :: "uuid option \<Rightarrow> string \<Rightarrow> check_rec \<Rightarrow> bool" where
  "row_at run scope c \<equiv> ck_run c \<noteq> None \<and> ck_run c = run \<and> ck_scope c = scope"

lemma row_at_unique:
  assumes "outbox_ok db" "c \<in> set (db_checks db)" "c' \<in> set (db_checks db)" "row_at run scope c" "row_at run scope c'"
  shows "c = c'"
proof -
  have d: "distinct (run_keys (db_checks db))" using assms(1) by (simp add: outbox_ok_def)
  have "c \<in> set (filter (\<lambda>c. ck_run c \<noteq> None) (db_checks db))" "c' \<in> set (filter (\<lambda>c. ck_run c \<noteq> None) (db_checks db))"
    using assms(2-5) by auto
  then show ?thesis
    by (rule keyed_inj [OF d [unfolded run_keys_def]]) (use assms(4,5) in simp)
qed

subsection \<open>Writing a row\<close>

lemma check_insert_simps [simp]:
  "ck_id (check_insert cid d now) = cid" "ck_run (check_insert cid d now) = dr_run d"
  "ck_scope (check_insert cid d now) = dr_scope d" "ck_delivery (check_insert cid d now) = dr_delivery d"
  "ck_seq (check_insert cid d now) = 1" "ck_published_seq (check_insert cid d now) = 0"
  "ck_state (check_insert cid d now) = 0" "ck_next_attempt_ms (check_insert cid d now) = None"
  "ck_tenant (check_insert cid d now) = dr_tenant d" "ck_repo (check_insert cid d now) = dr_repo d"
  by (simp_all add: check_insert_def split: prod.splits)

text \<open>The three ways an upsert succeeds: nothing to say, a next generation, a new row.\<close>

lemma upsert_cases:
  assumes "upsert env db d now = Inr db'"
  obtains row where "row = check_insert (env_new_id env (db_drawn db)) d now" "check_rec_ok row"
    "check_owned db row"
    "(\<exists>c. find (row_at (dr_run d) (dr_scope d)) (db_checks db) = Some c \<and> \<not> desired_changed row c
        \<and> db' = db\<lparr>db_drawn := Suc (db_drawn db)\<rparr>)
     \<or> (\<exists>c. find (row_at (dr_run d) (dr_scope d)) (db_checks db) = Some c \<and> desired_changed row c
        \<and> check_rec_ok (next_generation row c)
        \<and> db' = db\<lparr>db_drawn := Suc (db_drawn db), db_checks := snd (update_where
              (row_at (dr_run d) (dr_scope d)) (next_generation row) (db_checks db))\<rparr>)
     \<or> (find (row_at (dr_run d) (dr_scope d)) (db_checks db) = None
        \<and> ck_id row \<notin> ck_id ` set (db_checks db)
        \<and> db' = db\<lparr>db_drawn := Suc (db_drawn db), db_checks := db_checks db @ [row]\<rparr>)"
proof -
  have o: "check_owned (db\<lparr>db_drawn := n\<rparr>) row = check_owned db row" for n row
    by (simp add: check_owned_def cong: option.case_cong)
  let ?row = "check_insert (env_new_id env (db_drawn db)) d now"
  show ?thesis
    by (rule that [of ?row])
      (use assms in \<open>auto simp: upsert_def fresh_id_def Let_def o list_ex_iff image_iff
        split: if_splits option.splits\<close>)
qed

lemma upsert_ok:
  assumes "upsert env db d now = Inr db'" "outbox_ok db"
  shows "outbox_ok db'"
proof -
  let ?P = "row_at (dr_run d) (dr_scope d)"
  obtain row where row: "row = check_insert (env_new_id env (db_drawn db)) d now" "check_rec_ok row"
    and c: "(\<exists>c. find ?P (db_checks db) = Some c \<and> \<not> desired_changed row c
        \<and> db' = db\<lparr>db_drawn := Suc (db_drawn db)\<rparr>)
     \<or> (\<exists>c. find ?P (db_checks db) = Some c \<and> desired_changed row c
        \<and> check_rec_ok (next_generation row c)
        \<and> db' = db\<lparr>db_drawn := Suc (db_drawn db), db_checks := snd (update_where ?P (next_generation row) (db_checks db))\<rparr>)
     \<or> (find ?P (db_checks db) = None \<and> ck_id row \<notin> ck_id ` set (db_checks db)
        \<and> db' = db\<lparr>db_drawn := Suc (db_drawn db), db_checks := db_checks db @ [row]\<rparr>)"
    by (rule upsert_cases [OF assms(1)])
  from c show ?thesis
  proof (elim disjE exE conjE)
    fix c assume "db' = db\<lparr>db_drawn := Suc (db_drawn db)\<rparr>"
    with assms(2) show ?thesis by (simp add: outbox_ok_def)
  next
    fix c assume f: "find ?P (db_checks db) = Some c" "check_rec_ok (next_generation row c)"
      and db': "db' = db\<lparr>db_drawn := Suc (db_drawn db), db_checks := snd (update_where ?P (next_generation row) (db_checks db))\<rparr>"
    have "settled_ok (if ?P x then next_generation row x else x)" if x: "x \<in> set (db_checks db)" for x
    proof (cases "?P x")
      case True
      then have "x = c" using find_SomeD [OF f(1)] x by (intro row_at_unique [OF assms(2)]) blast+
      moreover have "ck_state (next_generation row c) = 0" by (simp add: next_generation_def)
      then have "settled_ok (next_generation row c)" using f(2) by (simp add: settled_ok_def)
      ultimately show ?thesis by (subst if_P [OF True]) simp
    next
      case False
      then show ?thesis using assms(2) x by (auto simp: outbox_ok_def list_all_iff)
    qed
    moreover have "db_checks db' = snd (update_where ?P (next_generation row) (db_checks db))" by (simp add: db')
    ultimately have "list_all settled_ok (db_checks db')"
      unfolding list_all_iff by (simp only: set_update_where) blast
    then show ?thesis
      using assms(2) update_where_keys [OF next_generation_identity, of ?P row "db_checks db"]
      by (simp add: outbox_ok_def db')
  next
    assume n: "find ?P (db_checks db) = None" "ck_id row \<notin> ck_id ` set (db_checks db)"
      and db': "db' = db\<lparr>db_drawn := Suc (db_drawn db), db_checks := db_checks db @ [row]\<rparr>"
    have "settled_ok row" using row by (simp add: settled_ok_def)
    moreover have "(ck_run row, ck_scope row) \<notin> set (run_keys (db_checks db))"
      using n(1) row(1) by (auto simp: find_None_iff run_keys_def)
    ultimately show ?thesis using assms(2) n(2) db'
      by (auto simp: outbox_ok_def run_keys_def)
  qed
qed

subsection \<open>Any interleaving of the operations\<close>

datatype outbox_op =
    O_record_run uuid uuid
  | O_record_job uuid uuid
  | O_record_delivery uuid string
  | O_create_started uuid int
  | O_published uuid int int "int option"
  | O_retry uuid int int
  | O_defer uuid int int
  | O_defer_raw uuid int
  | O_refused uuid int string
  | O_rearm nat

fun outbox_do :: "store_env \<Rightarrow> int \<Rightarrow> outbox_op \<Rightarrow> db \<Rightarrow> store_error + db" where
  "outbox_do env now (O_record_run tenant run) db = res_map snd (record_run env db tenant run now)"
| "outbox_do env now (O_record_job tenant job) db = record_job env db tenant job now"
| "outbox_do env now (O_record_delivery d reason) db = record_delivery env db d reason now"
| "outbox_do env now (O_create_started cid sq) db = create_started db cid sq now"
| "outbox_do env now (O_published cid sq run suite) db = res_map snd (published db cid sq run suite now)"
| "outbox_do env now (O_retry cid sq delay) db = res_map snd (retry db cid sq now delay)"
| "outbox_do env now (O_defer cid sq until) db = res_map snd (check_defer db cid sq now until)"
| "outbox_do env now (O_defer_raw cid until) db = res_map snd (defer_raw db cid now until)"
| "outbox_do env now (O_refused cid sq reason) db = refused db cid sq reason now"
| "outbox_do env now (O_rearm limit) db = res_map snd (rearm_exhausted db now limit)"

text \<open>An operation that fails is rolled back.\<close>

definition outbox_step :: "store_env \<Rightarrow> db \<Rightarrow> int \<times> outbox_op \<Rightarrow> db" where
  "outbox_step env db nop = (case outbox_do env (fst nop) (snd nop) db of Inr db' \<Rightarrow> db' | Inl _ \<Rightarrow> db)"

definition outbox_run :: "store_env \<Rightarrow> db \<Rightarrow> (int \<times> outbox_op) list \<Rightarrow> db" where
  "outbox_run env db ops = foldl (outbox_step env) db ops"

lemma i64_clamp_mono: "x \<le> y \<Longrightarrow> i64_clamp x \<le> i64_clamp y"
  by (simp add: i64_clamp_def)



lemma backoff_most: "backoff_ms n \<le> MAX_BACKOFF_MS" "terminal_backoff_ms n \<le> TERMINAL_MAX_BACKOFF_MS"
  by (simp_all add: backoff_ms_def terminal_backoff_ms_def)

text \<open>The publisher's retry, taken apart.\<close>

definition retry_budget :: "check_rec \<Rightarrow> nat" where
  "retry_budget c = (if ck_status c = ''completed'' then MAX_TERMINAL_ATTEMPTS else MAX_ATTEMPTS)"

definition retry_ceiling :: "check_rec \<Rightarrow> int" where
  "retry_ceiling c = (if ck_status c = ''completed'' then TERMINAL_MAX_BACKOFF_MS else MAX_BACKOFF_MS)"

definition retry_wait :: "check_rec \<Rightarrow> nat \<Rightarrow> int \<Rightarrow> int" where
  "retry_wait c n delay =
     max (if ck_status c = ''completed'' then terminal_backoff_ms n else backoff_ms n)
       (min (max delay 0) (retry_ceiling c))"

lemma retry_eq:
  "retry db cid sq now delay =
     (case find (\<lambda>c. ck_id c = cid \<and> ck_seq c = sq) (db_checks db) of
        None \<Rightarrow> Inl SE_Conflict
      | Some c \<Rightarrow>
          let n = to_u32 (i64_clamp (ck_attempts c + 1)) in
          if retry_budget c \<le> n then
            res_bind (refused db cid sq ''attempts'' now) (\<lambda>db. Inr (Retry_Exhausted, db))
          else
            res_bind (update_checks (\<lambda>c. ck_id c = cid \<and> ck_seq c = sq)
              (\<lambda>x. x\<lparr>ck_attempts := int n,
                 ck_next_attempt_ms := Some (i64_clamp (now + retry_wait c n delay)), ck_updated_ms := now\<rparr>) db)
              (\<lambda>(changed, db). if changed \<noteq> 1 then Inl SE_Conflict
                 else Inr (Retry_Scheduled n (i64_clamp (now + retry_wait c n delay)), db)))"
  unfolding retry_def retry_budget_def retry_ceiling_def retry_wait_def Let_def
  by (cases "find (\<lambda>c. ck_id c = cid \<and> ck_seq c = sq) (db_checks db)") simp_all


lemma retry_wait_most: "retry_wait c n delay \<le> retry_ceiling c" "retry_wait c n delay \<le> MAX_DEFER_MS"
proof -
  show "retry_wait c n delay \<le> retry_ceiling c"
    using backoff_most by (auto simp: retry_wait_def retry_ceiling_def)
  then show "retry_wait c n delay \<le> MAX_DEFER_MS"
    by (simp add: retry_ceiling_def MAX_DEFER_MS_def MAX_BACKOFF_MS_def TERMINAL_MAX_BACKOFF_MS_def split: if_splits)
qed

lemma to_u32_pos: "ck_attempts c \<ge> 0 \<Longrightarrow> 0 < to_u32 (i64_clamp (ck_attempts c + 1))"
  by (auto simp: to_u32_def i64_clamp_def)


text \<open>
  Every operation is a composition of upserts and of the publisher's guarded updates.  A reflexive and
  transitive relation that both kinds of write respect is respected by every operation.
\<close>

definition within_defer :: "int \<Rightarrow> check_rec \<Rightarrow> bool" where
  "within_defer now c \<longleftrightarrow> pred_option (\<lambda>t. t \<le> i64_clamp (now + MAX_DEFER_MS)) (ck_next_attempt_ms c)"

definition publisher_update :: "int \<Rightarrow> (check_rec \<Rightarrow> bool) \<Rightarrow> (check_rec \<Rightarrow> check_rec) \<Rightarrow> bool" where
  "publisher_update now P f \<longleftrightarrow>
     keeps_identity f
     \<and> (\<forall>c. P c \<longrightarrow> ck_seq (f c) = ck_seq c
          \<and> (ck_state (f c) = 1 \<longrightarrow> ck_published_seq (f c) = ck_seq c
               \<or> ck_state c = 1 \<and> ck_published_seq (f c) = ck_published_seq c)
          \<and> (ck_state (f c) = 0 \<longrightarrow> within_defer now (f c)
               \<or> ck_state c = 0 \<and> ck_next_attempt_ms (f c) = ck_next_attempt_ms c))"

locale row_effect =
  fixes env :: store_env and now :: int and R :: "db \<Rightarrow> db \<Rightarrow> bool"
  assumes refl: "R db db"
    and trans: "R a b \<Longrightarrow> R b c \<Longrightarrow> R a c"
    and upserts: "upsert env db d now = Inr db' \<Longrightarrow> R db db'"
    and updates: "update_checks P f db = Inr (n, db') \<Longrightarrow> publisher_update now P f \<Longrightarrow> R db db'"
begin

lemma record_aggregate_effect: "record_aggregate env db tenant run facts now = Inr db' \<Longrightarrow> R db db'"
  by (auto simp: record_aggregate_def res_bind_eq_Inr dest: upserts)

lemma record_queued_effect: "record_queued env db tenant run facts rows now n = Inr (m, db') \<Longrightarrow> R db db'"
proof (induction rows arbitrary: db n)
  case (Cons r rows)
  then show ?case
    by (cases r) (auto simp: res_bind_eq_Inr dest!: upserts intro: trans)
qed (auto intro: refl)

lemma record_job_effect: "record_job env db tenant job now = Inr db' \<Longrightarrow> R db db'"
  by (auto simp: record_job_def res_bind_eq_Inr refl split: option.splits
    dest!: upserts record_aggregate_effect intro: trans)

lemma record_run_effect: "record_run env db tenant run now = Inr (n, db') \<Longrightarrow> R db db'"
  by (auto simp: record_run_def res_bind_eq_Inr Let_def refl split: option.splits
    dest!: record_queued_effect record_aggregate_effect intro: trans)

lemma record_delivery_effect: "record_delivery env db d reason now = Inr db' \<Longrightarrow> R db db'"
  by (cases "delivery_text reason")
    (auto simp: record_delivery_def res_bind_eq_Inr Let_def refl split: option.splits if_splits dest: upserts)

lemma refused_effect: "refused db cid sq reason now = Inr db' \<Longrightarrow> R db db'"
  unfolding refused_def res_bind_eq_Inr
  by (auto split: if_splits elim!: updates simp: publisher_update_def keeps_identity_def)

lemma published_effect:
  assumes "published db cid sq run suite now = Inr (b, db')"
  shows "R db db'"
proof -
  obtain n m db1 where u: "update_checks (\<lambda>c. ck_id c = cid)
       (\<lambda>c. c\<lparr>ck_check_run_id := Some run,
         ck_check_suite_id := coalesce suite (ck_check_suite_id c), ck_updated_ms := now\<rparr>) db = Inr (n, db1)"
    "update_checks (\<lambda>c. ck_id c = cid \<and> ck_seq c = sq)
       (\<lambda>c. c\<lparr>ck_published_seq := sq, ck_state := 1, ck_reason := None, ck_next_attempt_ms := None,
         ck_settled_ms := Some now, ck_updated_ms := now\<rparr>) db1 = Inr (m, db')"
    using assms by (auto simp: published_def res_bind_eq_Inr)
  have "R db db1" by (rule updates [OF u(1)]) (simp add: publisher_update_def keeps_identity_def)
  moreover have "R db1 db'" by (rule updates [OF u(2)]) (simp add: publisher_update_def keeps_identity_def)
  ultimately show ?thesis by (rule trans)
qed

lemma retry_effect:
  assumes "retry db cid sq now delay = Inr (out, db')"
  shows "R db db'"
proof -
  obtain c where c: "find (\<lambda>c. ck_id c = cid \<and> ck_seq c = sq) (db_checks db) = Some c"
    using assms by (cases "find (\<lambda>c. ck_id c = cid \<and> ck_seq c = sq) (db_checks db)") (auto simp: retry_def)
  define n where "n = to_u32 (i64_clamp (ck_attempts c + 1))"
  show ?thesis
  proof (cases "retry_budget c \<le> n")
    case True
    with assms c show ?thesis by (auto simp: retry_eq n_def Let_def res_bind_eq_Inr dest: refused_effect)
  next
    case False
    with assms c obtain m where "update_checks (\<lambda>c. ck_id c = cid \<and> ck_seq c = sq)
        (\<lambda>x. x\<lparr>ck_attempts := int n,
           ck_next_attempt_ms := Some (i64_clamp (now + retry_wait c n delay)), ck_updated_ms := now\<rparr>) db = Inr (m, db')"
      by (auto simp: retry_eq n_def Let_def res_bind_eq_Inr split: if_splits)
    then show ?thesis
      by (rule updates)
        (simp add: publisher_update_def keeps_identity_def within_defer_def i64_clamp_mono retry_wait_most)
  qed
qed

lemma create_started_effect: "create_started db cid sq now = Inr db' \<Longrightarrow> R db db'"
  unfolding create_started_def res_bind_eq_Inr
  by (auto split: if_splits elim!: updates simp: publisher_update_def keeps_identity_def)

lemma defer_effect:
  "check_defer db cid sq now until = Inr (b, db') \<Longrightarrow> R db db'"
  "defer_raw db cid now until = Inr (b, db') \<Longrightarrow> R db db'"
  unfolding check_defer_def defer_raw_def res_bind_eq_Inr
  by (auto elim!: updates simp: publisher_update_def keeps_identity_def within_defer_def)

lemma rearm_effect: "rearm_exhausted db now limit = Inr (n, db') \<Longrightarrow> R db db'"
  unfolding rearm_exhausted_def Let_def
  by (erule updates) (simp add: publisher_update_def keeps_identity_def within_defer_def)

lemma do_effect: "outbox_do env now op db = Inr db' \<Longrightarrow> R db db'"
  by (cases op) (auto simp: res_map_eq_Inr dest: record_run_effect record_job_effect record_delivery_effect
    create_started_effect published_effect retry_effect defer_effect refused_effect rearm_effect)

end

interpretation kept: row_effect env now "\<lambda>db db'. outbox_ok db \<longrightarrow> outbox_ok db'" for env now
proof
  show "upsert env db d now = Inr db' \<Longrightarrow> outbox_ok db \<longrightarrow> outbox_ok db'" for db d db'
    by (blast intro: upsert_ok)
  show "outbox_ok db \<longrightarrow> outbox_ok db'"
    if u: "update_checks P f db = Inr (n, db')" "publisher_update now P f" for P f db n db'
  proof
    assume ok: "outbox_ok db"
    show "outbox_ok db'"
    proof (rule update_checks_ok [OF u(1) ok])
      fix c assume "c \<in> set (db_checks db)" "P c" "ck_state (f c) = 1"
      with u(2) ok show "ck_published_seq (f c) = ck_seq (f c)"
        by (auto simp: publisher_update_def outbox_ok_def list_all_iff settled_ok_def)
    qed (use u(2) in \<open>simp add: publisher_update_def\<close>)
  qed
qed auto

text \<open>Every pending row comes due no later than an hour after \<open>T\<close>.\<close>

definition timely :: "int \<Rightarrow> db \<Rightarrow> bool" where
  "timely T db \<longleftrightarrow> (\<forall>c\<in>set (db_checks db). ck_state c = 0 \<longrightarrow> within_defer T c)"

lemma within_defer_later: "within_defer now c \<Longrightarrow> now \<le> T \<Longrightarrow> within_defer T c"
  using i64_clamp_mono [of "now + MAX_DEFER_MS" "T + MAX_DEFER_MS"]
  by (cases "ck_next_attempt_ms c") (auto simp: within_defer_def)

lemma next_generation_simps [simp]:
  "ck_id (next_generation row c) = ck_id c" "ck_seq (next_generation row c) = ck_seq c + 1"
  "ck_next_attempt_ms (next_generation row c) = None" "ck_state (next_generation row c) = 0"
  by (simp_all add: next_generation_def)

lemma upsert_checks:
  assumes "upsert env db d now = Inr db'"
  obtains (same) "db_checks db' = db_checks db"
    | (newer) P row where "db_checks db' = snd (update_where P (next_generation row) (db_checks db))"
    | (new) row where "ck_next_attempt_ms row = None" "db_checks db' = db_checks db @ [row]"
proof -
  let ?P = "row_at (dr_run d) (dr_scope d)"
  obtain row where row: "row = check_insert (env_new_id env (db_drawn db)) d now" and d:
    "(\<exists>c. find ?P (db_checks db) = Some c \<and> \<not> desired_changed row c \<and> db' = db\<lparr>db_drawn := Suc (db_drawn db)\<rparr>)
     \<or> (\<exists>c. find ?P (db_checks db) = Some c \<and> desired_changed row c \<and> check_rec_ok (next_generation row c)
        \<and> db' = db\<lparr>db_drawn := Suc (db_drawn db), db_checks := snd (update_where ?P (next_generation row) (db_checks db))\<rparr>)
     \<or> (find ?P (db_checks db) = None \<and> ck_id row \<notin> ck_id ` set (db_checks db)
        \<and> db' = db\<lparr>db_drawn := Suc (db_drawn db), db_checks := db_checks db @ [row]\<rparr>)"
    by (rule upsert_cases [OF assms])
  from d show ?thesis
    by (elim disjE exE conjE) (rule same, simp, rule newer [of ?P row], simp, rule new [of row], simp add: row, simp)
qed

lemma upsert_rows:
  assumes "upsert env db d now = Inr db'" "c' \<in> set (db_checks db')"
  shows "c' \<in> set (db_checks db) \<or> ck_next_attempt_ms c' = None"
  using assms(1)
proof (cases rule: upsert_checks)
  case (newer P row)
  with assms(2) obtain c where "c \<in> set (db_checks db)" "c' = (if P c then next_generation row c else c)"
    by (auto simp: update_where_def)
  then show ?thesis by simp
qed (use assms(2) in auto)

lemma upsert_keeps_rows:
  assumes "upsert env db d now = Inr db'" "c \<in> set (db_checks db)"
  shows "\<exists>c'\<in>set (db_checks db'). ck_id c' = ck_id c \<and> ck_seq c \<le> ck_seq c'"
  using assms(1)
proof (cases rule: upsert_checks)
  case (newer P row)
  let ?c = "if P c then next_generation row c else c"
  have "?c \<in> set (db_checks db')" using assms(2) unfolding newer set_update_where by (rule imageI)
  then show ?thesis by (intro bexI [of _ ?c]) simp_all
qed (use assms(2) in auto)

interpretation prompt: row_effect env now "\<lambda>db db'. \<forall>T. now \<le> T \<longrightarrow> timely T db \<longrightarrow> timely T db'" for env now
proof
  show "\<forall>T. now \<le> T \<longrightarrow> timely T db \<longrightarrow> timely T db'" if "upsert env db d now = Inr db'" for db d db'
    using upsert_rows [OF that] by (fastforce simp: timely_def within_defer_def)
  show "\<forall>T. now \<le> T \<longrightarrow> timely T db \<longrightarrow> timely T db'"
    if u: "update_checks P f db = Inr (n, db')" "publisher_update now P f" for P f db n db'
  proof (intro allI impI)
    fix T assume T: "now \<le> T" "timely T db"
    have "within_defer T (f c)" if "c \<in> set (db_checks db)" "P c" "ck_state (f c) = 0" for c
      using u(2) that T within_defer_later [of now "f c" T]
      by (auto simp: publisher_update_def timely_def within_defer_def)
    with u(1) T(2) show "timely T db'" by (auto simp: update_checks_eq timely_def)
  qed
qed auto

interpretation lasting: row_effect env now
  "\<lambda>db db'. \<forall>c\<in>set (db_checks db). \<exists>c'\<in>set (db_checks db'). ck_id c' = ck_id c \<and> ck_seq c \<le> ck_seq c'" for env now
proof
  show "\<forall>c\<in>set (db_checks db). \<exists>c'\<in>set (db_checks db'). ck_id c' = ck_id c \<and> ck_seq c \<le> ck_seq c'"
    if u: "update_checks P f db = Inr (n, db')" "publisher_update now P f" for P f db n db'
  proof
    fix c assume c: "c \<in> set (db_checks db)"
    then have "(if P c then f c else c) \<in> set (db_checks db')" using u(1) by (auto simp: update_checks_eq)
    then show "\<exists>c'\<in>set (db_checks db'). ck_id c' = ck_id c \<and> ck_seq c \<le> ck_seq c'"
      using u(2) by (intro bexI) (auto simp: publisher_update_def keeps_identity_def)
  qed
next
  fix a b c :: db
  assume "\<forall>x\<in>set (db_checks a). \<exists>y\<in>set (db_checks b). ck_id y = ck_id x \<and> ck_seq x \<le> ck_seq y"
    "\<forall>x\<in>set (db_checks b). \<exists>y\<in>set (db_checks c). ck_id y = ck_id x \<and> ck_seq x \<le> ck_seq y"
  then show "\<forall>x\<in>set (db_checks a). \<exists>y\<in>set (db_checks c). ck_id y = ck_id x \<and> ck_seq x \<le> ck_seq y"
    by (metis order_trans)
qed (auto intro: upsert_keeps_rows)

lemma outbox_step_cases: "outbox_step env db nop = db \<or> outbox_do env (fst nop) (snd nop) db = Inr (outbox_step env db nop)"
  by (auto simp: outbox_step_def split: sum.splits)

lemma outbox_run_ok: "outbox_ok db \<Longrightarrow> outbox_ok (outbox_run env db ops)"
proof (induction ops arbitrary: db)
  case (Cons nop ops)
  have "outbox_ok (outbox_step env db nop)"
    using outbox_step_cases [of env db nop] kept.do_effect Cons.prems by metis
  with Cons.IH show ?case by (simp add: outbox_run_def)
qed (simp add: outbox_run_def)

lemma outbox_run_timely:
  "timely T db \<Longrightarrow> (\<And>nop. nop \<in> set ops \<Longrightarrow> fst nop \<le> T) \<Longrightarrow> timely T (outbox_run env db ops)"
proof (induction ops arbitrary: db)
  case (Cons nop ops)
  have "timely T (outbox_step env db nop)"
    using outbox_step_cases [of env db nop] prompt.do_effect Cons.prems by (metis list.set_intros(1))
  with Cons show ?case by (simp add: outbox_run_def)
qed (simp add: outbox_run_def)

lemma outbox_run_lasting:
  "c \<in> set (db_checks db) \<Longrightarrow> \<exists>c'\<in>set (db_checks (outbox_run env db ops)). ck_id c' = ck_id c \<and> ck_seq c \<le> ck_seq c'"
proof (induction ops arbitrary: db c)
  case (Cons nop ops)
  obtain c1 where "c1 \<in> set (db_checks (outbox_step env db nop))" "ck_id c1 = ck_id c" "ck_seq c \<le> ck_seq c1"
    using outbox_step_cases [of env db nop] lasting.do_effect Cons.prems by (metis order_refl)
  moreover from Cons.IH [OF this(1)] obtain c2 where
    "c2 \<in> set (db_checks (outbox_run env (outbox_step env db nop) ops))" "ck_id c2 = ck_id c1" "ck_seq c1 \<le> ck_seq c2"
    by blast
  ultimately show ?case by (auto simp: outbox_run_def intro!: bexI [of _ c2])
qed (auto simp: outbox_run_def)

subsection \<open>A stale publisher\<close>

text \<open>Rows that agree but for the handle of the forge's run.\<close>

definition same_but_handle :: "check_rec \<Rightarrow> check_rec \<Rightarrow> bool" where
  "same_but_handle c c' \<longleftrightarrow>
     c' = c\<lparr>ck_check_run_id := ck_check_run_id c', ck_check_suite_id := ck_check_suite_id c',
            ck_updated_ms := ck_updated_ms c'\<rparr>"

lemma no_match:
  assumes "outbox_ok db" "c \<in> set (db_checks db)" "ck_id c = cid" "ck_seq c \<noteq> sq"
  shows "\<And>x. x \<in> set (db_checks db) \<Longrightarrow> \<not> (ck_id x = cid \<and> ck_seq x = sq)"
    "find (\<lambda>c. ck_id c = cid \<and> ck_seq c = sq) (db_checks db) = None"
proof -
  have d: "distinct (map ck_id (db_checks db))" using assms(1) by (simp add: outbox_ok_def)
  show n: "\<not> (ck_id x = cid \<and> ck_seq x = sq)" if "x \<in> set (db_checks db)" for x
    using keyed_inj [OF d that assms(2)] assms(3,4) by auto
  then show "find (\<lambda>c. ck_id c = cid \<and> ck_seq c = sq) (db_checks db) = None"
    by (auto simp: find_None_iff)
qed

lemma update_no_match:
  assumes "\<And>x. x \<in> set (db_checks db) \<Longrightarrow> \<not> P x"
  shows "update_checks P f db = Inr (0, db)"
  using assms by (auto simp: update_checks_eq cong: map_cong)

lemma published_stale:
  assumes "outbox_ok db" "c \<in> set (db_checks db)" "ck_id c = cid" "ck_seq c \<noteq> sq"
    "published db cid sq run suite now = Inr (b, db')"
  shows "\<not> b \<and> list_all2 same_but_handle (db_checks db) (db_checks db')"
proof -
  let ?f = "\<lambda>c. c\<lparr>ck_check_run_id := Some run,
         ck_check_suite_id := coalesce suite (ck_check_suite_id c), ck_updated_ms := now\<rparr>"
  obtain n db1 where u: "update_checks (\<lambda>c. ck_id c = cid) ?f db = Inr (n, db1)"
    and p: "res_bind (update_checks (\<lambda>c. ck_id c = cid \<and> ck_seq c = sq)
       (\<lambda>c. c\<lparr>ck_published_seq := sq, ck_state := 1, ck_reason := None, ck_next_attempt_ms := None,
         ck_settled_ms := Some now, ck_updated_ms := now\<rparr>) db1)
       (\<lambda>(changed, db). Inr (changed = 1, db)) = Inr (b, db')"
    using assms(5) by (auto simp: published_def res_bind_eq_Inr)
  have rows: "db_checks db1 = map (\<lambda>c. if ck_id c = cid then ?f c else c) (db_checks db)"
    using u by (simp add: update_checks_eq)
  have "\<not> (ck_id x = cid \<and> ck_seq x = sq)" if x: "x \<in> set (db_checks db1)" for x
  proof -
    obtain y where "y \<in> set (db_checks db)" "x = (if ck_id y = cid then ?f y else y)"
      using x rows by auto
    with no_match(1) [OF assms(1-4), of y] show ?thesis by auto
  qed
  with p have "\<not> b \<and> db' = db1" by (simp add: update_no_match)
  then show ?thesis by (simp add: rows list_all2_conv_all_nth same_but_handle_def)
qed

subsection \<open>Properties\<close>

definition no_rows :: db where
  "no_rows = \<lparr>db_tenants = [], db_repos = [], db_runs = [], db_jobs = [], db_attempts = [],
     db_workers = [], db_specs = [], db_bindings = [], db_provenance = [], db_deliveries = [],
     db_pr_deliveries = [], db_checks = [], db_artifacts = [],
     db_policies = [], db_artifact_default_ms = None, db_drawn = 0\<rparr>"

definition example_id :: "nat \<Rightarrow> uuid" where
  "example_id n = [0, 0, 0, 0, 0, 0, 0x40, 0, 0x80, 0, 0, 0, 0, 0, 0, of_nat n]"

definition example_env :: store_env where
  "example_env = \<lparr>env_uuid_text = rfc_encode, env_new_id = example_id,
     env_codec = one_value_codec example_spec\<rparr>"

definition example_check :: check_rec where
  "example_check =
     \<lparr>ck_id = replicate 16 1, ck_tenant = replicate 16 2, ck_repo = replicate 16 3,
      ck_run = Some (replicate 16 4), ck_delivery = None, ck_scope = AGGREGATE_SCOPE,
      ck_name = AGGREGATE_NAME, ck_head_sha = replicate 40 (CHR ''0''), ck_external_id = ''x'',
      ck_status = ''queued'', ck_conclusion = None, ck_title = ''Queued'', ck_summary = ''s'',
      ck_check_run_id = None, ck_check_suite_id = None, ck_create_started_ms = None,
      ck_create_seq = None, ck_seq = 2, ck_published_seq = 1, ck_attempts = 0,
      ck_next_attempt_ms = None, ck_state = 0, ck_reason = None, ck_created_ms = 5,
      ck_updated_ms = 5, ck_settled_ms = None\<rparr>"

definition example_outbox :: db where
  "example_outbox = no_rows\<lparr>db_checks := [example_check]\<rparr>"

lemma example_check_ok: "check_rec_ok example_check"
proof -
  have "sql_length AGGREGATE_SCOPE = 9" "sql_length AGGREGATE_NAME = 13" "sql_length ''x'' = 1"
    "sql_length ''Queued'' = 6" "sql_length ''s'' = 1" "sql_length (replicate 40 (CHR ''0'')) = 40"
    by code_simp+
  then show ?thesis by (simp add: check_rec_ok_def example_check_def)
qed

lemma example_outbox_ok: "outbox_ok example_outbox"
  using example_check_ok
  by (simp add: outbox_ok_def example_outbox_def settled_ok_def run_keys_def) (simp add: example_check_def)

text \<open>
  C11: the outbox invariant holds after any sequence of its operations, failures included: identifiers
  are unique, a run has one row per scope, every row satisfies the constraints of the table, and a row
  marked published has delivered its newest generation.
\<close>

theorem outbox_invariant_is_kept:
  "outbox_ok db \<Longrightarrow> outbox_ok (outbox_run env db ops)"
  by (rule outbox_run_ok)

theorem outbox_invariant_is_kept_witness:
  "outbox_ok (outbox_run example_env example_outbox [(7, O_published (replicate 16 1) 2 9 None)])"
  by (rule outbox_invariant_is_kept [OF example_outbox_ok])

text \<open>
  C20: a publisher that read an older generation of a row settles nothing: marking a create, refusing
  and retrying fail with a conflict, deferring does nothing, and reporting a delivery stores at most
  the forge's handle and answers that the row has moved on.
\<close>

theorem stale_publisher_settles_nothing:
  assumes "outbox_ok db" "c \<in> set (db_checks db)" "ck_id c = cid" "ck_seq c \<noteq> sq"
  shows "create_started db cid sq now = Inl SE_Conflict
    \<and> refused db cid sq reason now = Inl SE_Conflict
    \<and> retry db cid sq now delay = Inl SE_Conflict
    \<and> check_defer db cid sq now until = Inr (False, db)
    \<and> (published db cid sq run suite now = Inr (b, db') \<longrightarrow>
         \<not> b \<and> list_all2 same_but_handle (db_checks db) (db_checks db'))"
proof -
  note n = no_match [OF assms]
  have "update_checks (\<lambda>c. ck_id c = cid \<and> ck_seq c = sq) f db = Inr (0, db)" for f
    by (rule update_no_match) (rule n(1))
  moreover have "update_checks (\<lambda>c. ck_id c = cid \<and> ck_seq c = sq \<and> ck_state c = 0) f db = Inr (0, db)" for f
    by (rule update_no_match) (use n(1) in blast)
  moreover have "published db cid sq run suite now = Inr (b, db') \<longrightarrow>
      \<not> b \<and> list_all2 same_but_handle (db_checks db) (db_checks db')"
    using published_stale [OF assms] by blast
  ultimately show ?thesis
    unfolding create_started_def refused_def check_defer_def retry_def n(2) by auto
qed

theorem stale_publisher_settles_nothing_witness:
  "retry example_outbox (replicate 16 1) 1 9 0 = Inl SE_Conflict"
  using stale_publisher_settles_nothing [OF example_outbox_ok, of example_check "replicate 16 1" 1 9 "[]" 0]
  by (simp add: example_outbox_def example_check_def)

text \<open>
  C12: no check is forgotten.  After any sequence of operations at times up to \<open>T\<close>, every row there was
  is still there, at the same or a newer generation, and that generation is delivered, refused, or due
  for the publisher within an hour.
\<close>

theorem owed_checks_come_due:
  assumes "outbox_ok db" "timely T db" "\<forall>nop\<in>set ops. fst nop \<le> T"
  shows "\<forall>c\<in>set (db_checks db). \<exists>c'\<in>set (db_checks (outbox_run env db ops)).
    ck_id c' = ck_id c \<and> ck_seq c \<le> ck_seq c'
    \<and> (ck_published_seq c' = ck_seq c' \<or> ck_state c' = 2 \<or> is_due (i64_clamp (T + MAX_DEFER_MS)) c')"
proof
  fix c assume "c \<in> set (db_checks db)"
  then obtain c' where c': "c' \<in> set (db_checks (outbox_run env db ops))" "ck_id c' = ck_id c" "ck_seq c \<le> ck_seq c'"
    using outbox_run_lasting by blast
  have "outbox_ok (outbox_run env db ops)" by (rule outbox_run_ok [OF assms(1)])
  then have ok: "settled_ok c'" using c'(1) by (simp add: outbox_ok_def list_all_iff)
  then have st: "ck_state c' \<in> {0, 1, 2}" "ck_published_seq c' \<le> ck_seq c'" "ck_state c' = 1 \<longrightarrow> ck_published_seq c' = ck_seq c'"
    by (auto simp: settled_ok_def check_rec_ok_def)
  have "timely T (outbox_run env db ops)" using outbox_run_timely [OF assms(2)] assms(3) by blast
  then have "ck_state c' = 0 \<longrightarrow> within_defer T c'" using c'(1) by (simp add: timely_def)
  with st have "ck_published_seq c' = ck_seq c' \<or> ck_state c' = 2 \<or> is_due (i64_clamp (T + MAX_DEFER_MS)) c'"
    by (auto simp: is_due_def within_defer_def split: option.splits)
  with c' show "\<exists>c'\<in>set (db_checks (outbox_run env db ops)). ck_id c' = ck_id c \<and> ck_seq c \<le> ck_seq c'
    \<and> (ck_published_seq c' = ck_seq c' \<or> ck_state c' = 2 \<or> is_due (i64_clamp (T + MAX_DEFER_MS)) c')" by blast
qed

theorem owed_checks_come_due_witness:
  "\<exists>c'\<in>set (db_checks (outbox_run example_env example_outbox [(7, O_retry (replicate 16 1) 2 0)])).
     ck_id c' = replicate 16 1 \<and> ck_seq example_check \<le> ck_seq c'
     \<and> (ck_published_seq c' = ck_seq c' \<or> ck_state c' = 2 \<or> is_due (i64_clamp (7 + MAX_DEFER_MS)) c')"
proof -
  have "timely 7 example_outbox"
    by (simp add: timely_def example_outbox_def within_defer_def) (simp add: example_check_def)
  from owed_checks_come_due [OF example_outbox_ok this, of "[(7, O_retry (replicate 16 1) 2 0)]" example_env]
  show ?thesis by (simp add: example_outbox_def) (simp add: example_check_def)
qed

subsection \<open>Retrying ends\<close>












subsection \<open>What a check says\<close>

definition says :: "check_rec \<Rightarrow> content \<Rightarrow> bool" where
  "says c content \<longleftrightarrow> (case content of (status, conclusion, title, summary) \<Rightarrow>
     ck_status c = status_as_str status \<and> ck_conclusion c = map_option conclusion_as_str conclusion
     \<and> ck_title c = title \<and> ck_summary c = summary)"

definition check_says :: "db \<Rightarrow> uuid \<Rightarrow> string \<Rightarrow> content \<Rightarrow> bool" where
  "check_says db run scope content \<longleftrightarrow>
     list_ex (\<lambda>c. row_at (Some run) scope c \<and> says c content) (db_checks db)"

lemma check_says_iff:
  "check_says db run scope content \<longleftrightarrow> (\<exists>c\<in>set (db_checks db). row_at (Some run) scope c \<and> says c content)"
  by (simp add: check_says_def list_ex_iff)

lemma says_insert: "says (check_insert cid d now) (dr_content d)"
  by (simp add: says_def check_insert_def split: prod.splits)

lemma says_next_generation: "says row content \<Longrightarrow> says (next_generation row c) content"
  by (simp add: says_def next_generation_def split: prod.splits)

lemma says_unchanged: "says row content \<Longrightarrow> \<not> desired_changed row c \<Longrightarrow> says c content"
  by (simp add: says_def desired_changed_def split: prod.splits)

lemma next_generation_row [simp]:
  "ck_run (next_generation row c) = ck_run c" "ck_scope (next_generation row c) = ck_scope c"
  by (simp_all add: next_generation_def)

lemma upsert_says:
  assumes "upsert env db d now = Inr db'" "dr_run d = Some run"
  shows "check_says db' run (dr_scope d) (dr_content d)"
    and "scope \<noteq> dr_scope d \<Longrightarrow> check_says db run scope content \<Longrightarrow> check_says db' run scope content"
    and "db' = db\<lparr>db_drawn := db_drawn db', db_checks := db_checks db'\<rparr>"
proof -
  let ?P = "row_at (dr_run d) (dr_scope d)"
  have "check_says db' run (dr_scope d) (dr_content d)
    \<and> (scope \<noteq> dr_scope d \<longrightarrow> check_says db run scope content \<longrightarrow> check_says db' run scope content)
    \<and> db' = db\<lparr>db_drawn := db_drawn db', db_checks := db_checks db'\<rparr>"
  proof (cases rule: upsert_cases [OF assms(1)])
    case (1 row)
    have s: "says row (dr_content d)" using 1(1) says_insert by simp
    from 1(4) show ?thesis
    proof (elim disjE exE conjE)
      fix c assume c: "find ?P (db_checks db) = Some c" "\<not> desired_changed row c" "db' = db\<lparr>db_drawn := Suc (db_drawn db)\<rparr>"
      with s find_SomeD [OF c(1)] assms(2) show ?thesis
        by (auto simp: check_says_iff dest: says_unchanged)
    next
      fix c assume c: "find ?P (db_checks db) = Some c"
        and db': "db' = db\<lparr>db_drawn := Suc (db_drawn db), db_checks := snd (update_where ?P (next_generation row) (db_checks db))\<rparr>"
      have rows: "set (db_checks db') = (\<lambda>x. if ?P x then next_generation row x else x) ` set (db_checks db)"
        by (simp add: db' set_update_where)
      have c': "c \<in> set (db_checks db)" "?P c" using find_SomeD [OF c] by auto
      have "next_generation row c \<in> set (db_checks db')"
        unfolding rows using c' by (intro rev_image_eqI [of c]) auto
      then have "check_says db' run (dr_scope d) (dr_content d)"
        using c' assms(2) says_next_generation [OF s, of c] unfolding check_says_iff by (intro bexI) auto
      moreover have "check_says db' run scope content" if o: "scope \<noteq> dr_scope d" "check_says db run scope content"
      proof -
        obtain x where x: "x \<in> set (db_checks db)" "row_at (Some run) scope x" "says x content"
          using o(2) by (auto simp: check_says_iff)
        then have "\<not> ?P x" using o(1) by auto
        then have "x \<in> set (db_checks db')" unfolding rows using x(1) by (intro rev_image_eqI [of x]) auto
        with x(2,3) show ?thesis unfolding check_says_iff by blast
      qed
      ultimately show ?thesis by (simp add: db')
    next
      assume db': "db' = db\<lparr>db_drawn := Suc (db_drawn db), db_checks := db_checks db @ [row]\<rparr>"
      with s 1(1) assms(2) show ?thesis by (auto simp: check_says_iff)
    qed
  qed
  then show "check_says db' run (dr_scope d) (dr_content d)"
    "scope \<noteq> dr_scope d \<Longrightarrow> check_says db run scope content \<Longrightarrow> check_says db' run scope content"
    "db' = db\<lparr>db_drawn := db_drawn db', db_checks := db_checks db'\<rparr>" by blast+
qed

lemma job_scope_not_aggregate: "job_scope env job \<noteq> AGGREGATE_SCOPE"
  by (simp add: job_scope_def id_display_def AGGREGATE_SCOPE_def)

lemma run_states_frame: "run_states (db\<lparr>db_drawn := n, db_checks := cs\<rparr>) tenant run = run_states db tenant run"
  by (simp add: run_states_def)

lemma aggregate_says:
  assumes "record_aggregate env db tenant run facts now = Inr db'"
  shows "\<exists>states content. run_states db tenant run = Inr states \<and> aggregate_content states = Inr content
      \<and> check_says db' run AGGREGATE_SCOPE content"
    and "check_says db run (job_scope env job) content \<Longrightarrow> check_says db' run (job_scope env job) content"
proof -
  obtain states content' where r: "run_states db tenant run = Inr states" "aggregate_content states = Inr content'"
    "upsert env db (run_draft env tenant run facts AGGREGATE_SCOPE AGGREGATE_NAME content') now = Inr db'"
    using assms by (auto simp: record_aggregate_def res_bind_eq_Inr)
  note u = upsert_says [OF r(3), of run, simplified run_draft_def, simplified]
  show "\<exists>states content. run_states db tenant run = Inr states \<and> aggregate_content states = Inr content
      \<and> check_says db' run AGGREGATE_SCOPE content" using r u(1) by blast
  show "check_says db' run (job_scope env job) content" if "check_says db run (job_scope env job) content"
    using u(2) [OF job_scope_not_aggregate that] .
qed

lemma typed_eq_Inr: "typed what b = Inr x \<longleftrightarrow> x = b \<and> id_from_bytes b = Inr b"
  by (auto simp: typed_def id_from_bytes_def map_err_def split: if_splits)

lemma failure_column:
  "(case code of None \<Rightarrow> Inr None | Some code \<Rightarrow> res_map Some (ok_or e (decode_failure code))) = Inr cls
     \<longleftrightarrow> map_option decode_failure code = map_option Some cls"
  by (cases code; cases cls) (auto simp: ok_or_def split: option.splits)

subsection \<open>A run with a skipped job\<close>

definition skipped_job :: job_rec where
  "skipped_job =
     \<lparr>jr_id = example_id 5, jr_tenant = example_id 2, jr_run = example_id 4, jr_name = ''deploy'',
      jr_state_code = 17, jr_fence = 0, jr_priority = 0, jr_created_seq = 1, jr_cancel_requested = False,
      jr_failure_class = None, jr_stamps = ts_default, jr_spec_index = 0, jr_cpu_millis = 1,
      jr_memory_bytes = 1, jr_disk_bytes = 1, jr_timeout_ms = 1, jr_image_digest = None,
      jr_image_platform = None, jr_repo = Some (example_id 3), jr_arch = None, jr_labels = [],
      jr_concurrency_group = None, jr_requires_secret_delivery = False, jr_runtime = 0, jr_image_name = None\<rparr>"

definition example_db :: db where
  "example_db = no_rows\<lparr>
     db_repos := [\<lparr>rp_id = example_id 3, rp_tenant = example_id 2, rp_name = ''app''\<rparr>],
     db_runs := [\<lparr>rn_id = example_id 4, rn_tenant = example_id 2, rn_repo = example_id 3,
        rn_source_sha = replicate 40 (CHR ''0''), rn_created_ms = 1, rn_cancel_requested = False\<rparr>],
     db_jobs := [skipped_job],
     db_bindings := [\<lparr>sb_repo = example_id 3, sb_revoked = False, sb_installation = Some (example_id 6),
        sb_forge_repo = Some 1, sb_binding = []\<rparr>],
     db_provenance := [\<lparr>pv_run = example_id 4, pv_trigger = ''push'', pv_ref_name = None,
        pv_head_sha = None, pv_pr_number = None\<rparr>],
     db_drawn := 7\<rparr>"

definition fits :: "draft \<Rightarrow> bool" where
  "fits d \<longleftrightarrow> check_rec_ok (check_insert (example_id 0) d 9)"

lemma upsert_fresh:
  assumes "fits d" "check_owned db (check_insert (env_new_id env (db_drawn db)) d 9)"
    "length (env_new_id env (db_drawn db)) = 16" "dr_delivery d = None"
    "find (row_at (dr_run d) (dr_scope d)) (db_checks db) = None"
    "env_new_id env (db_drawn db) \<notin> ck_id ` set (db_checks db)"
  shows "upsert env db d 9 = Inr (db\<lparr>db_drawn := Suc (db_drawn db),
    db_checks := db_checks db @ [check_insert (env_new_id env (db_drawn db)) d 9]\<rparr>)"
proof -
  have "check_rec_ok (check_insert (env_new_id env (db_drawn db)) d 9)"
    using assms(1,3) unfolding fits_def check_rec_ok_def check_insert_def by (cases "dr_content d") simp
  moreover have o: "check_owned (db\<lparr>db_drawn := n\<rparr>) row = check_owned db row" for n row
    by (simp add: check_owned_def cong: option.case_cong)
  ultimately show ?thesis using assms by (auto simp: upsert_def fresh_id_def Let_def list_ex_iff image_iff)
qed

lemma example_facts:
  "check_facts example_db (example_id 2) (example_id 4) = Inr (Some (example_id 3, replicate 40 (CHR ''0'')))"
proof -
  have "typed ''repo_id'' (example_id 3) = Inr (example_id 3)" by code_simp
  then show ?thesis by (simp add: check_facts_def example_db_def Let_def)
qed

definition example_content :: content where
  "example_content =
     (St_Completed, Some (conclusion_of_outcome Skipped), run_title Skipped, run_summary [Terminal Skipped])"

lemma example_aggregate: "aggregate_content [Terminal Skipped] = Inr example_content"
  by code_simp

definition len_within :: "nat \<Rightarrow> string \<Rightarrow> bool" where
  "len_within n s \<longleftrightarrow> 1 \<le> sql_length s \<and> sql_length s \<le> n"

lemma fits_run_draft:
  assumes "length tenant = 16" "length (fst facts) = 16" "len_within 64 scope" "len_within 255 name"
    "sql_length (snd facts) = 40" "len_within 128 (external_id env run scope)"
    "pred_option (\<lambda>c. len_within 32 (conclusion_as_str c)) conclusion"
    "len_within 128 title" "len_within 1024 summary" "(conclusion = None) = (status \<noteq> St_Completed)"
  shows "fits (run_draft env tenant run facts scope name (status, conclusion, title, summary))"
  using assms by (cases status; cases conclusion)
    (simp_all add: fits_def check_rec_ok_def check_insert_def run_draft_def example_id_def len_within_def)

abbreviation example_draft :: "string \<Rightarrow> string \<Rightarrow> content \<Rightarrow> draft" where
  "example_draft \<equiv>
     run_draft example_env (example_id 2) (example_id 4) (example_id 3, replicate 40 (CHR ''0''))"

abbreviation deploy_draft :: "content \<Rightarrow> draft" where
  "deploy_draft \<equiv> example_draft (job_scope example_env (example_id 5)) (qualified_name ''deploy'')"

lemma example_fits:
  "fits (deploy_draft (St_Queued, None, ''Queued'', ''job deploy: waiting for a worker''))"
  "fits (deploy_draft (St_Completed, Some (conclusion_of_outcome Skipped), ''Skipped'', ''job deploy: a dependency did not pass''))"
  "fits (example_draft AGGREGATE_SCOPE AGGREGATE_NAME example_content)"
proof -
  have id: "length (example_id n) = 16" for n by (simp add: example_id_def)
  have len: "sql_length (replicate 40 (CHR ''0'')) = 40"
    "len_within 32 (conclusion_as_str (conclusion_of_outcome Skipped))"
    "len_within 64 (job_scope example_env (example_id 5))" "len_within 255 (qualified_name ''deploy'')"
    "len_within 128 (external_id example_env (example_id 4) (job_scope example_env (example_id 5)))"
    "len_within 128 ''Queued''" "len_within 128 ''Skipped''"
    "len_within 1024 ''job deploy: waiting for a worker''"
    "len_within 1024 ''job deploy: a dependency did not pass''"
    "len_within 64 AGGREGATE_SCOPE" "len_within 255 AGGREGATE_NAME"
    "len_within 128 (external_id example_env (example_id 4) AGGREGATE_SCOPE)"
    "len_within 128 (run_title Skipped)" "len_within 1024 (run_summary [Terminal Skipped])"
    by code_simp+
  show "fits (deploy_draft (St_Queued, None, ''Queued'', ''job deploy: waiting for a worker''))"
    "fits (deploy_draft (St_Completed, Some (conclusion_of_outcome Skipped), ''Skipped'', ''job deploy: a dependency did not pass''))"
    "fits (example_draft AGGREGATE_SCOPE AGGREGATE_NAME example_content)" unfolding example_content_def
    by ((rule fits_run_draft; (simp only: fst_conv snd_conv id len option.pred_inject)?; simp)+)
qed

lemma example_owned:
  "check_owned (example_db\<lparr>db_drawn := n, db_checks := cs\<rparr>) (check_insert cid
     (run_draft example_env (example_id 2) (example_id 4) (example_id 3, sha) scope name content) 9)"
  "check_owned example_db (check_insert cid
     (run_draft example_env (example_id 2) (example_id 4) (example_id 3, sha) scope name content) 9)"
  by (simp_all add: check_owned_def) (simp_all add: run_draft_def example_db_def)

lemma example_upserts:
  assumes "fits (deploy_draft content)"
  shows "\<exists>db1 db2. upsert example_env example_db (deploy_draft content) 9 = Inr db1
     \<and> record_aggregate example_env db1 (example_id 2) (example_id 4) (example_id 3, replicate 40 (CHR ''0'')) 9 = Inr db2"
proof -
  let ?j = "deploy_draft content"
  let ?db = "example_db\<lparr>db_drawn := 8, db_checks := [check_insert (example_id 7) ?j 9]\<rparr>"
  have id: "length (example_id n) = 16" for n by (simp add: example_id_def)
  have db: "db_drawn example_db = 7" "db_checks example_db = []" "env_new_id example_env = example_id"
    "example_id 8 \<noteq> example_id 7"
    by (simp_all add: example_db_def no_rows_def example_env_def example_id_def)
  have u: "upsert example_env example_db ?j 9 = Inr ?db"
    using upsert_fresh [of ?j example_db example_env] assms example_owned(2) id db by (simp add: run_draft_def)
  have "run_states example_db (example_id 2) (example_id 4) = Inr [Terminal Skipped]"
    by (simp add: run_states_def example_db_def skipped_job_def decode_state_def)
  then have s: "run_states ?db (example_id 2) (example_id 4) = Inr [Terminal Skipped]"
    by (simp only: run_states_frame)
  have "upsert example_env ?db (example_draft AGGREGATE_SCOPE AGGREGATE_NAME example_content) 9
      = Inr (?db\<lparr>db_drawn := 9, db_checks := db_checks ?db
          @ [check_insert (example_id 8) (example_draft AGGREGATE_SCOPE AGGREGATE_NAME example_content) 9]\<rparr>)"
    using upsert_fresh [of "example_draft AGGREGATE_SCOPE AGGREGATE_NAME example_content" ?db example_env]
      example_fits(3) example_owned(1) id db job_scope_not_aggregate by (simp add: run_draft_def)
  then show ?thesis unfolding record_aggregate_def using u s example_aggregate by auto
qed

text \<open>
  C21: a recorded job is what its check says.  When the run has a forge to tell, recording a job leaves
  its check saying the state and failure class of the job's row, and the run's check saying the
  aggregate of the states of all the run's jobs.
\<close>

theorem recorded_job_is_told:
  assumes "record_job env db tenant job now = Inr db'"
    "find (\<lambda>r. jr_id r = job \<and> jr_tenant r = tenant) (db_jobs db) = Some r"
    "check_facts db tenant (jr_run r) = Inr (Some facts)"
  shows "\<exists>state cls states content.
    decode_state (jr_state_code r) = Some state \<and> map_option decode_failure (jr_failure_class r) = map_option Some cls
    \<and> check_says db' (jr_run r) (job_scope env job) (job_content state cls (jr_name r))
    \<and> run_states db tenant (jr_run r) = Inr states \<and> aggregate_content states = Inr content
    \<and> check_says db' (jr_run r) AGGREGATE_SCOPE content"
proof -
  have t: "typed ''run_id'' (jr_run r) = Inr (jr_run r)"
    using assms(1,2) by (cases "typed ''run_id'' (jr_run r)") (auto simp: record_job_def typed_eq_Inr)
  obtain state cls db1 where s: "decode_state (jr_state_code r) = Some state"
      "map_option decode_failure (jr_failure_class r) = map_option Some cls"
    and u: "upsert env db (run_draft env tenant (jr_run r) facts (job_scope env job)
        (qualified_name (jr_name r)) (job_content state cls (jr_name r))) now = Inr db1"
    and a: "record_aggregate env db1 tenant (jr_run r) facts now = Inr db'"
    using assms(1) unfolding record_job_def assms(2) option.case t res_bind_Inr assms(3)
    by (auto simp: res_bind_eq_Inr ok_or_eq_Inr failure_column)
  note w = upsert_says [OF u, of "jr_run r", simplified run_draft_def, simplified]
  have "run_states db1 tenant (jr_run r) = run_states db tenant (jr_run r)"
    by (subst w(3)) (rule run_states_frame)
  with s aggregate_says(1) [OF a] aggregate_says(2) [OF a w(1)] show ?thesis by metis
qed

lemma example_found:
  "find (\<lambda>r. jr_id r = example_id 5 \<and> jr_tenant r = example_id 2) (db_jobs example_db) = Some skipped_job"
  by (simp add: example_db_def skipped_job_def)

lemma example_recorded:
  "\<exists>db'. record_job example_env example_db (example_id 2) (example_id 5) 9 = Inr db'"
proof -
  have t: "typed ''run_id'' (example_id 4) = Inr (example_id 4)" by code_simp
  have j: "job_content (Terminal Skipped) None ''deploy'' =
      (St_Completed, Some (conclusion_of_outcome Skipped), ''Skipped'', ''job deploy: a dependency did not pass'')"
    by code_simp
  have "jr_run skipped_job = example_id 4" "jr_name skipped_job = ''deploy''" "jr_failure_class skipped_job = None"
    "decode_state (jr_state_code skipped_job) = Some (Terminal Skipped)"
    by (simp_all add: skipped_job_def decode_state_def)
  then show ?thesis
    using example_upserts [OF example_fits(2)] unfolding record_job_def example_found
    by (auto simp: example_facts t j)
qed

theorem recorded_job_is_told_witness:
  "\<exists>db' state cls. record_job example_env example_db (example_id 2) (example_id 5) 9 = Inr db'
     \<and> decode_state (jr_state_code skipped_job) = Some state
     \<and> check_says db' (jr_run skipped_job) (job_scope example_env (example_id 5))
         (job_content state cls (jr_name skipped_job))"
proof -
  obtain db' where r: "record_job example_env example_db (example_id 2) (example_id 5) 9 = Inr db'"
    using example_recorded by blast
  have "check_facts example_db (example_id 2) (jr_run skipped_job) = Inr (Some (example_id 3, replicate 40 (CHR ''0'')))"
    using example_facts by (simp add: skipped_job_def)
  from recorded_job_is_told [OF r example_found this] r show ?thesis by blast
qed

text \<open>What \<open>record_run\<close> writes for a job: the content of a queued one.\<close>

definition told_queued :: "db \<Rightarrow> uuid \<Rightarrow> string \<Rightarrow> bool" where
  "told_queued db run scope \<longleftrightarrow>
     list_ex (\<lambda>c. row_at (Some run) scope c \<and> ck_status c = ''queued'' \<and> ck_conclusion c = None) (db_checks db)"

lemma told_queued_iff:
  "told_queued db run scope \<longleftrightarrow>
     (\<exists>title summary. check_says db run scope (St_Queued, None, title, summary))"
  by (auto simp: told_queued_def check_says_iff says_def list_ex_iff)

lemma upsert_told_queued:
  assumes "upsert env db (run_draft env tenant run facts scope' name (St_Queued, None, title, summary)) now = Inr db'"
  shows "told_queued db' run scope'" "told_queued db run scope \<Longrightarrow> told_queued db' run scope"
proof -
  note w = upsert_says [OF assms, of run, simplified run_draft_def, simplified]
  show q: "told_queued db' run scope'" using w(1) unfolding told_queued_iff by blast
  show "told_queued db' run scope" if "told_queued db run scope"
    using that q w(2) unfolding told_queued_iff by (cases "scope = scope'") blast+
qed

lemma record_queued_tells:
  assumes "record_queued env db tenant run facts rows now written = Inr (n, db')"
  shows "(\<forall>scope. told_queued db run scope \<longrightarrow> told_queued db' run scope)
    \<and> list_all (\<lambda>row. told_queued db' run (job_scope env (fst row))) rows"
  using assms
proof (induction rows arbitrary: db written)
  case (Cons row rows)
  obtain job name where row: "row = (job, name)" by (cases row)
  obtain db1 where u: "upsert env db (run_draft env tenant run facts (job_scope env job)
       (qualified_name name) (St_Queued, None, ''Queued'', ''job '' @ name @ '': waiting for a worker'')) now = Inr db1"
    and q: "record_queued env db1 tenant run facts rows now (Suc written) = Inr (n, db')"
    using Cons.prems unfolding row by (auto simp: res_bind_eq_Inr typed_eq_Inr job_content_def)
  from Cons.IH [OF q] upsert_told_queued [OF u] show ?case by (simp add: row)
qed simp

text \<open>
  Recording a run tells every one of its jobs queued, whatever the job's state: also the check of a
  job that has already ended, such as one its condition skipped, says queued and has no conclusion.
\<close>

theorem record_run_tells_queued:
  assumes "record_run env db tenant run now = Inr (n, db')" "check_facts db tenant run = Inr (Some facts)"
    "r \<in> set (db_jobs db)" "jr_run r = run" "jr_tenant r = tenant"
  shows "told_queued db' run (job_scope env (jr_id r))"
proof -
  let ?rows = "map (\<lambda>r. (jr_id r, jr_name r)) (sort_key jr_spec_index
      (filter (\<lambda>r. jr_run r = run \<and> jr_tenant r = tenant) (db_jobs db)))"
  obtain w db1 where q: "record_queued env db tenant run facts ?rows now 0 = Inr (w, db1)"
    and a: "record_aggregate env db1 tenant run facts now = Inr db'"
    using assms(1,2) by (auto simp: record_run_def res_bind_eq_Inr)
  have "(jr_id r, jr_name r) \<in> set ?rows" using assms(3-5) by auto
  with record_queued_tells [OF q] have "told_queued db1 run (job_scope env (jr_id r))"
    by (force simp: list_all_iff)
  then show ?thesis unfolding told_queued_iff using aggregate_says(2) [OF a] by blast
qed

theorem record_run_tells_queued_witness:
  "decode_state (jr_state_code skipped_job) = Some (Terminal Skipped)
   \<and> (\<exists>n db'. record_run example_env example_db (example_id 2) (example_id 4) 9 = Inr (n, db')
       \<and> told_queued db' (example_id 4) (job_scope example_env (example_id 5)))"
proof -
  have t: "typed ''job_id'' (example_id 5) = Inr (example_id 5)" by code_simp
  have j: "job_content Queued None ''deploy'' = (St_Queued, None, ''Queued'', ''job deploy: waiting for a worker'')"
    by code_simp
  have r: "filter (\<lambda>r. jr_run r = example_id 4 \<and> jr_tenant r = example_id 2) (db_jobs example_db) = [skipped_job]"
    "jr_id skipped_job = example_id 5" "jr_name skipped_job = ''deploy''" "jr_run skipped_job = example_id 4"
    "jr_tenant skipped_job = example_id 2" "skipped_job \<in> set (db_jobs example_db)"
    "decode_state (jr_state_code skipped_job) = Some (Terminal Skipped)"
    by (simp_all add: example_db_def skipped_job_def decode_state_def)
  have "\<exists>n db'. record_run example_env example_db (example_id 2) (example_id 4) 9 = Inr (n, db')"
    using example_upserts [OF example_fits(1)] unfolding record_run_def
    by (auto simp: example_facts Let_def r t j)
  then obtain n db' where run: "record_run example_env example_db (example_id 2) (example_id 4) 9 = Inr (n, db')" by blast
  from record_run_tells_queued [OF run example_facts r(6,4,5)] run r(2,7) show ?thesis by auto
qed

end
