(* ===== verification/Job_Store.thy ===== *)
theory Job_Store
  imports Checks_Outbox
begin

text \<open>
  \<open>crates/sentinel-store/src/jobs.rs\<close>: rows of the job table, read and moved through the life cycle of
  \<open>Core_State\<close>.

  \<open>transition\<close> reads a row, applies \<open>JobControl::apply\<close>, and writes the row back with a compare-and-set
  on state and fence; the checks of the job and of its run are recorded in the same transaction.
  \<open>lease\<close> moves a queued job to a worker under the next fence and inserts the attempt that holds the
  reservation.  The lemmas show that on rows with unique identifiers the compare-and-set never misses,
  that the panic branch is unreachable, and that a stored job is an instance of the life cycle:
  \<open>control_of\<close> maps a row to the state machine, and every transition of the table is one of its steps.
\<close>

subsection \<open>Inserting rows\<close>

definition insert_tenant :: "db \<Rightarrow> uuid \<Rightarrow> string \<Rightarrow> store_error + db" where
  "insert_tenant db tid slug =
     (if length tid \<noteq> 16 \<or> list_ex (\<lambda>t. tn_id t = tid \<or> tn_slug t = slug) (db_tenants db) then Inl SE_Sqlite
      else Inr (db\<lparr>db_tenants := db_tenants db @ [\<lparr>tn_id = tid, tn_slug = slug\<rparr>]\<rparr>))"

definition insert_repo :: "db \<Rightarrow> uuid \<Rightarrow> uuid \<Rightarrow> string \<Rightarrow> store_error + db" where
  "insert_repo db tenant rid name =
     (if length rid \<noteq> 16 \<or> \<not> list_ex (\<lambda>t. tn_id t = tenant) (db_tenants db)
         \<or> list_ex (\<lambda>r. rp_id r = rid \<or> rp_tenant r = tenant \<and> rp_name r = name) (db_repos db)
      then Inl SE_Sqlite
      else Inr (db\<lparr>db_repos := db_repos db @ [\<lparr>rp_id = rid, rp_tenant = tenant, rp_name = name\<rparr>]\<rparr>))"

text \<open>\<open>INSERT \<dots> SELECT\<close>: no matching parent row inserts nothing, which is \<open>NotFound\<close>.\<close>

definition insert_run :: "db \<Rightarrow> uuid \<Rightarrow> uuid \<Rightarrow> uuid \<Rightarrow> string \<Rightarrow> int \<Rightarrow> store_error + db" where
  "insert_run db tenant repo rid source_sha now =
     (if \<not> list_ex (\<lambda>r. rp_id r = repo \<and> rp_tenant r = tenant) (db_repos db) then Inl SE_NotFound
      else if length rid \<noteq> 16 \<or> list_ex (\<lambda>r. rn_id r = rid) (db_runs db) then Inl SE_Sqlite
      else Inr (db\<lparr>db_runs := db_runs db @
             [\<lparr>rn_id = rid, rn_tenant = tenant, rn_repo = repo, rn_source_sha = source_sha,
               rn_created_ms = now, rn_cancel_requested = False\<rparr>]\<rparr>))"

definition insert_job ::
    "db \<Rightarrow> uuid \<Rightarrow> uuid \<Rightarrow> uuid \<Rightarrow> string \<Rightarrow> int \<Rightarrow> int \<Rightarrow> store_error + db" where
  "insert_job db tenant run jid name priority created_seq =
     (case find (\<lambda>r. rn_id r = run \<and> rn_tenant r = tenant) (db_runs db) of
        None \<Rightarrow> Inl SE_NotFound
      | Some r \<Rightarrow>
          if length jid \<noteq> 16
             \<or> list_ex (\<lambda>j. jr_id j = jid \<or> jr_run j = run \<and> jr_name j = name) (db_jobs db)
          then Inl SE_Sqlite
          else Inr (db\<lparr>db_jobs := db_jobs db @
             [\<lparr>jr_id = jid, jr_tenant = tenant, jr_run = run, jr_name = name,
               jr_state_code = encode_state Blocked, jr_fence = fence_none, jr_priority = priority,
               jr_created_seq = created_seq, jr_cancel_requested = False, jr_failure_class = None,
               jr_stamps = ts_default, jr_spec_index = 0, jr_cpu_millis = 0, jr_memory_bytes = 0,
               jr_disk_bytes = 0, jr_timeout_ms = 0, jr_image_digest = None, jr_image_platform = None,
               jr_repo = Some (rn_repo r), jr_arch = None, jr_labels = [], jr_concurrency_group = None,
               jr_requires_secret_delivery = False, jr_runtime = 0, jr_image_name = None\<rparr>]\<rparr>))"

subsection \<open>Reading rows\<close>

record job_row =
  jw_state :: job_state
  jw_fence :: fence
  jw_cancel_requested :: bool
  jw_failure_class :: "failure_class option"
  jw_timestamps :: attempt_timestamps

definition decode_job :: "job_rec \<Rightarrow> store_error + job_row" where
  "decode_job r =
     res_bind (ok_or (SE_Corrupt ''state_code'') (decode_state (jr_state_code r))) (\<lambda>state.
     res_bind (case jr_failure_class r of
         None \<Rightarrow> Inr None
       | Some c \<Rightarrow> res_map Some (ok_or (SE_Corrupt ''failure_class'') (decode_failure c))) (\<lambda>cls.
     Inr \<lparr>jw_state = state, jw_fence = jr_fence r, jw_cancel_requested = jr_cancel_requested r,
          jw_failure_class = cls, jw_timestamps = jr_stamps r\<rparr>))"

abbreviation job_at :: "uuid \<Rightarrow> uuid \<Rightarrow> job_rec \<Rightarrow> bool" where
  "job_at tenant job \<equiv> \<lambda>r. jr_id r = job \<and> jr_tenant r = tenant"

definition read_job_row :: "db \<Rightarrow> uuid \<Rightarrow> uuid \<Rightarrow> store_error + job_row" where
  "read_job_row db tenant job =
     res_bind (ok_or SE_NotFound (find (job_at tenant job) (db_jobs db))) decode_job"

definition get_job :: "db \<Rightarrow> uuid \<Rightarrow> uuid \<Rightarrow> store_error + job_row" where
  "get_job db tenant job = read_job_row db tenant job"

definition for_run :: "db \<Rightarrow> uuid \<Rightarrow> uuid \<Rightarrow> store_error + (uuid \<times> job_row) list" where
  "for_run db tenant run =
     traverse_from 0 (\<lambda>_ r. res_bind (typed ''job id'' (jr_id r)) (\<lambda>jid. res_map (\<lambda>row. (jid, row)) (decode_job r)))
       (sort_key jr_spec_index (filter (\<lambda>r. jr_run r = run \<and> jr_tenant r = tenant) (db_jobs db)))"

subsection \<open>Transitions\<close>

definition failure_of_event :: "event \<Rightarrow> failure_class option" where
  "failure_of_event ev =
     (case ev of
        Ev_Failed cls \<Rightarrow> Some cls
      | Ev_LeaseExpired \<Rightarrow> Some FC_LeaseExpired
      | Ev_WorkerLost \<Rightarrow> Some FC_WorkerLost
      | Ev_Reconciled \<Rightarrow> Some FC_Reconciled
      | Ev_ConditionFailed \<Rightarrow> Some FC_Preparation
      | Ev_CancelBeforeStart \<Rightarrow> Some FC_Canceled
      | Ev_QueueTimedOut \<Rightarrow> Some FC_QueueTimeout
      | _ \<Rightarrow> None)"

text \<open>The six statements \<open>UPDATE_*\<close>: the column that is stamped is the one of the entered state.\<close>

definition job_moved :: "job_state \<Rightarrow> fence \<Rightarrow> failure_class option \<Rightarrow> int \<Rightarrow> job_rec \<Rightarrow> job_rec" where
  "job_moved nxt fence failure now r =
     r\<lparr>jr_state_code := encode_state nxt, jr_fence := fence,
       jr_failure_class := coalesce (map_option encode_failure failure) (jr_failure_class r),
       jr_stamps := ts_enter (jr_stamps r) nxt now\<rparr>"

definition transition_from ::
    "store_env \<Rightarrow> db \<Rightarrow> uuid \<Rightarrow> uuid \<Rightarrow> job_row \<Rightarrow> actor \<Rightarrow> event \<Rightarrow> int \<Rightarrow> store_error + job_state \<times> db" where
  "transition_from env db tenant job row actor ev now =
     (let (result, control) = job_apply \<lparr>jc_state = jw_state row, jc_fence = jw_fence row,
            jc_cancel_requested = jw_cancel_requested row\<rparr> actor ev
      in res_bind (map_err SE_Transition result) (\<lambda>nxt.
         if nxt = Blocked then Inl SE_WriterPanicked
         else
           let (changed, rows) = update_where
                 (\<lambda>r. job_at tenant job r \<and> jr_state_code r = encode_state (jw_state row) \<and> jr_fence r = jw_fence row)
                 (job_moved nxt (jc_fence control) (failure_of_event ev) now) (db_jobs db)
           in if changed \<noteq> 1 then Inl SE_Conflict
              else res_map (\<lambda>db. (nxt, db)) (record_job env (db\<lparr>db_jobs := rows\<rparr>) tenant job now)))"

definition transition ::
    "store_env \<Rightarrow> db \<Rightarrow> uuid \<Rightarrow> uuid \<Rightarrow> actor \<Rightarrow> event \<Rightarrow> int \<Rightarrow> store_error + job_state \<times> db" where
  "transition env db tenant job actor ev now =
     res_bind (read_job_row db tenant job) (\<lambda>row. transition_from env db tenant job row actor ev now)"

definition store_request_cancel :: "db \<Rightarrow> uuid \<Rightarrow> uuid \<Rightarrow> store_error + bool \<times> db" where
  "store_request_cancel db tenant job =
     (let (n, rows) = update_where (job_at tenant job) (\<lambda>r. r\<lparr>jr_cancel_requested := True\<rparr>) (db_jobs db)
      in if n = 0 then Inl SE_NotFound
         else res_bind (read_job_row (db\<lparr>db_jobs := rows\<rparr>) tenant job) (\<lambda>row.
           Inr (jw_state row = Blocked \<or> jw_state row = Queued, db\<lparr>db_jobs := rows\<rparr>)))"

subsection \<open>Leases\<close>

definition pick_ready :: "db \<Rightarrow> store_error + (uuid \<times> uuid) option" where
  "pick_ready db =
     (case sort_key jr_priority (sort_key jr_created_seq (filter (\<lambda>r. jr_state_code r = 1) (db_jobs db))) of
        [] \<Rightarrow> Inr None
      | r # _ \<Rightarrow>
          res_bind (typed ''tenant_id'' (jr_tenant r)) (\<lambda>t.
          res_bind (typed ''job_id'' (jr_id r)) (\<lambda>j. Inr (Some (t, j)))))"

record reservation =
  rv_cpu_millis :: int
  rv_memory_bytes :: int
  rv_disk_bytes :: int
  rv_repo :: "uuid option"

text \<open>The constraints of the attempt table an inserted row can break.\<close>

definition attempt_insertable :: "db \<Rightarrow> attempt_rec \<Rightarrow> bool" where
  "attempt_insertable db a \<longleftrightarrow>
     length (at_id a) = 16 \<and> length (at_worker a) = 16
     \<and> 0 \<le> at_cpu_millis a \<and> 0 \<le> at_memory_bytes a \<and> 0 \<le> at_disk_bytes a
     \<and> list_ex (job_at (at_tenant a) (at_job a)) (db_jobs db)
     \<and> \<not> list_ex (\<lambda>b. at_id b = at_id a \<or> at_job b = at_job a \<and> at_fence b = at_fence a) (db_attempts db)"

definition lease_reserved ::
    "store_env \<Rightarrow> db \<Rightarrow> uuid \<Rightarrow> uuid \<Rightarrow> uuid \<Rightarrow> reservation \<Rightarrow> int \<Rightarrow> int
     \<Rightarrow> store_error + (uuid \<times> fence) \<times> db" where
  "lease_reserved env db tenant job worker rsv lease_until now =
     res_bind (read_job_row db tenant job) (\<lambda>row.
     let fence = fence_next (jw_fence row) in
     res_bind (transition_from env db tenant job row Controller (Ev_Leased fence) now) (\<lambda>(_, db).
     let (attempt, db) = fresh_id env db;
         a = \<lparr>at_id = attempt, at_tenant = tenant, at_job = job, at_fence = fence, at_worker = worker,
              at_lease_until_ms = lease_until, at_cpu_millis = rv_cpu_millis rsv,
              at_memory_bytes = rv_memory_bytes rsv, at_disk_bytes = rv_disk_bytes rsv,
              at_offered_ms = now, at_acked_ms = None, at_released_ms = None, at_repo = rv_repo rsv,
              at_summary = None, at_log_state = 0\<rparr>
     in if \<not> attempt_insertable db a then Inl SE_Sqlite
        else Inr ((attempt, fence), db\<lparr>db_attempts := db_attempts db @ [a]\<rparr>)))"

definition lease ::
    "store_env \<Rightarrow> db \<Rightarrow> uuid \<Rightarrow> uuid \<Rightarrow> uuid \<Rightarrow> int \<Rightarrow> int \<Rightarrow> store_error + (uuid \<times> fence) \<times> db" where
  "lease env db tenant job worker lease_until now =
     res_bind (ok_or SE_NotFound (find (job_at tenant job) (db_jobs db))) (\<lambda>r.
     if jr_image_digest r = None \<or> jr_image_platform r = None then Inl SE_Unresolved
     else lease_reserved env db tenant job worker
       \<lparr>rv_cpu_millis = jr_cpu_millis r, rv_memory_bytes = jr_memory_bytes r,
        rv_disk_bytes = jr_disk_bytes r, rv_repo = jr_repo r\<rparr> lease_until now)"

definition job_run_state :: "db \<Rightarrow> uuid \<Rightarrow> uuid \<Rightarrow> store_error + run_state" where
  "job_run_state db tenant run = res_map aggregate (run_states db tenant run)"

subsection \<open>Frames\<close>

abbreviation jobs_ok :: "db \<Rightarrow> bool" where
  "jobs_ok db \<equiv> distinct (map jr_id (db_jobs db))"

definition only_checks :: "db \<Rightarrow> db \<Rightarrow> bool" where
  "only_checks db db' \<longleftrightarrow> (\<exists>n cs. db' = db\<lparr>db_drawn := n, db_checks := cs\<rparr>)"

lemma only_checks_trans: "only_checks a b \<Longrightarrow> only_checks b c \<Longrightarrow> only_checks a c"
  unfolding only_checks_def by (elim exE, hypsubst) (intro exI, simp)

lemma only_checks_refl: "only_checks a a"
  unfolding only_checks_def by (intro exI [of _ "db_drawn a"] exI [of _ "db_checks a"]) simp

lemma only_checksD:
  assumes "only_checks db db'"
  shows "db_jobs db' = db_jobs db" "db_runs db' = db_runs db" "db_specs db' = db_specs db"
    "db_attempts db' = db_attempts db" "db_repos db' = db_repos db" "db_provenance db' = db_provenance db"
    "db_bindings db' = db_bindings db" "db_workers db' = db_workers db"
  using assms by (auto simp: only_checks_def)

lemma upsert_frame: "upsert env db (run_draft env tenant run facts scope name content) now = Inr db' \<Longrightarrow> only_checks db db'"
  unfolding only_checks_def using upsert_says(3) by (fastforce simp: run_draft_def)

lemma record_aggregate_frame: "record_aggregate env db tenant run facts now = Inr db' \<Longrightarrow> only_checks db db'"
  by (auto simp: record_aggregate_def res_bind_eq_Inr intro: upsert_frame)

lemma record_job_frame:
  assumes "record_job env db tenant job now = Inr db'"
  shows "only_checks db db'"
proof -
  obtain r where r: "find (job_at tenant job) (db_jobs db) = Some r"
    using assms by (cases "find (job_at tenant job) (db_jobs db)") (auto simp: record_job_def)
  then have "res_bind (check_facts db tenant (jr_run r)) (\<lambda>facts. case facts of None \<Rightarrow> Inr db
      | Some facts \<Rightarrow> res_bind (ok_or (SE_Corrupt ''state_code'') (decode_state (jr_state_code r))) (\<lambda>state.
              res_bind (case jr_failure_class r of
                  None \<Rightarrow> Inr None
                | Some code \<Rightarrow> res_map Some (ok_or (SE_Corrupt ''failure_class'') (decode_failure code))) (\<lambda>cls.
              res_bind (upsert env db (run_draft env tenant (jr_run r) facts (job_scope env job)
                  (qualified_name (jr_name r)) (job_content state cls (jr_name r))) now) (\<lambda>db.
              record_aggregate env db tenant (jr_run r) facts now)))) = Inr db'"
    using assms by (auto simp: record_job_def res_bind_eq_Inr [of "typed _ _"] typed_eq_Inr)
  then show ?thesis
    by (auto simp: res_bind_eq_Inr only_checks_refl split: option.splits
        intro: only_checks_trans [OF upsert_frame record_aggregate_frame])
qed

lemma upsert_error: "upsert env db d now = Inl e \<Longrightarrow> e = SE_Sqlite"
  by (auto simp: upsert_def Let_def split: if_splits option.splits prod.splits)

lemma traverse_from_Inl: "traverse_from i f xs = Inl e \<Longrightarrow> \<exists>j x. x \<in> set xs \<and> f j x = Inl e"
  by (induction xs arbitrary: i) (fastforce simp: res_bind_eq_Inl)+

definition is_corrupt :: "store_error \<Rightarrow> bool" where
  "is_corrupt e \<longleftrightarrow> (case e of SE_Corrupt _ \<Rightarrow> True | _ \<Rightarrow> False)"

lemma typed_error: "typed what b = Inl e \<Longrightarrow> is_corrupt e"
  by (auto simp: typed_def map_err_def is_corrupt_def split: sum.splits)

lemma run_states_error: "run_states db tenant run = Inl e \<Longrightarrow> is_corrupt e"
  by (auto simp: run_states_def ok_or_eq_Inl is_corrupt_def dest!: traverse_from_Inl)

lemma record_aggregate_error: "record_aggregate env db tenant run facts now = Inl e \<Longrightarrow> e = SE_Sqlite \<or> is_corrupt e"
  by (auto simp: record_aggregate_def res_bind_eq_Inl aggregate_content_def is_corrupt_def [of "SE_Corrupt _"]
      dest: run_states_error upsert_error split: if_splits)

lemma check_facts_error: "check_facts db tenant run = Inl e \<Longrightarrow> is_corrupt e"
  by (auto simp: check_facts_def Let_def res_map_def split: option.splits if_splits sum.splits dest: typed_error)

lemma record_job_error:
  assumes "record_job env db tenant job now = Inl e"
  shows "e = SE_Sqlite \<or> is_corrupt e"
proof (cases "find (job_at tenant job) (db_jobs db)")
  case None
  then show ?thesis using assms by (auto simp: record_job_def is_corrupt_def)
next
  case (Some r)
  have c: "is_corrupt (SE_Corrupt what)" for what by (simp add: is_corrupt_def)
  have cls: "res_map Some (ok_or (SE_Corrupt what) x) = Inl e \<Longrightarrow> is_corrupt e" for what e and x :: "'a option"
    by (cases x) (auto simp: c)
  show ?thesis
    using assms unfolding record_job_def Some option.case res_bind_eq_Inl ok_or_eq_Inl
    by (elim disjE exE conjE)
      (auto simp: res_bind_eq_Inl ok_or_eq_Inl c split: option.splits
        dest: typed_error check_facts_error record_aggregate_error upsert_error cls)
qed

subsection \<open>The compare-and-set\<close>

definition control_of :: "job_row \<Rightarrow> job_control" where
  "control_of row = \<lparr>jc_state = jw_state row, jc_fence = jw_fence row, jc_cancel_requested = jw_cancel_requested row\<rparr>"

lemma find_job:
  assumes "jobs_ok db" "r \<in> set (db_jobs db)" "job_at tenant job r"
  shows "find (job_at tenant job) (db_jobs db) = Some r"
  using assms by (intro find_keyed [of jr_id]) auto

lemma decode_job_eq_Inr:
  "decode_job r = Inr row \<longleftrightarrow>
     jr_state_code r = encode_state (jw_state row) \<and> jw_fence row = jr_fence r
     \<and> jw_cancel_requested row = jr_cancel_requested r
     \<and> jr_failure_class r = map_option encode_failure (jw_failure_class row) \<and> jw_timestamps row = jr_stamps r"
proof -
  have "map_option decode_failure c = map_option Some f \<longleftrightarrow> c = map_option encode_failure f" for c f
    by (cases c; cases f) (auto simp: failure_code.code_iff [symmetric])
  then show ?thesis
    by (cases row) (auto simp: decode_job_def res_bind_eq_Inr ok_or_eq_Inr failure_column state_code.code_iff)
qed

lemma apply_never_blocks: "job_apply c a ev = (Inr s, c') \<Longrightarrow> s \<noteq> Blocked"
  using job_apply_step [of c a ev s c'] job_apply_ok [of c a ev s c'] by (auto elim: job_step.cases)

text \<open>On unique identifiers the row that was read is the one that is written.\<close>

lemma transition_eq:
  assumes "jobs_ok db" "r \<in> set (db_jobs db)" "job_at tenant job r" "decode_job r = Inr row"
  shows "transition env db tenant job a ev now =
    (case job_apply (control_of row) a ev of
       (Inl e, _) \<Rightarrow> Inl (SE_Transition e)
     | (Inr s, c) \<Rightarrow> res_map (\<lambda>db. (s, db)) (record_job env
         (db\<lparr>db_jobs := map (\<lambda>x. if jr_id x = job then job_moved s (jc_fence c) (failure_of_event ev) now x else x) (db_jobs db)\<rparr>)
         tenant job now))"
proof -
  let ?P = "\<lambda>x. job_at tenant job x \<and> jr_state_code x = encode_state (jw_state row) \<and> jr_fence x = jw_fence row"
  have P: "?P x \<longleftrightarrow> jr_id x = job" if "x \<in> set (db_jobs db)" for x
  proof
    assume "jr_id x = job"
    then have "x = r" using keyed_inj [OF assms(1) that assms(2)] assms(3) by simp
    then show "?P x" using assms(3,4) by (simp add: decode_job_eq_Inr)
  qed simp
  then have f: "filter ?P (db_jobs db) = filter (\<lambda>x. jr_id x = job) (db_jobs db)" by (auto intro: filter_cong)
  have one: "length (filter ?P (db_jobs db)) = 1"
    unfolding f using filter_keyed [OF assms(1,2), of "\<lambda>x. jr_id x = job"] assms(3) by simp
  have rows: "map (\<lambda>x. if ?P x then g x else x) (db_jobs db) = map (\<lambda>x. if jr_id x = job then g x else x) (db_jobs db)" for g
    using P by (auto intro: map_cong)
  obtain res c where ap: "job_apply (control_of row) a ev = (res, c)" by (cases "job_apply (control_of row) a ev")
  have "transition env db tenant job a ev now = transition_from env db tenant job row a ev now"
    using find_job [OF assms(1-3)] assms(4) by (simp add: transition_def read_job_row_def)
  also have "\<dots> = (case res of Inl e \<Rightarrow> Inl (SE_Transition e)
     | Inr s \<Rightarrow> res_map (\<lambda>db. (s, db)) (record_job env
         (db\<lparr>db_jobs := map (\<lambda>x. if jr_id x = job then job_moved s (jc_fence c) (failure_of_event ev) now x else x) (db_jobs db)\<rparr>)
         tenant job now))"
    using ap apply_never_blocks [of "control_of row" a ev]
    unfolding transition_from_def control_of_def update_where_def one rows
    by (cases res) (simp_all add: Let_def map_err_def)
  finally show ?thesis using ap by (simp split: sum.splits)
qed
definition row_moved :: "job_state \<Rightarrow> fence \<Rightarrow> failure_class option \<Rightarrow> int \<Rightarrow> job_row \<Rightarrow> job_row" where
  "row_moved s f failure now row =
     row\<lparr>jw_state := s, jw_fence := f, jw_failure_class := coalesce failure (jw_failure_class row),
         jw_timestamps := ts_enter (jw_timestamps row) s now\<rparr>"

lemma decode_job_moved:
  "decode_job r = Inr row \<Longrightarrow> decode_job (job_moved s f failure now r) = Inr (row_moved s f failure now row)"
  by (auto simp: decode_job_eq_Inr job_moved_def row_moved_def coalesce_def split: option.splits)

lemma job_moved_key [simp]:
  "jr_id (job_moved s f failure now r) = jr_id r" "jr_tenant (job_moved s f failure now r) = jr_tenant r"
  "jr_run (job_moved s f failure now r) = jr_run r" "jr_spec_index (job_moved s f failure now r) = jr_spec_index r"
  "jr_name (job_moved s f failure now r) = jr_name r"
  "jr_cancel_requested (job_moved s f failure now r) = jr_cancel_requested r"
  by (simp_all add: job_moved_def)

lemma row_moved_simps [simp]:
  "jw_state (row_moved s f failure now row) = s" "jw_fence (row_moved s f failure now row) = f"
  "jw_cancel_requested (row_moved s f failure now row) = jw_cancel_requested row"
  "jw_timestamps (row_moved s f failure now row) = ts_enter (jw_timestamps row) s now"
  by (simp_all add: row_moved_def)

lemma jobs_ok_moved:
  "jobs_ok db \<Longrightarrow> distinct (map jr_id (map (\<lambda>x. if jr_id x = job then job_moved s f failure now x else x) (db_jobs db)))"
  by (simp add: comp_def if_distrib cong: if_cong)

lemma filter_moved:
  "filter (\<lambda>x. jr_id x \<noteq> job) (map (\<lambda>x. if jr_id x = job then job_moved s f failure now x else x) rows)
     = filter (\<lambda>x. jr_id x \<noteq> job) rows"
  by (induction rows) auto

text \<open>What a successful transition did.\<close>

lemma transition_cases:
  assumes "transition env db tenant job a ev now = Inr (s, db')" "jobs_ok db"
  obtains r row c where "r \<in> set (db_jobs db)" "job_at tenant job r" "decode_job r = Inr row"
    "job_apply (control_of row) a ev = (Inr s, c)" "job_step (control_of row) a ev c"
    "only_checks (db\<lparr>db_jobs := map (\<lambda>x. if jr_id x = job
        then job_moved s (jc_fence c) (failure_of_event ev) now x else x) (db_jobs db)\<rparr>) db'"
proof -
  obtain r row where f: "find (job_at tenant job) (db_jobs db) = Some r" and row: "decode_job r = Inr row"
    using assms(1) by (auto simp: transition_def read_job_row_def res_bind_eq_Inr ok_or_eq_Inr)
  have r: "r \<in> set (db_jobs db)" "job_at tenant job r" using find_SomeD [OF f] by auto
  obtain res c where ap: "job_apply (control_of row) a ev = (res, c)" by (cases "job_apply (control_of row) a ev")
  note eq = transition_eq [OF assms(2) r row, of env a ev now]
  have "res = Inr s \<and> record_job env (db\<lparr>db_jobs := map (\<lambda>x. if jr_id x = job
        then job_moved s (jc_fence c) (failure_of_event ev) now x else x) (db_jobs db)\<rparr>) tenant job now = Inr db'"
    using eq assms(1) ap by (cases res) (auto simp: res_map_def split: sum.splits)
  then show ?thesis using that r row ap job_apply_step record_job_frame by blast
qed

lemma read_moved:
  assumes "jobs_ok db" "r \<in> set (db_jobs db)" "job_at tenant job r" "decode_job r = Inr row"
    "only_checks (db\<lparr>db_jobs := map (\<lambda>x. if jr_id x = job then job_moved s f failure now x else x) (db_jobs db)\<rparr>) db'"
  shows "jobs_ok db'" "read_job_row db' tenant job = Inr (row_moved s f failure now row)"
    "filter (\<lambda>x. jr_id x \<noteq> job) (db_jobs db') = filter (\<lambda>x. jr_id x \<noteq> job) (db_jobs db)"
proof -
  have jobs: "db_jobs db' = map (\<lambda>x. if jr_id x = job then job_moved s f failure now x else x) (db_jobs db)"
    using only_checksD(1) [OF assms(5)] by simp
  show ok: "jobs_ok db'" unfolding jobs by (rule jobs_ok_moved [OF assms(1)])
  have "job_moved s f failure now r \<in> set (db_jobs db')"
    unfolding jobs using assms(2,3) by (auto intro: rev_image_eqI)
  then show "read_job_row db' tenant job = Inr (row_moved s f failure now row)"
    using find_job [OF ok, of _ job tenant] assms(3) decode_job_moved [OF assms(4)] by (simp add: read_job_row_def)
  show "filter (\<lambda>x. jr_id x \<noteq> job) (db_jobs db') = filter (\<lambda>x. jr_id x \<noteq> job) (db_jobs db)"
    unfolding jobs by (rule filter_moved)
qed

subsection \<open>Properties\<close>

definition one_job :: "job_state \<Rightarrow> db" where
  "one_job s = no_rows\<lparr>db_jobs := [skipped_job\<lparr>jr_state_code := encode_state s\<rparr>]\<rparr>"

text \<open>
  C5: the job table implements the life cycle.  A successful transition is one step of the state machine
  on the row's state, fence and cancellation flag; it returns the new state, stamps the entered state once,
  keeps or sets the failure class, and leaves every other job as it was.
\<close>

theorem stored_transition_is_a_step:
  assumes "transition env db tenant job a ev now = Inr (s, db')" "jobs_ok db"
  shows "\<exists>row row'. read_job_row db tenant job = Inr row \<and> read_job_row db' tenant job = Inr row'
    \<and> job_step (control_of row) a ev (control_of row') \<and> jw_state row' = s
    \<and> jw_timestamps row' = ts_enter (jw_timestamps row) s now
    \<and> jw_failure_class row' = coalesce (failure_of_event ev) (jw_failure_class row)
    \<and> filter (\<lambda>x. jr_id x \<noteq> job) (db_jobs db') = filter (\<lambda>x. jr_id x \<noteq> job) (db_jobs db) \<and> jobs_ok db'"
proof (rule transition_cases [OF assms])
  fix r row c
  assume r: "r \<in> set (db_jobs db)" "job_at tenant job r" "decode_job r = Inr row"
    and ap: "job_apply (control_of row) a ev = (Inr s, c)" and step: "job_step (control_of row) a ev c"
    and db': "only_checks (db\<lparr>db_jobs := map (\<lambda>x. if jr_id x = job
        then job_moved s (jc_fence c) (failure_of_event ev) now x else x) (db_jobs db)\<rparr>) db'"
  let ?row = "row_moved s (jc_fence c) (failure_of_event ev) now row"
  have "control_of ?row = c" using job_apply_ok [OF ap] by (simp add: control_of_def row_moved_def)
  moreover have "read_job_row db tenant job = Inr row"
    using find_job [OF assms(2) r(1,2)] r(3) by (simp add: read_job_row_def)
  ultimately show ?thesis
    using read_moved [OF assms(2) r db'] step by (intro exI [of _ row] exI [of _ ?row]) (simp add: row_moved_def)
qed

lemma one_job_reads: "read_job_row (one_job s) (example_id 2) (example_id 5) =
    Inr \<lparr>jw_state = s, jw_fence = 0, jw_cancel_requested = False, jw_failure_class = None, jw_timestamps = ts_default\<rparr>"
  by (simp add: one_job_def read_job_row_def skipped_job_def decode_job_def state_code.code_round_trip)

lemma one_job_transitions:
  assumes "job_apply \<lparr>jc_state = s, jc_fence = 0, jc_cancel_requested = False\<rparr> a ev = (Inr s', c)"
  shows "\<exists>db'. transition env (one_job s) (example_id 2) (example_id 5) a ev now = Inr (s', db')"
proof -
  have t: "typed ''run_id'' (example_id 4) = Inr (example_id 4)" by code_simp
  have "check_facts (no_rows\<lparr>db_jobs := x\<rparr>) tenant run = Inr None" for x tenant run
    by (simp add: check_facts_def no_rows_def)
  moreover have "s' \<noteq> Blocked" using apply_never_blocks [OF assms] .
  ultimately show ?thesis
    unfolding transition_def one_job_reads transition_from_def
    by (simp add: assms Let_def update_where_def one_job_def record_job_def t map_err_def) (simp add: skipped_job_def t)
qed

theorem stored_transition_is_a_step_witness:
  "\<exists>db' row. transition example_env (one_job Blocked) (example_id 2) (example_id 5) Controller Ev_DependenciesSatisfied 9
     = Inr (Queued, db') \<and> read_job_row db' (example_id 2) (example_id 5) = Inr row \<and> jw_state row = Queued"
proof -
  have "job_apply \<lparr>jc_state = Blocked, jc_fence = 0, jc_cancel_requested = False\<rparr> Controller Ev_DependenciesSatisfied
     = (Inr Queued, \<lparr>jc_state = Queued, jc_fence = 0, jc_cancel_requested = False\<rparr>)" by code_simp
  then obtain db' where t: "transition example_env (one_job Blocked) (example_id 2) (example_id 5) Controller
      Ev_DependenciesSatisfied 9 = Inr (Queued, db')" using one_job_transitions by blast
  have "jobs_ok (one_job Blocked)" by (simp add: one_job_def)
  from stored_transition_is_a_step [OF t this] t show ?thesis by blast
qed

text \<open>
  C39: a transition of the job table fails only as the life cycle does, or on a missing job, a corrupt
  row or a rejected check: its compare-and-set never loses a race inside the transaction, and the branch
  that panics is never taken.
\<close>

theorem transition_error_causes:
  assumes "jobs_ok db" "transition env db tenant job a ev now = Inl e"
  shows "e = SE_Sqlite \<or> is_corrupt e
    \<or> e = SE_NotFound \<and> find (job_at tenant job) (db_jobs db) = None
    \<or> (\<exists>row t. read_job_row db tenant job = Inr row \<and> fst (job_apply (control_of row) a ev) = Inl t \<and> e = SE_Transition t)"
proof (cases "find (job_at tenant job) (db_jobs db)")
  case None
  then show ?thesis using assms(2) by (simp add: transition_def read_job_row_def)
next
  case (Some r)
  have r: "r \<in> set (db_jobs db)" "job_at tenant job r" using find_SomeD [OF Some] by auto
  show ?thesis
  proof (cases "decode_job r")
    case (Inl e')
    then have "is_corrupt e'"
      by (auto simp: decode_job_def res_bind_eq_Inl ok_or_eq_Inl is_corrupt_def res_map_def split: option.splits sum.splits)
    then show ?thesis using assms(2) Some Inl by (simp add: transition_def read_job_row_def)
  next
    case (Inr row)
    have rd: "read_job_row db tenant job = Inr row" using Some Inr by (simp add: read_job_row_def)
    obtain res c where ap: "job_apply (control_of row) a ev = (res, c)" by (cases "job_apply (control_of row) a ev")
    show ?thesis
      using transition_eq [OF assms(1) r Inr, of env a ev now] assms(2) ap rd
      by (cases res) (auto simp: res_map_def split: sum.splits dest!: record_job_error)
  qed
qed

theorem transition_error_causes_witness:
  "transition example_env (one_job Queued) (example_id 2) (example_id 5) Controller Ev_DependenciesSatisfied 9
     = Inl (SE_Transition (Invalid Queued Ev_DependenciesSatisfied))
   \<and> \<not> is_corrupt (SE_Transition (Invalid Queued Ev_DependenciesSatisfied))
   \<and> find (job_at (example_id 2) (example_id 5)) (db_jobs (one_job Queued)) \<noteq> None"
proof -
  have "job_apply \<lparr>jc_state = Queued, jc_fence = 0, jc_cancel_requested = False\<rparr> Controller Ev_DependenciesSatisfied
     = (Inl (Invalid Queued Ev_DependenciesSatisfied), \<lparr>jc_state = Queued, jc_fence = 0, jc_cancel_requested = False\<rparr>)"
    by code_simp
  then have e: "transition example_env (one_job Queued) (example_id 2) (example_id 5) Controller Ev_DependenciesSatisfied 9
     = Inl (SE_Transition (Invalid Queued Ev_DependenciesSatisfied))"
    by (simp add: transition_def one_job_reads transition_from_def map_err_def)
  have "jobs_ok (one_job Queued)" by (simp add: one_job_def)
  from transition_error_causes [OF this e] e show ?thesis
    by (auto simp: is_corrupt_def one_job_def skipped_job_def)
qed

lemma sort_two_keys_first:
  fixes f g :: "'a \<Rightarrow> int"
  assumes "sort_key f (sort_key g xs) = r # rest"
  shows "r \<in> set xs" "x \<in> set xs \<Longrightarrow> f r < f x \<or> f r = f x \<and> g r \<le> g x"
proof -
  have set: "set xs = set (r # rest)" using assms by (metis set_sort)
  then show "r \<in> set xs" by simp
  assume x: "x \<in> set xs"
  have "sorted (map f (r # rest))" using assms by (metis sorted_sort_key)
  then have "f r \<le> f x" using x set by auto
  moreover have "g r \<le> g x" if "f x = f r"
  proof -
    let ?P = "\<lambda>y. f y = f r"
    have "filter ?P (sort_key g xs) = filter ?P (r # rest)" using sort_key_stable [of f "f r"] assms by metis
    moreover have "sorted (map g (filter ?P (sort_key g xs)))" by (rule sorted_filter) simp
    ultimately have "sorted (map g (r # filter ?P rest))" by simp
    moreover have "x = r \<or> x \<in> set (filter ?P rest)" using x set that by auto
    ultimately show ?thesis by auto
  qed
  ultimately show "f r < f x \<or> f r = f x \<and> g r \<le> g x" by auto
qed

text \<open>
  The ready queue hands out a queued job that no other queued job precedes in priority and, at
  the same priority, in creation; it is empty exactly when no job is queued.
\<close>

theorem pick_ready_takes_the_first:
  "(pick_ready db = Inr None \<longleftrightarrow> (\<forall>r\<in>set (db_jobs db). decode_state (jr_state_code r) \<noteq> Some Queued))
   \<and> (pick_ready db = Inr (Some (tenant, job)) \<longrightarrow>
       (\<exists>r\<in>set (db_jobs db). job_at tenant job r \<and> decode_state (jr_state_code r) = Some Queued
         \<and> (\<forall>x\<in>set (db_jobs db). decode_state (jr_state_code x) = Some Queued \<longrightarrow>
              jr_priority r < jr_priority x
              \<or> jr_priority r = jr_priority x \<and> jr_created_seq r \<le> jr_created_seq x)))"
proof -
  let ?rows = "sort_key jr_priority (sort_key jr_created_seq (filter (\<lambda>r. jr_state_code r = 1) (db_jobs db)))"
  have q: "decode_state c = Some Queued \<longleftrightarrow> c = 1" for c by (simp add: state_code.code_iff)
  show ?thesis
  proof (cases ?rows)
    case Nil
    then have "filter (\<lambda>r. jr_state_code r = 1) (db_jobs db) = []" by (metis set_empty set_sort)
    with Nil show ?thesis by (auto simp: pick_ready_def q filter_empty_conv)
  next
    case (Cons r rest)
    note first = sort_two_keys_first [OF Cons]
    have "r \<in> set (db_jobs db)" "jr_state_code r = 1" using first(1) by auto
    moreover have "jr_priority r < jr_priority x \<or> jr_priority r = jr_priority x \<and> jr_created_seq r \<le> jr_created_seq x"
      if "x \<in> set (db_jobs db)" "jr_state_code x = 1" for x using first(2) [of x] that by simp
    ultimately show ?thesis
      by (auto simp: pick_ready_def Cons q res_bind_eq_Inr typed_eq_Inr intro!: bexI [of _ r])
  qed
qed

theorem pick_ready_takes_the_first_witness:
  "pick_ready (one_job Queued) = Inr (Some (example_id 2, example_id 5))
   \<and> (\<exists>r\<in>set (db_jobs (one_job Queued)). job_at (example_id 2) (example_id 5) r)"
proof -
  have "typed ''tenant_id'' (example_id 2) = Inr (example_id 2)" "typed ''job_id'' (example_id 5) = Inr (example_id 5)"
    by code_simp+
  then have "pick_ready (one_job Queued) = Inr (Some (example_id 2, example_id 5))"
    by (simp add: pick_ready_def one_job_def) (simp add: skipped_job_def)
  with pick_ready_takes_the_first [of "one_job Queued" "example_id 2" "example_id 5"] show ?thesis by blast
qed

end
