(* ===== verification/Scheduler.thy ===== *)
theory Scheduler
  imports Job_Store
begin

text \<open>
  The scheduler of \<open>crates/sentinel-store\<close>: which blocked jobs of a run start, end or keep waiting when
  another job has ended (\<open>release_dependents\<close> of \<open>src/dispatch.rs\<close>), on the stored specification and
  states of the run (\<open>get_run_spec\<close> and \<open>run_jobs\<close> of \<open>src/runs.rs\<close>) and the event that caused it
  (\<open>event_facts\<close> of \<open>src/provenance.rs\<close>).

  The jobs of a run are in the order of the compiled pipeline, where dependencies come first, and the
  loop decides them in that order on a vector of states it keeps in step with the table.  The loop's
  variables are the record \<open>release_state\<close>.  The lemmas carry one invariant through the loop,
  \<open>release_inv\<close>; from it come that the vector mirrors the table, that a job starts only when all its
  needs have ended, and that a job stays blocked only behind one that has not.
\<close>

subsection \<open>Reading a run\<close>

abbreviation rows_of_run :: "db \<Rightarrow> uuid \<Rightarrow> uuid \<Rightarrow> job_rec list" where
  "rows_of_run db tenant run \<equiv>
     sort_key jr_spec_index (filter (\<lambda>r. jr_run r = run \<and> jr_tenant r = tenant) (db_jobs db))"

definition run_job :: "job_rec \<Rightarrow> store_error + uuid \<times> job_state" where
  "run_job r =
     res_bind (typed ''job_id'' (jr_id r)) (\<lambda>jid.
     res_bind (ok_or (SE_Corrupt ''state_code'') (decode_state (jr_state_code r))) (\<lambda>state.
     Inr (jid, state)))"

definition run_jobs :: "db \<Rightarrow> uuid \<Rightarrow> uuid \<Rightarrow> store_error + (uuid \<times> job_state) list" where
  "run_jobs db tenant run = traverse_from 0 (\<lambda>_. run_job) (rows_of_run db tenant run)"

definition get_run_spec :: "store_env \<Rightarrow> db \<Rightarrow> uuid \<Rightarrow> uuid \<Rightarrow> store_error + run_spec" where
  "get_run_spec env db tenant run =
     res_bind (ok_or SE_NotFound (find (\<lambda>s. sr_run s = run \<and> sr_tenant s = tenant) (db_specs db))) (\<lambda>s.
     if \<not> (uint SPEC_FORMAT_READ_MIN \<le> sr_format s \<and> sr_format s \<le> uint SPEC_FORMAT)
     then Inl (SE_Corrupt ''run_specs.format'')
     else map_err (\<lambda>_. SE_Corrupt ''run_specs.spec'') (spec_decode (env_codec env) (sr_spec s)))"

subsection \<open>Event facts\<close>

definition event_facts_of :: "string \<Rightarrow> string option \<Rightarrow> u64 option \<Rightarrow> event_facts" where
  "event_facts_of trigger ref_name pr_number =
     (let ref_name = (case ref_name of Some r \<Rightarrow> r | None \<Rightarrow> []);
          short = (case strip_prefix ''refs/heads/'' ref_name of
              Some s \<Rightarrow> Some s | None \<Rightarrow> strip_prefix ''refs/tags/'' ref_name)
      in if trigger = ''pull_request'' then
           \<lparr>ev_name = trigger,
            ev_ref_name = (case pr_number of
                Some n \<Rightarrow> ''refs/pull/'' @ dec_nat (unat n) @ ''/merge''
              | None \<Rightarrow> ''refs/pull/unknown/merge''),
            ev_base_ref = short, ev_pr_number = pr_number,
            ev_key = (case pr_number of Some n \<Rightarrow> ''pr-'' @ dec_nat (unat n) | None \<Rightarrow> ''pr'')\<rparr>
         else
           \<lparr>ev_name = trigger, ev_ref_name = ref_name, ev_base_ref = None, ev_pr_number = None,
            ev_key = (case short of Some s \<Rightarrow> s | None \<Rightarrow> trigger)\<rparr>)"

definition event_facts_for :: "db \<Rightarrow> uuid \<Rightarrow> event_facts" where
  "event_facts_for db run =
     (case find (\<lambda>p. pv_run p = run) (db_provenance db) of
        Some p \<Rightarrow> event_facts_of (pv_trigger p) (pv_ref_name p)
          (Option.bind (pv_pr_number p) (\<lambda>n. if 0 \<le> n then Some (of_int n) else None))
      | None \<Rightarrow> event_facts_of ''manual'' None None)"

definition run_facts_for :: "store_env \<Rightarrow> db \<Rightarrow> uuid \<Rightarrow> uuid \<Rightarrow> store_error + run_facts" where
  "run_facts_for env db tenant run =
     (case find (\<lambda>r. rn_id r = run \<and> rn_tenant r = tenant) (db_runs db) of
        None \<Rightarrow> Inl SE_NotFound
      | Some r \<Rightarrow>
          (case find (\<lambda>p. rp_id p = rn_repo r \<and> rp_tenant p = rn_tenant r) (db_repos db) of
             None \<Rightarrow> Inl SE_NotFound
           | Some p \<Rightarrow>
               res_bind (typed ''repo_id'' (rn_repo r)) (\<lambda>repo.
               Inr \<lparr>fa_repo = id_display (env_uuid_text env) RepoId repo, fa_repo_name = rp_name p,
                    fa_cancelled = rn_cancel_requested r, fa_event = event_facts_for db run\<rparr>)))"

subsection \<open>Failures behind a skip\<close>

text \<open>A job skipped because of a failed need counts as failed for its own dependents.\<close>

definition effective_state :: "(uuid \<times> job_state) list \<Rightarrow> bool list \<Rightarrow> nat \<Rightarrow> job_state" where
  "effective_state states by_failure index =
     (if by_failure ! index then Terminal Failed else snd (states ! index))"

definition unsuccessful :: "job_state \<Rightarrow> bool" where
  "unsuccessful s = (case s of Terminal out \<Rightarrow> \<not> is_success out | _ \<Rightarrow> False)"

fun skip_cause :: "(uuid \<times> job_state) list \<Rightarrow> bool list \<Rightarrow> nat \<Rightarrow> nat list \<Rightarrow> bool \<Rightarrow> store_error + bool" where
  "skip_cause states blocked index [] by_failure = Inr by_failure"
| "skip_cause states blocked index (need # needs) by_failure =
     (if need \<ge> index then Inl (SE_Corrupt ''run_specs.spec'')
      else skip_cause states blocked index needs
        (by_failure \<or> blocked ! need \<or> unsuccessful (snd (states ! need))))"

fun failure_skips_from ::
    "(uuid \<times> job_state) list \<Rightarrow> run_spec \<Rightarrow> nat list \<Rightarrow> bool list \<Rightarrow> store_error + bool list" where
  "failure_skips_from states spec [] blocked = Inr blocked"
| "failure_skips_from states spec (index # rest) blocked =
     (if snd (states ! index) \<noteq> Terminal Skipped then failure_skips_from states spec rest blocked
      else if index \<ge> length (cp_jobs (sp_pipeline spec)) then Inl (SE_Corrupt ''run_specs.spec'')
      else res_bind (skip_cause states blocked index (cj_needs (cp_jobs (sp_pipeline spec) ! index)) False)
        (\<lambda>by_failure. failure_skips_from states spec rest (blocked[index := by_failure])))"

definition failure_skips :: "(uuid \<times> job_state) list \<Rightarrow> run_spec \<Rightarrow> store_error + bool list" where
  "failure_skips states spec =
     failure_skips_from states spec [0..<length states] (replicate (length states) False)"

subsection \<open>Deciding one job\<close>

fun needs_decision :: "(nat \<Rightarrow> job_state) \<Rightarrow> nat list \<Rightarrow> bool option" where
  "needs_decision effective [] = Some True"
| "needs_decision effective (need # needs) =
     (case dependency_decision OnSuccess (effective need) of
        Some True \<Rightarrow> needs_decision effective needs
      | Some False \<Rightarrow> Some False
      | None \<Rightarrow> None)"

text \<open>\<open>None\<close> while a need has not ended.\<close>

fun needs_results ::
    "(uuid \<times> job_state) list \<Rightarrow> bool list \<Rightarrow> compiled_job list \<Rightarrow> nat list \<Rightarrow> dependency_summary
     \<Rightarrow> (string \<times> outcome) list \<Rightarrow> store_error + (dependency_summary \<times> (string \<times> outcome) list) option" where
  "needs_results states by_failure jobs [] summary results = Inr (Some (summary, results))"
| "needs_results states by_failure jobs (need # needs) summary results =
     (case effective_state states by_failure need of
        Terminal counted \<Rightarrow>
          (case snd (states ! need) of
             Terminal actual \<Rightarrow>
               needs_results states by_failure jobs needs
                 \<lparr>all_succeeded = all_succeeded summary \<and> is_success counted,
                  any_failed = any_failed summary \<or> \<not> is_success counted\<rparr>
                 (results @ [(cj_name (jobs ! need), actual)])
           | _ \<Rightarrow> Inl (SE_Corrupt ''run_specs.spec''))
      | _ \<Rightarrow> Inr None)"

record release_state =
  rl_db :: db
  rl_states :: "(uuid \<times> job_state) list"
  rl_by_failure :: "bool list"
  rl_facts :: "run_facts option"
  rl_released :: nat

definition condition_event ::
    "store_env \<Rightarrow> uuid \<Rightarrow> run_spec \<Rightarrow> run_facts \<Rightarrow> uuid \<Rightarrow> string \<Rightarrow> expr
     \<Rightarrow> dependency_summary \<Rightarrow> (string \<times> outcome) list \<Rightarrow> event" where
  "condition_event env run spec facts job name cond summary results =
     (if \<not> uses_status_function cond \<and> (\<not> all_succeeded summary \<or> fa_cancelled facts) then Ev_Skip
      else
        let context = schedule_ctx \<lparr>sx_facts = facts, sx_sha = ps_sha (sp_source spec),
              sx_run = id_display (env_uuid_text env) RunId run,
              sx_job = id_display (env_uuid_text env) JobId job, sx_job_name = name,
              sx_summary = summary, sx_results = results\<rparr>
        in case res_map as_condition (eval context cond) of
             Inr (Some True) \<Rightarrow> Ev_DependenciesSatisfied
           | Inr (Some False) \<Rightarrow> Ev_Skip
           | _ \<Rightarrow> Ev_ConditionFailed)"

text \<open>The event for a blocked job, with the facts of the run once they are read; \<open>None\<close> waits.\<close>

definition schedule_event ::
    "store_env \<Rightarrow> uuid \<Rightarrow> uuid \<Rightarrow> run_spec \<Rightarrow> release_state \<Rightarrow> uuid \<Rightarrow> compiled_job
     \<Rightarrow> store_error + (event \<times> run_facts option) option" where
  "schedule_event env tenant run spec rl job compiled =
     (case jb_condition (cj_spec compiled) of
        None \<Rightarrow>
          (case needs_decision (effective_state (rl_states rl) (rl_by_failure rl)) (cj_needs compiled) of
             Some True \<Rightarrow> Inr (Some (Ev_DependenciesSatisfied, rl_facts rl))
           | Some False \<Rightarrow> Inr (Some (Ev_Skip, rl_facts rl))
           | None \<Rightarrow> Inr None)
      | Some cond \<Rightarrow>
          res_bind (needs_results (rl_states rl) (rl_by_failure rl) (cp_jobs (sp_pipeline spec))
              (cj_needs compiled) \<lparr>all_succeeded = True, any_failed = False\<rparr> []) (\<lambda>found.
          case found of
            None \<Rightarrow> Inr None
          | Some (summary, results) \<Rightarrow>
              res_bind (case rl_facts rl of
                  Some facts \<Rightarrow> Inr facts
                | None \<Rightarrow> run_facts_for env (rl_db rl) tenant run) (\<lambda>facts.
              Inr (Some (condition_event env run spec facts job (cj_name compiled) cond summary results,
                Some facts)))))"

subsection \<open>Releasing the dependents of a run\<close>

definition release_one ::
    "store_env \<Rightarrow> uuid \<Rightarrow> uuid \<Rightarrow> int \<Rightarrow> run_spec \<Rightarrow> nat \<Rightarrow> release_state \<Rightarrow> store_error + release_state" where
  "release_one env tenant run now spec index rl =
     (let (job, state) = rl_states rl ! index;
          jobs = cp_jobs (sp_pipeline spec)
      in if state \<noteq> Blocked then Inr rl
         else if index \<ge> length jobs then Inl (SE_Corrupt ''run_specs.spec'')
         else let compiled = jobs ! index in
           if list_ex (\<lambda>need. need \<ge> index) (cj_needs compiled) then Inl (SE_Corrupt ''run_specs.spec'')
           else res_bind (schedule_event env tenant run spec rl job compiled) (\<lambda>decided.
             case decided of
               None \<Rightarrow> Inr rl
             | Some (ev, facts) \<Rightarrow>
                 res_bind (transition env (rl_db rl) tenant job Controller ev now) (\<lambda>(nxt, db).
                 Inr \<lparr>rl_db = db, rl_states = (rl_states rl)[index := (job, nxt)],
                      rl_by_failure = (rl_by_failure rl)[index :=
                        nxt = Terminal Skipped
                        \<and> list_ex (\<lambda>need. unsuccessful
                            (effective_state (rl_states rl) (rl_by_failure rl) need)) (cj_needs compiled)],
                      rl_facts = facts, rl_released = Suc (rl_released rl)\<rparr>)))"

fun release_loop ::
    "store_env \<Rightarrow> uuid \<Rightarrow> uuid \<Rightarrow> int \<Rightarrow> run_spec \<Rightarrow> nat list \<Rightarrow> release_state \<Rightarrow> store_error + release_state" where
  "release_loop env tenant run now spec [] rl = Inr rl"
| "release_loop env tenant run now spec (index # rest) rl =
     res_bind (release_one env tenant run now spec index rl) (release_loop env tenant run now spec rest)"

definition release_dependents_with ::
    "store_env \<Rightarrow> db \<Rightarrow> uuid \<Rightarrow> uuid \<Rightarrow> int \<Rightarrow> run_spec option \<Rightarrow> store_error + (nat \<times> run_spec option) \<times> db" where
  "release_dependents_with env db tenant run now cached =
     res_bind (run_jobs db tenant run) (\<lambda>states.
     if \<not> list_ex (\<lambda>js. snd js = Blocked) states then Inr ((0, cached), db)
     else
       res_bind (case cached of Some spec \<Rightarrow> Inr spec | None \<Rightarrow> get_run_spec env db tenant run) (\<lambda>spec.
       res_bind (failure_skips states spec) (\<lambda>by_failure.
       res_bind (release_loop env tenant run now spec [0..<length states]
           \<lparr>rl_db = db, rl_states = states, rl_by_failure = by_failure, rl_facts = None, rl_released = 0\<rparr>) (\<lambda>rl.
       Inr ((rl_released rl, Some spec), rl_db rl)))))"

definition release_dependents :: "store_env \<Rightarrow> db \<Rightarrow> uuid \<Rightarrow> uuid \<Rightarrow> int \<Rightarrow> store_error + nat \<times> db" where
  "release_dependents env db tenant run now =
     res_map (\<lambda>((n, _), db). (n, db)) (release_dependents_with env db tenant run now None)"

subsection \<open>The vector of states mirrors the table\<close>

lemma traverse_list_all2:
  "traverse_from i (\<lambda>_. f) xs = Inr ys \<longleftrightarrow> list_all2 (\<lambda>x y. f x = Inr y) xs ys"
proof (induction xs arbitrary: i ys)
  case (Cons x xs)
  then show ?case by (cases ys) (auto simp: res_bind_eq_Inr)
qed auto

lemma insort_key_map: "(\<And>y. k (g y) = k y) \<Longrightarrow> insort_key k (g x) (map g xs) = map g (insort_key k x xs)"
  by (induction xs) auto

lemma sort_key_map: "(\<And>y. k (g y) = k y) \<Longrightarrow> sort_key k (map g xs) = map g (sort_key k xs)"
  by (induction xs) (auto simp: insort_key_map)

lemma run_job_eq_Inr:
  "run_job r = Inr (jid, s) \<longleftrightarrow> jid = jr_id r \<and> id_from_bytes jid = Inr jid \<and> jr_state_code r = encode_state s"
  by (auto simp: run_job_def res_bind_eq_Inr ok_or_eq_Inr typed_eq_Inr state_code.code_iff)

lemma run_jobs_nth:
  "run_jobs db tenant run = Inr states \<longleftrightarrow>
     length states = length (rows_of_run db tenant run)
     \<and> (\<forall>i<length states. run_job (rows_of_run db tenant run ! i) = Inr (states ! i))"
  by (auto simp: run_jobs_def traverse_list_all2 list_all2_conv_all_nth)

lemma rows_of_run_ids:
  assumes "jobs_ok db" "i < length (rows_of_run db tenant run)" "j < length (rows_of_run db tenant run)"
    "jr_id (rows_of_run db tenant run ! i) = jr_id (rows_of_run db tenant run ! j)"
  shows "i = j"
proof -
  have "distinct (map jr_id (filter P (db_jobs db)))" for P
    using assms(1) by (simp add: distinct_map_filter)
  then have "distinct (map jr_id (rows_of_run db tenant run))"
    by (simp add: distinct_map)
  then show ?thesis using assms(2-4) by (auto simp: distinct_conv_nth)
qed

lemma rows_of_run_moved:
  "db_jobs db' = map (\<lambda>x. if jr_id x = job then job_moved s f failure now x else x) (db_jobs db) \<Longrightarrow>
     rows_of_run db' tenant run =
       map (\<lambda>x. if jr_id x = job then job_moved s f failure now x else x) (rows_of_run db tenant run)"
proof -
  let ?g = "\<lambda>x. if jr_id x = job then job_moved s f failure now x else x"
  have f: "filter P (map ?g rows) = map ?g (filter P rows)" if "\<And>x. P (?g x) = P x" for P rows
    using that by (induction rows) auto
  assume "db_jobs db' = map ?g (db_jobs db)"
  then show ?thesis by (subst sort_key_map [of jr_spec_index ?g, symmetric]) (auto simp: f)
qed

lemma run_jobs_transition:
  assumes "jobs_ok db" "run_jobs db tenant run = Inr states" "i < length states" "states ! i = (job, s0)"
    "transition env db tenant job a ev now = Inr (s, db')"
  shows "jobs_ok db'" "run_jobs db' tenant run = Inr (states[i := (job, s)])"
    "\<exists>c c'. job_step c a ev c' \<and> jc_state c = s0 \<and> jc_state c' = s"
proof -
  let ?rows = "rows_of_run db tenant run"
  obtain r row c where r: "r \<in> set (db_jobs db)" "job_at tenant job r" "decode_job r = Inr row"
    and ap: "job_apply (control_of row) a ev = (Inr s, c)" and step: "job_step (control_of row) a ev c"
    and db': "only_checks (db\<lparr>db_jobs := map (\<lambda>x. if jr_id x = job
        then job_moved s (jc_fence c) (failure_of_event ev) now x else x) (db_jobs db)\<rparr>) db'"
    by (rule transition_cases [OF assms(5,1)])
  note st = assms(2) [unfolded run_jobs_nth]
  have i: "i < length ?rows" "run_job (?rows ! i) = Inr (job, s0)" using st assms(3,4) by auto
  have "?rows ! i \<in> set (db_jobs db)" using nth_mem [OF i(1)] by simp
  then have ri: "?rows ! i = r"
    using keyed_inj [OF assms(1) _ r(1)] i(2) r(2) by (simp add: run_job_eq_Inr)
  show "jobs_ok db'" by (rule read_moved(1) [OF assms(1) r db'])
  have rows': "rows_of_run db' tenant run = map (\<lambda>x. if jr_id x = job
        then job_moved s (jc_fence c) (failure_of_event ev) now x else x) ?rows"
    by (rule rows_of_run_moved) (use only_checksD(1) [OF db'] in simp)
  have "run_job (rows_of_run db' tenant run ! k) = Inr (states[i := (job, s)] ! k)" if k: "k < length states" for k
  proof (cases "k = i")
    case True
    have "job = jr_id r" "id_from_bytes job = Inr job" using i(2) ri by (auto simp: run_job_eq_Inr)
    then show ?thesis using True i ri assms(3) by (simp add: rows' run_job_eq_Inr) (simp add: job_moved_def)
  next
    case False
    then have "jr_id (?rows ! k) \<noteq> job"
      using rows_of_run_ids [OF assms(1), of k run tenant i] k i st by (auto simp: run_job_eq_Inr)
    then show ?thesis using k st False by (simp add: rows')
  qed
  then show "run_jobs db' tenant run = Inr (states[i := (job, s)])"
    unfolding run_jobs_nth using st by (simp add: rows')
  have "jc_state (control_of row) = s0"
    using i(2) r(3) by (simp add: ri run_job_eq_Inr decode_job_eq_Inr control_of_def state_code.code_inj)
  then show "\<exists>c c'. job_step c a ev c' \<and> jc_state c = s0 \<and> jc_state c' = s"
    using step job_apply_ok [OF ap] by blast
qed

subsection \<open>Failures behind a skip\<close>

inductive behind_failure :: "compiled_job list \<Rightarrow> (uuid \<times> job_state) list \<Rightarrow> nat \<Rightarrow> bool"
  for jobs states where
  direct: "d \<in> set (cj_needs (jobs ! i)) \<Longrightarrow> unsuccessful (snd (states ! d)) \<Longrightarrow> behind_failure jobs states i"
| through: "d \<in> set (cj_needs (jobs ! i)) \<Longrightarrow> snd (states ! d) = Terminal Skipped \<Longrightarrow>
    behind_failure jobs states d \<Longrightarrow> behind_failure jobs states i"

lemma behind_failure_mono:
  assumes "behind_failure jobs states i" "\<And>d. is_terminal (snd (states ! d)) \<Longrightarrow> states' ! d = states ! d"
  shows "behind_failure jobs states' i"
  using assms(1)
proof induction
  case (direct d i)
  then have "is_terminal (snd (states ! d))" by (auto simp: unsuccessful_def split: job_state.splits)
  with direct show ?case using assms(2) [of d] by (auto intro: behind_failure.direct)
next
  case (through d i)
  then show ?case using assms(2) [of d] by (auto intro: behind_failure.through)
qed

definition explained :: "compiled_job list \<Rightarrow> (uuid \<times> job_state) list \<Rightarrow> bool list \<Rightarrow> bool" where
  "explained jobs states by_failure \<longleftrightarrow> length by_failure = length states
     \<and> (\<forall>i<length states. by_failure ! i \<longrightarrow> snd (states ! i) = Terminal Skipped \<and> behind_failure jobs states i)"

lemma skip_cause_explained:
  assumes "skip_cause states blocked index needs b = Inr b'" "explained jobs states blocked"
    "index < length states" "set needs \<subseteq> set (cj_needs (jobs ! index))" "b \<longrightarrow> behind_failure jobs states index"
  shows "b' \<longrightarrow> behind_failure jobs states index"
  using assms(1,4,5)
proof (induction needs arbitrary: b)
  case (Cons need needs)
  have n: "need < index" using Cons.prems(1) by (simp split: if_splits)
  have "behind_failure jobs states index" if "blocked ! need \<or> unsuccessful (snd (states ! need))"
    using that
  proof
    assume "blocked ! need"
    then have "snd (states ! need) = Terminal Skipped" "behind_failure jobs states need"
      using assms(2,3) n by (auto simp: explained_def)
    then show ?thesis using Cons.prems(2) behind_failure.through [of need jobs index states] by simp
  next
    assume "unsuccessful (snd (states ! need))"
    then show ?thesis using Cons.prems(2) behind_failure.direct [of need jobs index states] by simp
  qed
  then show ?case using Cons n by (auto split: if_splits)
qed simp

lemma failure_skips_explained:
  assumes "failure_skips_from states spec idx blocked = Inr bf" "explained (cp_jobs (sp_pipeline spec)) states blocked"
    "set idx \<subseteq> {..<length states}"
  shows "explained (cp_jobs (sp_pipeline spec)) states bf"
  using assms
proof (induction idx arbitrary: blocked)
  case (Cons index rest)
  show ?case
  proof (cases "snd (states ! index) = Terminal Skipped")
    case True
    then obtain b where b: "skip_cause states blocked index (cj_needs (cp_jobs (sp_pipeline spec) ! index)) False = Inr b"
      and rest: "failure_skips_from states spec rest (blocked[index := b]) = Inr bf"
      using Cons.prems(1) by (auto simp: res_bind_eq_Inr split: if_splits)
    have "b \<longrightarrow> behind_failure (cp_jobs (sp_pipeline spec)) states index"
      by (rule skip_cause_explained [OF b Cons.prems(2)]) (use Cons.prems(3) in auto)
    then have "explained (cp_jobs (sp_pipeline spec)) states (blocked[index := b])"
      using Cons.prems(2,3) True by (auto simp: explained_def nth_list_update split: if_splits)
    then show ?thesis using Cons.IH [OF rest] Cons.prems(3) by simp
  qed (use Cons in simp)
qed simp

lemma failure_skips_ok:
  "failure_skips states spec = Inr bf \<Longrightarrow> explained (cp_jobs (sp_pipeline spec)) states bf"
  unfolding failure_skips_def by (rule failure_skips_explained) (auto simp: explained_def)
subsection \<open>What a decision says\<close>

text \<open>A condition that some scheduling context with the job's needs does not decide.\<close>

definition undecided :: "compiled_job list \<Rightarrow> compiled_job \<Rightarrow> bool" where
  "undecided jobs c \<longleftrightarrow> (\<exists>cond self. jb_condition (cj_spec c) = Some cond
     \<and> map fst (sx_results self) = map (\<lambda>d. cj_name (jobs ! d)) (cj_needs c)
     \<and> (\<forall>b. eval (schedule_ctx self) cond \<noteq> Inr (V_Bool b)))"

text \<open>The reading of a decision on job \<open>i\<close>, once taken.\<close>

definition decided :: "compiled_job list \<Rightarrow> (uuid \<times> job_state) list \<Rightarrow> nat \<Rightarrow> bool" where
  "decided jobs states i \<longleftrightarrow> i < length jobs \<and> (\<forall>d\<in>set (cj_needs (jobs ! i)). d < i) \<and>
     (case snd (states ! i) of
        Blocked \<Rightarrow> \<exists>d\<in>set (cj_needs (jobs ! i)). \<not> is_terminal (snd (states ! d))
      | Queued \<Rightarrow> (\<forall>d\<in>set (cj_needs (jobs ! i)). is_terminal (snd (states ! d)))
          \<and> (jb_condition (cj_spec (jobs ! i)) = None \<longrightarrow>
               (\<forall>d\<in>set (cj_needs (jobs ! i)). snd (states ! d) \<in> {Terminal Passed, Terminal Skipped}))
      | Terminal Skipped \<Rightarrow>
          jb_condition (cj_spec (jobs ! i)) = None \<longrightarrow> behind_failure jobs states i
      | Terminal InfraFailed \<Rightarrow> undecided jobs (jobs ! i)
      | _ \<Rightarrow> False)"

lemma dependency_on_success:
  "dependency_decision OnSuccess s = Some True \<longleftrightarrow> (\<exists>out. s = Terminal out \<and> is_success out)"
  "dependency_decision OnSuccess s = Some False \<longleftrightarrow> unsuccessful s"
  "dependency_decision OnSuccess s = None \<longleftrightarrow> \<not> is_terminal s"
  by (cases s; auto simp: unsuccessful_def)+

lemma needs_decision_cases:
  "needs_decision eff needs = Some True \<longleftrightarrow> (\<forall>d\<in>set needs. \<exists>out. eff d = Terminal out \<and> is_success out)"
  "needs_decision eff needs = Some False \<Longrightarrow> \<exists>d\<in>set needs. unsuccessful (eff d)"
  "needs_decision eff needs = None \<Longrightarrow> \<exists>d\<in>set needs. \<not> is_terminal (eff d)"
proof (induction needs)
  case (Cons d needs)
  { case 1 show ?case using Cons(1) dependency_on_success [of "eff d"]
      by (cases "dependency_decision OnSuccess (eff d)") (auto split: bool.splits) }
  { case 2 then show ?case using Cons(2) dependency_on_success(2) [of "eff d"]
      by (cases "dependency_decision OnSuccess (eff d)") (auto split: bool.splits) }
  { case 3 then show ?case using Cons(3) dependency_on_success(3) [of "eff d"]
      by (cases "dependency_decision OnSuccess (eff d)") (auto split: bool.splits) }
qed simp_all

lemma effective_terminal:
  "explained jobs states bf \<Longrightarrow> d < length states \<Longrightarrow>
     is_terminal (effective_state states bf d) = is_terminal (snd (states ! d))"
  by (auto simp: effective_state_def explained_def)

lemma needs_results_cases:
  assumes "explained jobs' states bf" "\<forall>d\<in>set needs. d < length states"
    "needs_results states bf jobs needs summary results = Inr found"
  shows "case found of
      None \<Rightarrow> \<exists>d\<in>set needs. \<not> is_terminal (snd (states ! d))
    | Some (_, results') \<Rightarrow> (\<forall>d\<in>set needs. is_terminal (snd (states ! d)))
        \<and> map fst results' = map fst results @ map (\<lambda>d. cj_name (jobs ! d)) needs"
  using assms(2,3)
proof (induction needs arbitrary: summary results)
  case (Cons d needs)
  have t: "is_terminal (effective_state states bf d) = is_terminal (snd (states ! d))"
    by (rule effective_terminal [OF assms(1)]) (use Cons.prems(1) in simp)
  show ?case
  proof (cases "effective_state states bf d")
    case (Terminal counted)
    then obtain actual where actual: "snd (states ! d) = Terminal actual"
      using t by (cases "snd (states ! d)") auto
    from Cons.prems(2) have "needs_results states bf jobs needs
        \<lparr>all_succeeded = all_succeeded summary \<and> is_success counted, any_failed = any_failed summary \<or> \<not> is_success counted\<rparr>
        (results @ [(cj_name (jobs ! d), actual)]) = Inr found"
      by (simp add: Terminal actual)
    from Cons.IH [OF _ this] Cons.prems(1) actual show ?thesis by (auto split: option.splits)
  qed (use Cons.prems(2) t in auto)
qed auto

lemma condition_event_fails:
  assumes "condition_event env run spec facts job name cond summary results = Ev_ConditionFailed"
  shows "\<exists>self. sx_results self = results \<and> (\<forall>b. eval (schedule_ctx self) cond \<noteq> Inr (V_Bool b))"
proof -
  let ?self = "\<lparr>sx_facts = facts, sx_sha = ps_sha (sp_source spec), sx_run = id_display (env_uuid_text env) RunId run,
      sx_job = id_display (env_uuid_text env) JobId job, sx_job_name = name, sx_summary = summary, sx_results = results\<rparr>"
  have "\<forall>b. eval (schedule_ctx ?self) cond \<noteq> Inr (V_Bool b)"
    using assms by (auto simp: condition_event_def Let_def split: if_splits bool.splits)
  then show ?thesis by (intro exI [of _ ?self]) simp
qed

text \<open>What the event of a blocked job rests on.\<close>

lemma schedule_event_cases:
  assumes "explained (cp_jobs (sp_pipeline spec)) (rl_states rl) (rl_by_failure rl)"
    "\<forall>d\<in>set (cj_needs c). d < length (rl_states rl)"
    "schedule_event env tenant run spec rl job c = Inr e"
  obtains
    (waits) "e = None" "\<exists>d\<in>set (cj_needs c). \<not> is_terminal (snd (rl_states rl ! d))"
  | (starts) facts where "e = Some (Ev_DependenciesSatisfied, facts)"
      "\<forall>d\<in>set (cj_needs c). is_terminal (snd (rl_states rl ! d))"
      "jb_condition (cj_spec c) = None \<longrightarrow>
        (\<forall>d\<in>set (cj_needs c). snd (rl_states rl ! d) \<in> {Terminal Passed, Terminal Skipped})"
  | (skips) facts where "e = Some (Ev_Skip, facts)"
      "jb_condition (cj_spec c) = None \<longrightarrow>
        (\<exists>d\<in>set (cj_needs c). unsuccessful (effective_state (rl_states rl) (rl_by_failure rl) d))"
  | (fails) facts where "e = Some (Ev_ConditionFailed, facts)" "undecided (cp_jobs (sp_pipeline spec)) c"
proof -
  let ?eff = "effective_state (rl_states rl) (rl_by_failure rl)"
  have t: "is_terminal (?eff d) = is_terminal (snd (rl_states rl ! d))" if "d \<in> set (cj_needs c)" for d
    using effective_terminal [OF assms(1)] assms(2) that by blast
  have ok: "snd (rl_states rl ! d) \<in> {Terminal Passed, Terminal Skipped}"
    if "?eff d = Terminal out" "is_success out" for d out
    using that by (cases out) (auto simp: effective_state_def split: if_splits)
  show thesis
  proof (cases "jb_condition (cj_spec c)")
    case None
    show thesis
    proof (cases "needs_decision ?eff (cj_needs c)")
      case n: None
      then have "e = None" using assms(3) None by (simp add: schedule_event_def)
      moreover have "\<exists>d\<in>set (cj_needs c). \<not> is_terminal (snd (rl_states rl ! d))"
        using needs_decision_cases(3) [OF n] t by blast
      ultimately show thesis by (rule waits)
    next
      case (Some b)
      show thesis
      proof (cases b)
        case True
        with Some have all: "\<forall>d\<in>set (cj_needs c). \<exists>out. ?eff d = Terminal out \<and> is_success out"
          using needs_decision_cases(1) [of ?eff "cj_needs c"] by simp
        then have "\<forall>d\<in>set (cj_needs c). snd (rl_states rl ! d) \<in> {Terminal Passed, Terminal Skipped}" using ok by blast
        moreover from this have "\<forall>d\<in>set (cj_needs c). is_terminal (snd (rl_states rl ! d))" by auto
        moreover have "e = Some (Ev_DependenciesSatisfied, rl_facts rl)"
          using assms(3) None Some True by (simp add: schedule_event_def)
        ultimately show thesis using starts by blast
      next
        case False
        then have "e = Some (Ev_Skip, rl_facts rl)" using assms(3) None Some by (simp add: schedule_event_def)
        moreover have "\<exists>d\<in>set (cj_needs c). unsuccessful (?eff d)"
          using needs_decision_cases(2) [of ?eff "cj_needs c"] Some False by simp
        ultimately show thesis using skips by blast
      qed
    qed
  next
    case (Some cond)
    let ?sum = "\<lparr>all_succeeded = True, any_failed = False\<rparr>"
    obtain found where f: "needs_results (rl_states rl) (rl_by_failure rl) (cp_jobs (sp_pipeline spec)) (cj_needs c) ?sum [] = Inr found"
      using assms(3) Some by (auto simp: schedule_event_def res_bind_eq_Inr)
    note r = needs_results_cases [OF assms(1,2) f]
    show thesis
    proof (cases found)
      case None
      then have "e = None" using assms(3) Some f by (simp add: schedule_event_def)
      then show thesis using r None by (intro waits) simp_all
    next
      case found: (Some sr)
      obtain summary results where sr: "sr = (summary, results)" by (cases sr)
      obtain facts where e: "e = Some (condition_event env run spec facts job (cj_name c) cond summary results, Some facts)"
        using assms(3) Some f found sr by (auto simp: schedule_event_def res_bind_eq_Inr)
      have "condition_event env run spec facts job (cj_name c) cond summary results
          \<in> {Ev_DependenciesSatisfied, Ev_Skip, Ev_ConditionFailed}"
        by (simp add: condition_event_def Let_def split: sum.splits option.splits bool.splits)
      moreover have "\<forall>d\<in>set (cj_needs c). is_terminal (snd (rl_states rl ! d))" using r found sr by simp
      moreover note Some
      moreover have "undecided (cp_jobs (sp_pipeline spec)) c"
        if "condition_event env run spec facts job (cj_name c) cond summary results = Ev_ConditionFailed"
        using condition_event_fails [OF that] Some r found sr unfolding undecided_def by auto
      ultimately show thesis
        using e starts [of "Some facts"] skips [of "Some facts"] fails [of "Some facts"]
        unfolding insert_iff empty_iff by (elim disjE) simp_all
    qed
  qed
qed
subsection \<open>The loop\<close>

definition release_inv ::
    "uuid \<Rightarrow> uuid \<Rightarrow> run_spec \<Rightarrow> (uuid \<times> job_state) list \<Rightarrow> nat \<Rightarrow> release_state \<Rightarrow> bool" where
  "release_inv tenant run spec start k rl \<longleftrightarrow>
     jobs_ok (rl_db rl) \<and> run_jobs (rl_db rl) tenant run = Inr (rl_states rl)
     \<and> explained (cp_jobs (sp_pipeline spec)) (rl_states rl) (rl_by_failure rl)
     \<and> map fst (rl_states rl) = map fst start
     \<and> (\<forall>i<length start. snd (start ! i) \<noteq> Blocked \<or> k \<le> i \<longrightarrow> rl_states rl ! i = start ! i)
     \<and> (\<forall>i<length start. i < k \<longrightarrow> snd (start ! i) = Blocked \<longrightarrow>
          decided (cp_jobs (sp_pipeline spec)) (rl_states rl) i)"

lemma decided_frame:
  assumes "decided jobs states i" "\<And>d. d \<le> i \<Longrightarrow> states' ! d = states ! d"
    "\<And>d. is_terminal (snd (states ! d)) \<Longrightarrow> states' ! d = states ! d"
  shows "decided jobs states' i"
proof -
  have n: "states' ! d = states ! d" if "d \<in> set (cj_needs (jobs ! i))" for d
    using assms(1,2) that by (auto simp: decided_def)
  have b: "behind_failure jobs states i \<Longrightarrow> behind_failure jobs states' i"
    using behind_failure_mono [of jobs states i states'] assms(3) by blast
  have i: "states' ! i = states ! i" using assms(2) by simp
  show ?thesis
    using assms(1) n b unfolding decided_def i
    by (cases "snd (states ! i)") (auto split: outcome.splits)
qed

lemma blocked_moves:
  assumes "job_step c Controller ev c'" "jc_state c = Blocked"
  shows "ev = Ev_DependenciesSatisfied \<Longrightarrow> jc_state c' = Queued" "ev = Ev_Skip \<Longrightarrow> jc_state c' = Terminal Skipped"
    "ev = Ev_ConditionFailed \<Longrightarrow> jc_state c' = Terminal InfraFailed"
  using assms by (auto elim: job_step.cases)

lemma unsuccessful_effective:
  assumes "explained jobs states bf" "d \<in> set (cj_needs (jobs ! i))" "d < length states"
    "unsuccessful (effective_state states bf d)"
  shows "behind_failure jobs states i"
proof (cases "bf ! d")
  case True
  then have "snd (states ! d) = Terminal Skipped" "behind_failure jobs states d"
    using assms(1,3) by (auto simp: explained_def)
  then show ?thesis using assms(2) behind_failure.through by blast
next
  case False
  then have "unsuccessful (snd (states ! d))" using assms(4) by (simp add: effective_state_def)
  then show ?thesis using assms(2) behind_failure.direct by blast
qed

lemma behind_failure_moved:
  assumes "snd (states ! k) = Blocked" "behind_failure jobs states i"
  shows "behind_failure jobs (states[k := (job, s)]) i"
  using assms(2)
proof (rule behind_failure_mono)
  show "is_terminal (snd (states ! d)) \<Longrightarrow> states[k := (job, s)] ! d = states ! d" for d
    using assms(1) by (cases "d = k") auto
qed

lemma explained_move:
  assumes "explained jobs states bf" "k < length states" "snd (states ! k) = Blocked"
    "b \<longrightarrow> s = Terminal Skipped \<and> behind_failure jobs states k"
  shows "explained jobs (states[k := (job, s)]) (bf[k := b])"
proof -
  note behind_failure_moved [OF assms(3), of jobs _ job s]
  then show ?thesis using assms unfolding explained_def
    by (auto simp: nth_list_update split: if_splits)
qed

lemma release_inv_move:
  assumes "release_inv tenant run spec start k rl" "k < length start" "start ! k = (job, Blocked)"
    "jobs_ok db'" "run_jobs db' tenant run = Inr ((rl_states rl)[k := (job, s)])"
    "b \<longrightarrow> s = Terminal Skipped \<and> behind_failure (cp_jobs (sp_pipeline spec)) (rl_states rl) k"
    "decided (cp_jobs (sp_pipeline spec)) ((rl_states rl)[k := (job, s)]) k"
  shows "release_inv tenant run spec start (Suc k)
    \<lparr>rl_db = db', rl_states = (rl_states rl)[k := (job, s)], rl_by_failure = (rl_by_failure rl)[k := b],
     rl_facts = facts, rl_released = n\<rparr>"
proof -
  let ?jobs = "cp_jobs (sp_pipeline spec)" and ?st = "rl_states rl" and ?st' = "(rl_states rl)[k := (job, s)]"
  note inv = assms(1) [unfolded release_inv_def]
  have len: "length ?st = length start" using inv by (metis length_map)
  have k: "?st ! k = (job, Blocked)" using inv assms(2,3) by auto
  have ex: "explained ?jobs ?st' ((rl_by_failure rl)[k := b])"
    by (rule explained_move) (use inv assms(2,6) len k in auto)
  have dec: "decided ?jobs ?st' i" if "i < k" "decided ?jobs ?st i" for i
  proof (rule decided_frame [OF that(2)])
    show "is_terminal (snd (?st ! d)) \<Longrightarrow> ?st' ! d = ?st ! d" for d
      using k by (cases "d = k") auto
  qed (use that(1) in simp)
  have "map fst ?st' = map fst ?st" using k assms(2) len by (intro nth_equalityI) (auto simp: nth_list_update)
  then have fst: "map fst ?st' = map fst start" using inv by simp
  have same: "?st' ! i = start ! i" if "i < length start" "snd (start ! i) \<noteq> Blocked \<or> Suc k \<le> i" for i
    using inv that assms(3) by (cases "i = k") auto
  have "decided ?jobs ?st' i" if "i < length start" "i < Suc k" "snd (start ! i) = Blocked" for i
    using inv that dec assms(7) by (cases "i = k") auto
  then show ?thesis unfolding release_inv_def using assms(4,5) ex fst same by simp
qed

lemma release_one_inv:
  assumes "release_inv tenant run spec start k rl" "k < length start"
    "release_one env tenant run now spec k rl = Inr rl'"
  shows "release_inv tenant run spec start (Suc k) rl'"
proof -
  let ?jobs = "cp_jobs (sp_pipeline spec)" and ?st = "rl_states rl"
  note inv = assms(1) [unfolded release_inv_def]
  have len: "length ?st = length start" using inv by (metis length_map)
  obtain job s where k: "?st ! k = (job, s)" by (cases "?st ! k")
  have start: "start ! k = (job, s)" using inv assms(2) k by auto
  show ?thesis
  proof (cases "s = Blocked")
    case False
    then have "rl' = rl" using assms(3) by (simp add: release_one_def k)
    then show ?thesis using inv start False unfolding release_inv_def by (auto simp: less_Suc_eq)
  next
    case True
    let ?c = "?jobs ! k"
    have kj: "k < length ?jobs" and needs: "\<forall>d\<in>set (cj_needs ?c). d < k"
      using assms(3) True by (auto simp: release_one_def k Let_def list_ex_iff split: if_splits)
    have nle: "\<not> list_ex (\<lambda>need. k \<le> need) (cj_needs ?c)" using needs by (auto simp: list_ex_iff not_le)
    obtain e where e: "schedule_event env tenant run spec rl job ?c = Inr e"
      and r: "(case e of None \<Rightarrow> Inr rl
         | Some (ev, facts) \<Rightarrow> res_bind (transition env (rl_db rl) tenant job Controller ev now) (\<lambda>(nxt, db).
             Inr \<lparr>rl_db = db, rl_states = ?st[k := (job, nxt)],
                  rl_by_failure = (rl_by_failure rl)[k := nxt = Terminal Skipped
                    \<and> list_ex (\<lambda>need. unsuccessful (effective_state ?st (rl_by_failure rl) need)) (cj_needs ?c)],
                  rl_facts = facts, rl_released = Suc (rl_released rl)\<rparr>)) = Inr rl'"
      using assms(3) True kj nle
      by (cases "schedule_event env tenant run spec rl job ?c") (simp_all add: release_one_def k Let_def)
    have nl: "\<forall>d\<in>set (cj_needs ?c). d < length ?st" using needs assms(2) len by auto
    have ex: "explained ?jobs ?st (rl_by_failure rl)" using inv by blast
    have moved: ?thesis if ev: "e = Some (ev, facts)"
      and dec: "\<And>nxt c c'. job_step c Controller ev c' \<Longrightarrow> jc_state c = Blocked \<Longrightarrow> jc_state c' = nxt \<Longrightarrow>
        decided ?jobs (?st[k := (job, nxt)]) k" for ev facts
    proof -
      let ?b = "\<lambda>nxt. nxt = Terminal Skipped
           \<and> list_ex (\<lambda>need. unsuccessful (effective_state ?st (rl_by_failure rl) need)) (cj_needs ?c)"
      obtain nxt db' where t: "transition env (rl_db rl) tenant job Controller ev now = Inr (nxt, db')"
        and rl': "rl' = \<lparr>rl_db = db', rl_states = ?st[k := (job, nxt)],
          rl_by_failure = (rl_by_failure rl)[k := ?b nxt], rl_facts = facts, rl_released = Suc (rl_released rl)\<rparr>"
        using r ev by (auto simp: res_bind_eq_Inr)
      note m = run_jobs_transition [OF conjunct1 [OF inv] conjunct1 [OF conjunct2 [OF inv]] _ k t]
      have b: "?b nxt \<longrightarrow> nxt = Terminal Skipped \<and> behind_failure ?jobs ?st k"
        using unsuccessful_effective [OF ex, of _ k] nl by (auto simp: list_ex_iff)
      show ?thesis unfolding rl'
        by (rule release_inv_move [OF assms(1,2)])
          (use m assms(2) len start True dec b in auto)
    qed
    show ?thesis
    proof (cases rule: schedule_event_cases [OF ex nl e, case_names waits starts skips fails])
      case waits
      have "decided ?jobs ?st k" using kj needs waits(2) True k by (simp add: decided_def)
      moreover have "rl' = rl" using r waits(1) by simp
      ultimately show ?thesis using inv start unfolding release_inv_def by (auto simp: less_Suc_eq)
    next
      case (starts facts)
      have "decided ?jobs (?st[k := (job, Queued)]) k"
        using kj needs starts(2,3) assms(2) len by (auto simp: decided_def nth_list_update)
      then show ?thesis using blocked_moves(1) by (intro moved [OF starts(1)]) metis
    next
      case (skips facts)
      have "jb_condition (cj_spec ?c) = None \<longrightarrow> behind_failure ?jobs ?st k"
        using skips(2) unsuccessful_effective [OF ex, of _ k] nl by blast
      then have "jb_condition (cj_spec ?c) = None \<longrightarrow> behind_failure ?jobs (?st[k := (job, Terminal Skipped)]) k"
        using behind_failure_moved [of ?st k] k True by simp
      then have "decided ?jobs (?st[k := (job, Terminal Skipped)]) k"
        using kj needs assms(2) len by (auto simp: decided_def nth_list_update)
      then show ?thesis using blocked_moves(2) by (intro moved [OF skips(1)]) metis
    next
      case (fails facts)
      have "decided ?jobs (?st[k := (job, Terminal InfraFailed)]) k"
        using kj needs fails(2) assms(2) len by (auto simp: decided_def nth_list_update)
      then show ?thesis using blocked_moves(3) by (intro moved [OF fails(1)]) metis
    qed
  qed
qed

lemma release_loop_inv:
  "release_inv tenant run spec start k rl \<Longrightarrow> k \<le> length start \<Longrightarrow>
     release_loop env tenant run now spec [k..<length start] rl = Inr rl' \<Longrightarrow>
     release_inv tenant run spec start (length start) rl'"
proof (induction "length start - k" arbitrary: k rl)
  case (Suc n)
  then have k: "k < length start" by simp
  then obtain rl1 where one: "release_one env tenant run now spec k rl = Inr rl1"
    and rest: "release_loop env tenant run now spec [Suc k..<length start] rl1 = Inr rl'"
    using Suc.prems(3) by (auto simp: upt_conv_Cons res_bind_eq_Inr)
  have "n = length start - Suc k" using Suc.hyps(2) by simp
  then show ?case
    by (rule Suc.hyps(1) [OF _ release_one_inv [OF Suc.prems(1) k one] _ rest]) (use k in simp)
qed simp
lemma release_result:
  assumes "jobs_ok db" "run_jobs db tenant run = Inr states" "get_run_spec env db tenant run = Inr spec"
    "release_dependents env db tenant run now = Inr (n, db')"
  obtains states' where "run_jobs db' tenant run = Inr states'" "jobs_ok db'" "map fst states' = map fst states"
    "\<And>i. i < length states \<Longrightarrow> snd (states ! i) \<noteq> Blocked \<Longrightarrow> states' ! i = states ! i"
    "\<And>i. i < length states \<Longrightarrow> snd (states ! i) = Blocked \<Longrightarrow> decided (cp_jobs (sp_pipeline spec)) states' i"
proof (cases "list_ex (\<lambda>js. snd js = Blocked) states")
  case False
  then have "db' = db" using assms(2,4) by (simp add: release_dependents_def release_dependents_with_def)
  moreover have "i < length states \<Longrightarrow> snd (states ! i) \<noteq> Blocked" for i using False by (simp add: list_ex_iff)
  ultimately show thesis using that assms(1,2) by blast
next
  case True
  obtain bf rl where bf: "failure_skips states spec = Inr bf"
    and loop: "release_loop env tenant run now spec [0..<length states]
      \<lparr>rl_db = db, rl_states = states, rl_by_failure = bf, rl_facts = None, rl_released = 0\<rparr> = Inr rl"
    and db': "db' = rl_db rl"
    using assms(2-4) True by (auto simp: release_dependents_def release_dependents_with_def res_bind_eq_Inr res_map_def split: sum.splits)
  have "release_inv tenant run spec states 0
      \<lparr>rl_db = db, rl_states = states, rl_by_failure = bf, rl_facts = None, rl_released = 0\<rparr>"
    using assms(1,2) failure_skips_ok [OF bf] by (simp add: release_inv_def)
  from release_loop_inv [OF this _ loop] have "release_inv tenant run spec states (length states) rl" by simp
  then show thesis using that [of "rl_states rl"] unfolding release_inv_def db' by blast
qed

subsection \<open>A run of one job\<close>

definition one_run :: db where
  "one_run = no_rows\<lparr>
     db_repos := [\<lparr>rp_id = example_id 3, rp_tenant = example_id 2, rp_name = ''app''\<rparr>],
     db_runs := [\<lparr>rn_id = example_id 4, rn_tenant = example_id 2, rn_repo = example_id 3,
        rn_source_sha = ''0'', rn_created_ms = 1, rn_cancel_requested = False\<rparr>],
     db_jobs := [skipped_job\<lparr>jr_state_code := encode_state Blocked\<rparr>],
     db_specs := [\<lparr>sr_run = example_id 4, sr_tenant = example_id 2, sr_format = 7, sr_spec = [7]\<rparr>]\<rparr>"

definition env_for :: "run_spec \<Rightarrow> store_env" where
  "env_for s = example_env\<lparr>env_codec := one_value_codec s\<rparr>"

lemma example_ids: "typed what (example_id n) = Inr (example_id n)" "id_from_bytes (example_id n) = Inr (example_id n)"
  by (simp_all add: typed_eq_Inr id_from_bytes_def example_id_def)

lemma one_run_reads:
  "jobs_ok one_run" "run_jobs one_run (example_id 2) (example_id 4) = Inr [(example_id 5, Blocked)]"
  "get_run_spec (env_for s) one_run (example_id 2) (example_id 4) = Inr s"
proof -
  show "jobs_ok one_run" by (simp add: one_run_def)
  show "run_jobs one_run (example_id 2) (example_id 4) = Inr [(example_id 5, Blocked)]"
    by (simp add: run_jobs_def one_run_def run_job_def decode_state_def) (simp add: skipped_job_def example_ids)
  show "get_run_spec (env_for s) one_run (example_id 2) (example_id 4) = Inr s"
    by (simp add: get_run_spec_def one_run_def env_for_def example_env_def SPEC_FORMAT_def SPEC_FORMAT_READ_MIN_def
        spec_decode_def whole_def one_value_codec_def)
qed

lemma one_run_transitions:
  assumes "job_apply \<lparr>jc_state = Blocked, jc_fence = 0, jc_cancel_requested = False\<rparr> Controller ev = (Inr s, c)"
  shows "\<exists>db'. transition env one_run (example_id 2) (example_id 5) Controller ev now = Inr (s, db')"
proof -
  have r: "read_job_row one_run (example_id 2) (example_id 5) = Inr \<lparr>jw_state = Blocked, jw_fence = 0,
      jw_cancel_requested = False, jw_failure_class = None, jw_timestamps = ts_default\<rparr>"
    by (simp add: one_run_def read_job_row_def decode_job_def decode_state_def) (simp add: skipped_job_def)
  have "check_facts (one_run\<lparr>db_jobs := x\<rparr>) tenant run = Inr None" for x tenant run
    by (simp add: check_facts_def one_run_def no_rows_def Let_def)
  moreover have "s \<noteq> Blocked" using apply_never_blocks [OF assms] .
  moreover have "db_jobs one_run = [skipped_job\<lparr>jr_state_code := 0\<rparr>]" by (simp add: one_run_def)
  ultimately show ?thesis
    unfolding transition_def r transition_from_def
    by (simp add: assms Let_def update_where_def record_job_def map_err_def) (simp add: skipped_job_def example_ids)
qed

lemma one_run_releases:
  assumes "cp_jobs (sp_pipeline s) = [j]" "cj_needs j = []"
    "jb_condition (cj_spec j) = None \<and> ev = Ev_DependenciesSatisfied \<and> nxt = Queued
     \<or> jb_condition (cj_spec j) = Some (E_Lit (V_Bool False)) \<and> ev = Ev_Skip \<and> nxt = Terminal Skipped"
  shows "\<exists>db'. release_dependents (env_for s) one_run (example_id 2) (example_id 4) 9 = Inr (1, db')
    \<and> run_jobs db' (example_id 2) (example_id 4) = Inr [(example_id 5, nxt)]"
proof -
  have "\<exists>c. job_apply \<lparr>jc_state = Blocked, jc_fence = 0, jc_cancel_requested = False\<rparr> Controller ev = (Inr nxt, c)"
    using assms(3) by (auto simp: job_apply_def)
  then obtain db' where t: "transition (env_for s) one_run (example_id 2) (example_id 5) Controller ev 9 = Inr (nxt, db')"
    using one_run_transitions by blast
  let ?rl = "\<lparr>rl_db = one_run, rl_states = [(example_id 5, Blocked)], rl_by_failure = [False], rl_facts = None, rl_released = 0\<rparr>"
  have "run_facts_for (env_for s) one_run (example_id 2) (example_id 4) = Inr \<lparr>fa_repo = id_display (env_uuid_text (env_for s)) RepoId (example_id 3),
      fa_repo_name = ''app'', fa_cancelled = False, fa_event = event_facts_for one_run (example_id 4)\<rparr>"
    by (simp add: run_facts_for_def one_run_def example_ids)
  then have "\<exists>facts. schedule_event (env_for s) (example_id 2) (example_id 4) s ?rl (example_id 5) j = Inr (Some (ev, facts))"
    using assms by (auto simp: schedule_event_def condition_event_def Let_def schedule_ctx_def)
  then have "\<exists>rl'. release_loop (env_for s) (example_id 2) (example_id 4) 9 s [0] ?rl = Inr rl' \<and> rl_db rl' = db' \<and> rl_released rl' = 1"
    using t assms(1,2) by (auto simp: release_one_def)
  moreover have "failure_skips [(example_id 5, Blocked)] s = Inr [False]" by (simp add: failure_skips_def)
  moreover have "run_jobs db' (example_id 2) (example_id 4) = Inr [(example_id 5, nxt)]"
    using run_jobs_transition(2) [OF one_run_reads(1,2) _ _ t, of 0 Blocked] by simp
  ultimately show ?thesis
    by (auto simp: release_dependents_def release_dependents_with_def one_run_reads)
qed

lemma example_pipeline_one: "length (pl_jobs example_pipeline) = 1"
  by (simp add: example_pipeline_def)

lemma one_job_pipeline:
  assumes "compile null_codec example_pipeline = Some (Inr c)"
  shows "\<exists>(s :: run_spec) j. sp_pipeline s = c \<and> cp_jobs (sp_pipeline s) = [j] \<and> cj_needs j = [] \<and> jb_condition (cj_spec j) = None"
proof -
  have "mset (map (\<lambda>j. (cj_name j, cj_spec j)) (cp_jobs c)) = mset (pl_jobs example_pipeline)"
    by (rule compiled_multiset_jobs [OF assms])
  then have m: "length (cp_jobs c) = 1" by (metis example_pipeline_one length_map size_mset)
  then obtain j where j: "cp_jobs c = [j]" by (auto simp: length_Suc_conv)
  note f = compiled_job_facts [OF assms, of 0]
  have "cj_needs j = []" "jb_condition (cj_spec j) = None"
    using f(1,5) j by (auto simp: example_pipeline_def)
  then show ?thesis using j by (intro exI [of _ "example_spec\<lparr>sp_pipeline := c\<rparr>"] exI [of _ j]) simp
qed

subsection \<open>Properties\<close>

text \<open>
  C6: releasing the dependents of a run decides its blocked jobs by their needs.  A job that starts has
  only ended needs, all of them successful if it has no condition; a job without condition is skipped only
  behind a failure; a job stays blocked only behind one that has not ended.  Jobs that were not blocked
  stay as they were.
\<close>

theorem release_decides_by_needs:
  assumes "jobs_ok db" "run_jobs db tenant run = Inr states" "get_run_spec env db tenant run = Inr spec"
    "release_dependents env db tenant run now = Inr (n, db')"
  shows "\<exists>states'. run_jobs db' tenant run = Inr states' \<and> map fst states' = map fst states
    \<and> (\<forall>i<length states. if snd (states ! i) = Blocked then decided (cp_jobs (sp_pipeline spec)) states' i
        else states' ! i = states ! i)"
  by (rule release_result [OF assms]) auto

theorem release_decides_by_needs_witness:
  "\<exists>s db' states'. run_jobs db' (example_id 2) (example_id 4) = Inr states'
     \<and> release_dependents (env_for s) one_run (example_id 2) (example_id 4) 9 = Inr (1, db')
     \<and> decided (cp_jobs (sp_pipeline s)) states' 0"
proof -
  obtain c where c: "compile null_codec example_pipeline = Some (Inr c)" using example_pipeline_compiles by blast
  obtain s :: run_spec and j where s: "cp_jobs (sp_pipeline s) = [j]" "cj_needs j = []" "jb_condition (cj_spec j) = None"
    using one_job_pipeline [OF c] by blast
  obtain db' where r: "release_dependents (env_for s) one_run (example_id 2) (example_id 4) 9 = Inr (1, db')"
    using one_run_releases [OF s(1,2)] s(3) by blast
  from release_decides_by_needs [OF one_run_reads(1,2,3) r] r show ?thesis by force
qed

text \<open>
  C9: no run is left with nothing to wait for.  After a release, if no job of the run is queued or held by
  a worker, then no job is blocked either: every job of the run has ended.
\<close>

theorem released_run_makes_progress:
  assumes "jobs_ok db" "run_jobs db tenant run = Inr states" "get_run_spec env db tenant run = Inr spec"
    "release_dependents env db tenant run now = Inr (n, db')" "run_jobs db' tenant run = Inr states'"
    "\<forall>s\<in>snd ` set states'. s \<noteq> Queued \<and> \<not> is_worker_owned s"
  shows "\<forall>s\<in>snd ` set states'. is_terminal s"
proof -
  obtain st where st: "run_jobs db' tenant run = Inr st" "map fst st = map fst states"
    "\<And>i. i < length states \<Longrightarrow> snd (states ! i) \<noteq> Blocked \<Longrightarrow> st ! i = states ! i"
    "\<And>i. i < length states \<Longrightarrow> snd (states ! i) = Blocked \<Longrightarrow> decided (cp_jobs (sp_pipeline spec)) st i"
    by (rule release_result [OF assms(1-4)]) blast
  have len: "length st = length states" using st(2) by (metis length_map)
  have s': "states' = st" using st(1) assms(5) by simp
  have "is_terminal (snd (st ! i))" if "i < length st" for i
    using that
  proof (induction i rule: less_induct)
    case (less i)
    show ?case
    proof (rule ccontr)
      assume no: "\<not> is_terminal (snd (st ! i))"
      have "snd (st ! i) \<in> snd ` set states'" using less.prems s' by simp
      with assms(6) no have b: "snd (st ! i) = Blocked" by (cases "snd (st ! i)") auto
      then have "snd (states ! i) = Blocked" using st(3) [of i] less.prems len by (cases "snd (states ! i) = Blocked") auto
      then have "decided (cp_jobs (sp_pipeline spec)) st i" using st(4) less.prems len by simp
      then obtain d where "d < i" "\<not> is_terminal (snd (st ! d))" using b by (auto simp: decided_def)
      then show False using less by auto
    qed
  qed
  then show ?thesis unfolding s' by (metis image_iff in_set_conv_nth)
qed

theorem released_run_makes_progress_witness:
  "\<exists>s db'. release_dependents (env_for s) one_run (example_id 2) (example_id 4) 9 = Inr (1, db')
     \<and> run_jobs db' (example_id 2) (example_id 4) = Inr [(example_id 5, Terminal Skipped)]
     \<and> (\<forall>x\<in>snd ` set [(example_id 5, Terminal Skipped)]. is_terminal x)"
proof -
  obtain c where c: "compile null_codec example_pipeline = Some (Inr c)" using example_pipeline_compiles by blast
  obtain s :: run_spec and j where s: "cp_jobs (sp_pipeline s) = [j]" "cj_needs j = []" "jb_condition (cj_spec j) = None"
    using one_job_pipeline [OF c] by blast
  define j' where "j' = j\<lparr>cj_spec := (cj_spec j)\<lparr>jb_condition := Some (E_Lit (V_Bool False))\<rparr>\<rparr>"
  define s' where "s' = s\<lparr>sp_pipeline := (sp_pipeline s)\<lparr>cp_jobs := [j']\<rparr>\<rparr>"
  have j': "cp_jobs (sp_pipeline s') = [j']" "cj_needs j' = []" "jb_condition (cj_spec j') = Some (E_Lit (V_Bool False))"
    using s by (simp_all add: s'_def j'_def)
  obtain db' where r: "release_dependents (env_for s') one_run (example_id 2) (example_id 4) 9 = Inr (1, db')"
    and st: "run_jobs db' (example_id 2) (example_id 4) = Inr [(example_id 5, Terminal Skipped)]"
    using one_run_releases [OF j'(1,2)] j'(3) by blast
  from released_run_makes_progress [OF one_run_reads(1,2,3) r st] r st show ?thesis by auto
qed

text \<open>
  C10: a condition that compiled never fails when it is scheduled.  In a run of a decoded and compiled
  pipeline, a release leaves every job that was blocked either blocked, queued or skipped: no job ends in
  an infrastructure failure because its condition could not be evaluated.
\<close>

theorem compiled_conditions_never_fail:
  assumes "in_range policy (rp_default policy)" "decode policy root = Inr p"
    "compile cd p = Some (Inr (sp_pipeline spec))"
    "jobs_ok db" "run_jobs db tenant run = Inr states" "get_run_spec env db tenant run = Inr spec"
    "release_dependents env db tenant run now = Inr (n, db')" "run_jobs db' tenant run = Inr states'"
    "i < length states" "snd (states ! i) = Blocked"
  shows "snd (states' ! i) \<in> {Blocked, Queued, Terminal Skipped}"
proof -
  let ?jobs = "cp_jobs (sp_pipeline spec)"
  have d: "decided ?jobs states' i"
    by (rule release_result [OF assms(4-7)]) (use assms(8-10) in auto)
  then have i: "i < length ?jobs" by (simp add: decided_def)
  note f = compiled_job_facts [OF assms(3) i]
  have wf: "wf_job policy (cj_spec (?jobs ! i))"
    using decode_wf [OF assms(1,2)] f(1) by (auto simp: wf_pipeline_def list_all_iff)
  have "\<not> undecided ?jobs (?jobs ! i)"
  proof
    assume "undecided ?jobs (?jobs ! i)"
    then obtain cond self where c: "jb_condition (cj_spec (?jobs ! i)) = Some cond"
      "map fst (sx_results self) = map (\<lambda>d. cj_name (?jobs ! d)) (cj_needs (?jobs ! i))"
      "\<forall>b. eval (schedule_ctx self) cond \<noteq> Inr (V_Bool b)" unfolding undecided_def by blast
    have chk: "check_job_condition (cj_name (?jobs ! i)) (cj_spec (?jobs ! i)) = Inr ()"
      using f(2) by (auto simp: check_job_def res_bind_eq_Inr)
    have "fst ` set (sx_results self) = set (jb_needs (cj_spec (?jobs ! i)))"
      using f(6) c(2) by (metis image_set mset_eq_setD)
    moreover have "set (referenced_needs cond []) \<subseteq> set (jb_needs (cj_spec (?jobs ! i)))" "min_phase cond \<le> Schedule"
      using chk c(1) by (auto simp: check_job_condition_def check_refs_def find_None_iff not_less split: if_splits option.splits)
    moreover have "wf_expr cond" "check_condition cond = Inr ()" using wf c(1) by (auto simp: wf_job_def wf_condition_def)
    ultimately have "\<exists>b. eval (schedule_ctx self) cond = Inr (V_Bool b)"
      using sched.condition_decides [of cond self] paths_in_results [of cond "sx_results self"]
      by (simp add: schedule_ctx_def)
    with c(3) show False by blast
  qed
  with d show ?thesis by (auto simp: decided_def split: job_state.splits outcome.splits)
qed

theorem compiled_conditions_never_fail_witness:
  "\<exists>s db'. compile null_codec example_pipeline = Some (Inr (sp_pipeline s))
     \<and> release_dependents (env_for s) one_run (example_id 2) (example_id 4) 9 = Inr (1, db')
     \<and> run_jobs db' (example_id 2) (example_id 4) = Inr [(example_id 5, Queued)]
     \<and> snd ([(example_id 5, Queued)] ! 0) \<in> {Blocked, Queued, Terminal Skipped}"
proof -
  obtain c where c: "compile null_codec example_pipeline = Some (Inr c)" using example_pipeline_compiles by blast
  obtain s :: run_spec and j where s: "sp_pipeline s = c" "cp_jobs (sp_pipeline s) = [j]" "cj_needs j = []" "jb_condition (cj_spec j) = None"
    using one_job_pipeline [OF c] by blast
  obtain db' where r: "release_dependents (env_for s) one_run (example_id 2) (example_id 4) 9 = Inr (1, db')"
    and st: "run_jobs db' (example_id 2) (example_id 4) = Inr [(example_id 5, Queued)]"
    using one_run_releases [OF s(2,3)] s(4) by blast
  have cs: "compile null_codec example_pipeline = Some (Inr (sp_pipeline s))" using c s(1) by simp
  from compiled_conditions_never_fail [OF policy_default_in_range decode_example cs one_run_reads(1,2,3) r st, of 0] cs r st
  show ?thesis by auto
qed

end
