(* ===== verification/Attempts.thy ===== *)
theory Attempts
  imports Scheduler
begin

text \<open>
  The life of an attempt in \<open>crates/sentinel-store/src/dispatch.rs\<close>, from the acknowledgement of an
  offer to its end, and the cancellation of jobs and runs.

  An attempt row is a worker's hold on a job: while it is not released, the worker owns the job under
  the attempt's fence.  The operations are those the controller calls: acknowledge, decline and lapse
  an offer, renew a lease, report an event, expire a lease, abandon, reconcile, cancel, and the sweeps.
  \<open>update_attempts\<close> applies an \<open>UPDATE\<close> under the trigger \<open>attempt_update\<close>, which keeps an attempt's
  terms fixed.  The log store is a parameter: \<open>logs\<close> answers whether an attempt's log has its end
  marker.  The rows of a query without \<open>ORDER BY\<close> come in the order of the table.
\<close>

subsection \<open>Constants and codes\<close>

definition OFFER_ACK_MS :: int where "OFFER_ACK_MS = 5000"
definition MAX_HELD_ATTEMPTS :: nat where "MAX_HELD_ATTEMPTS = 64"
definition QUEUE_TIMEOUT_MS :: int where "QUEUE_TIMEOUT_MS = 6 * 60 * 60 * 1000"
definition EXECUTION_GRACE_MS :: int where "EXECUTION_GRACE_MS = 10 * 60 * 1000"
definition SWEEP_BATCH :: nat where "SWEEP_BATCH = 256"
definition SWEEP_LIMIT :: nat where "SWEEP_LIMIT = 256"
definition MAX_SUMMARY_BYTES :: nat where "MAX_SUMMARY_BYTES = 32 * 1024"

datatype log_state = Log_Pending | Log_Incomplete | Log_Complete

primrec log_state_code :: "log_state \<Rightarrow> int" where
  "log_state_code Log_Pending = 0"
| "log_state_code Log_Incomplete = 1"
| "log_state_code Log_Complete = 2"

definition log_state_from_code :: "int \<Rightarrow> store_error + log_state" where
  "log_state_from_code code =
     (if code = 0 then Inr Log_Pending else if code = 1 then Inr Log_Incomplete
      else if code = 2 then Inr Log_Complete else Inl (SE_Corrupt ''log_state''))"

datatype artifact_state = Art_Captured | Art_Absent | Art_Failed

primrec artifact_state_code :: "artifact_state \<Rightarrow> int" where
  "artifact_state_code Art_Captured = 0"
| "artifact_state_code Art_Absent = 1"
| "artifact_state_code Art_Failed = 2"

definition artifact_state_from_code :: "int \<Rightarrow> store_error + artifact_state" where
  "artifact_state_from_code code =
     (if code = 0 then Inr Art_Captured else if code = 1 then Inr Art_Absent
      else if code = 2 then Inr Art_Failed else Inl (SE_Corrupt ''artifact state''))"

type_synonym log_store = "(uuid \<Rightarrow> uuid \<Rightarrow> uuid \<Rightarrow> bool) option"

subsection \<open>Artifacts\<close>

definition artifacts_for_attempt :: "db \<Rightarrow> uuid \<Rightarrow> store_error + (string \<times> artifact_state) list" where
  "artifacts_for_attempt db attempt =
     traverse_from 0 (\<lambda>_ r. res_map (\<lambda>s. (af_name r, s)) (artifact_state_from_code (af_state_code r)))
       (filter (\<lambda>r. af_attempt r = attempt) (db_artifacts db))"

text \<open>The trigger \<open>artifacts_owner\<close> and the constraints of the table.\<close>

definition artifact_insertable :: "db \<Rightarrow> artifact_rec \<Rightarrow> bool" where
  "artifact_insertable db r \<longleftrightarrow>
     length (af_id r) = 16 \<and> 0 \<le> af_entries r \<and> 0 \<le> af_bytes r
     \<and> (af_state_code r = 0) = (af_manifest_version r \<noteq> None)
     \<and> \<not> list_ex (\<lambda>x. af_id x = af_id r \<or> af_attempt x = af_attempt r \<and> af_name x = af_name r) (db_artifacts db)
     \<and> list_ex (\<lambda>a. at_id a = af_attempt r \<and> at_job a = af_job r \<and> at_tenant a = af_tenant r
         \<and> list_ex (\<lambda>j. jr_id j = at_job a \<and> jr_run j = af_run r \<and> jr_tenant j = af_tenant r
             \<and> list_ex (\<lambda>n. rn_id n = jr_run j \<and> rn_tenant n = af_tenant r) (db_runs db)) (db_jobs db))
         (db_attempts db)"

text \<open>The trigger \<open>artifacts_retention_cap\<close>: the retention of the repository's and the tenant's policy.\<close>

definition artifact_cap :: "db \<Rightarrow> uuid \<Rightarrow> uuid \<Rightarrow> int option" where
  "artifact_cap db tenant run =
     (let policy = (\<lambda>repo. Option.bind (find (\<lambda>p. po_tenant p = tenant \<and> po_repo p = repo) (db_policies db))
            po_artifact_retention_ms);
          tp = coalesce (policy []) (db_artifact_default_ms db);
          rp = Option.bind (find (\<lambda>n. rn_id n = run) (db_runs db)) (\<lambda>n. policy (rn_repo n))
      in map_option (\<lambda>t. min (case rp of Some r \<Rightarrow> r | None \<Rightarrow> t) t) tp)"

definition artifacts_record ::
    "store_env \<Rightarrow> db \<Rightarrow> uuid \<Rightarrow> uuid \<Rightarrow> uuid \<Rightarrow> uuid \<Rightarrow> string \<Rightarrow> artifact_state \<Rightarrow> int option \<Rightarrow> int \<Rightarrow> int
     \<Rightarrow> int \<Rightarrow> int \<Rightarrow> store_error + uuid \<times> db" where
  "artifacts_record env db tenant run job attempt name state manifest_version entries bytes retain_until now =
     (if name = [] \<or> length name > 64 then Inl (SE_InvalidInput ''artifact name'')
      else if (state = Art_Captured) \<noteq> (manifest_version \<noteq> None) then Inl (SE_InvalidInput ''artifact manifest'')
      else
        let (aid, db) = fresh_id env db;
            r = \<lparr>af_id = aid, af_tenant = tenant, af_run = run, af_job = job, af_attempt = attempt,
                 af_name = name, af_state_code = artifact_state_code state,
                 af_manifest_version = manifest_version, af_entries = entries, af_bytes = bytes,
                 af_retain_until_ms = (case artifact_cap db tenant run of
                     Some ms \<Rightarrow> min retain_until (now + ms) | None \<Rightarrow> retain_until),
                 af_created_ms = now\<rparr>
        in if \<not> artifact_insertable db r then Inl SE_Sqlite
           else Inr (aid, db\<lparr>db_artifacts := db_artifacts db @ [r]\<rparr>))"

subsection \<open>Updating attempts\<close>

abbreviation live :: "attempt_rec \<Rightarrow> bool" where
  "live a \<equiv> at_released_ms a = None"

text \<open>The trigger \<open>attempt_update\<close> with the \<open>CHECK\<close> constraints of the updated columns.\<close>

definition attempt_terms_ok :: "attempt_rec \<Rightarrow> attempt_rec \<Rightarrow> bool" where
  "attempt_terms_ok old new \<longleftrightarrow>
     at_id new = at_id old \<and> at_job new = at_job old \<and> at_fence new = at_fence old
     \<and> at_worker new = at_worker old \<and> at_cpu_millis new = at_cpu_millis old
     \<and> at_memory_bytes new = at_memory_bytes old \<and> at_disk_bytes new = at_disk_bytes old
     \<and> at_offered_ms new = at_offered_ms old
     \<and> (at_acked_ms old \<noteq> None \<longrightarrow> at_acked_ms new = at_acked_ms old)
     \<and> (\<not> live old \<longrightarrow> at_released_ms new = at_released_ms old \<and> at_lease_until_ms new = at_lease_until_ms old)
     \<and> (at_summary old \<noteq> None \<longrightarrow> at_summary new = at_summary old)
     \<and> at_log_state old \<le> at_log_state new
     \<and> at_log_state new \<in> {0, 1, 2} \<and> pred_option (\<lambda>s. length s \<le> 32768) (at_summary new)"

definition update_attempts ::
    "(attempt_rec \<Rightarrow> bool) \<Rightarrow> (attempt_rec \<Rightarrow> attempt_rec) \<Rightarrow> db \<Rightarrow> store_error + nat \<times> db" where
  "update_attempts P f db =
     (if list_ex (\<lambda>a. P a \<and> \<not> attempt_terms_ok a (f a)) (db_attempts db) then Inl SE_Sqlite
      else let (n, rows) = update_where P f (db_attempts db) in Inr (n, db\<lparr>db_attempts := rows\<rparr>))"

definition worker_is_live :: "db \<Rightarrow> uuid \<Rightarrow> bool" where
  "worker_is_live db worker \<longleftrightarrow> list_ex (\<lambda>w. wk_id w = worker \<and> wk_revoked_ms w = None) (db_workers db)"

subsection \<open>Offers\<close>

definition acknowledge :: "db \<Rightarrow> uuid \<Rightarrow> uuid \<Rightarrow> fence \<Rightarrow> int \<Rightarrow> store_error + int \<times> db" where
  "acknowledge db worker attempt fence now =
     res_bind (update_attempts (\<lambda>a. at_id a = attempt \<and> at_worker a = worker \<and> at_fence a = fence
         \<and> at_acked_ms a = None \<and> live a \<and> worker_is_live db worker)
       (\<lambda>a. a\<lparr>at_acked_ms := Some now\<rparr>) db) (\<lambda>(_, db).
     case find (\<lambda>a. at_id a = attempt \<and> at_worker a = worker \<and> at_fence a = fence
         \<and> worker_is_live db worker) (db_attempts db) of
       Some a \<Rightarrow> if live a then Inr (at_lease_until_ms a, db) else Inl SE_Conflict
     | None \<Rightarrow> Inl SE_NotFound)"

definition run_of :: "db \<Rightarrow> uuid \<Rightarrow> uuid \<Rightarrow> store_error + uuid" where
  "run_of db tenant job =
     res_bind (ok_or SE_NotFound (find (job_at tenant job) (db_jobs db))) (\<lambda>r. typed ''run_id'' (jr_run r))"

definition give_back ::
    "store_env \<Rightarrow> db \<Rightarrow> uuid \<Rightarrow> uuid \<Rightarrow> uuid \<Rightarrow> fence \<Rightarrow> int \<Rightarrow> store_error + job_state \<times> db" where
  "give_back env db attempt tenant job fence now =
     res_bind (get_job db tenant job) (\<lambda>current.
     if jw_fence current \<noteq> fence \<or> jw_state current \<noteq> Leased then Inl SE_Conflict
     else
       res_bind (transition env db tenant job Controller Ev_OfferLapsed now) (\<lambda>(nxt, db).
       let db = db\<lparr>db_jobs := snd (update_where (job_at tenant job)
             (\<lambda>r. r\<lparr>jr_stamps := (jr_stamps r)\<lparr>ts_leased := None\<rparr>\<rparr>) (db_jobs db))\<rparr>
       in res_bind (update_attempts (\<lambda>a. at_id a = attempt) (\<lambda>a. a\<lparr>at_released_ms := Some now\<rparr>) db) (\<lambda>(_, db).
          if jw_cancel_requested current then
            res_bind (transition env db tenant job Controller Ev_CancelBeforeStart now) (\<lambda>(nxt, db).
            res_bind (run_of db tenant job) (\<lambda>run.
            res_bind (release_dependents env db tenant run now) (\<lambda>(_, db).
            Inr (nxt, db))))
          else Inr (nxt, db))))"

definition lapse :: "store_env \<Rightarrow> db \<Rightarrow> uuid \<Rightarrow> int \<Rightarrow> store_error + db" where
  "lapse env db attempt now =
     (case find (\<lambda>a. at_id a = attempt \<and> at_acked_ms a = None \<and> live a) (db_attempts db) of
        None \<Rightarrow> Inl SE_NotFound
      | Some a \<Rightarrow>
          res_bind (typed ''tenant_id'' (at_tenant a)) (\<lambda>tenant.
          res_bind (typed ''job_id'' (at_job a)) (\<lambda>job.
          res_map snd (give_back env db attempt tenant job (at_fence a) now))))"

definition decline ::
    "store_env \<Rightarrow> db \<Rightarrow> uuid \<Rightarrow> uuid \<Rightarrow> fence \<Rightarrow> int \<Rightarrow> store_error + job_state \<times> db" where
  "decline env db worker attempt fence now =
     (case find (\<lambda>a. at_id a = attempt \<and> at_worker a = worker \<and> at_fence a = fence \<and> live a
         \<and> worker_is_live db worker) (db_attempts db) of
        None \<Rightarrow> Inl SE_NotFound
      | Some a \<Rightarrow>
          res_bind (typed ''tenant_id'' (at_tenant a)) (\<lambda>tenant.
          res_bind (typed ''job_id'' (at_job a)) (\<lambda>job.
          give_back env db attempt tenant job fence now)))"

datatype spec_gate_result = Gate_Ready | Gate_Unacknowledged | Gate_Canceled fence | Gate_NotHeld

definition spec_gate :: "db \<Rightarrow> uuid \<Rightarrow> uuid \<Rightarrow> store_error + spec_gate_result" where
  "spec_gate db worker attempt =
     (case find (\<lambda>a. at_id a = attempt \<and> at_worker a = worker \<and> live a \<and> worker_is_live db worker
         \<and> list_ex (\<lambda>j. jr_id j = at_job a) (db_jobs db)) (db_attempts db) of
        None \<Rightarrow> Inr Gate_NotHeld
      | Some a \<Rightarrow>
          (case find (\<lambda>j. jr_id j = at_job a) (db_jobs db) of
             None \<Rightarrow> Inr Gate_NotHeld
           | Some j \<Rightarrow>
               if at_acked_ms a = None then Inr Gate_Unacknowledged
               else if jr_cancel_requested j then
                 res_bind (ok_or (SE_Corrupt ''state_code'') (decode_state (jr_state_code j))) (\<lambda>s.
                 Inr (if s = Leased then Gate_Canceled (at_fence a) else Gate_Ready))
               else Inr Gate_Ready))"

definition unacknowledged :: "db \<Rightarrow> int \<Rightarrow> store_error + uuid list" where
  "unacknowledged db now =
     (let before = i64_clamp (now - OFFER_ACK_MS)
      in traverse_from 0 (\<lambda>_ a. typed ''attempt_id'' (at_id a))
           (take SWEEP_LIMIT (sort_key at_offered_ms
             (filter (\<lambda>a. at_acked_ms a = None \<and> live a \<and> at_offered_ms a \<le> before) (db_attempts db)))))"

subsection \<open>Held attempts\<close>

record held =
  hd_attempt :: uuid
  hd_tenant :: uuid
  hd_job :: uuid
  hd_fence :: fence
  hd_acknowledged :: bool
  hd_lease_until :: int

definition latest_attempt :: "db \<Rightarrow> uuid \<Rightarrow> uuid \<Rightarrow> store_error + uuid option" where
  "latest_attempt db tenant job =
     (case sort_key (\<lambda>a. - sint (at_fence a)) (filter (\<lambda>a. at_job a = job \<and> at_tenant a = tenant) (db_attempts db)) of
        [] \<Rightarrow> Inr None
      | a # _ \<Rightarrow> res_map Some (typed ''attempt_id'' (at_id a)))"

definition held_by :: "db \<Rightarrow> uuid \<Rightarrow> store_error + held list" where
  "held_by db worker =
     traverse_from 0 (\<lambda>_ a.
         res_bind (typed ''attempt_id'' (at_id a)) (\<lambda>attempt.
         res_bind (typed ''tenant_id'' (at_tenant a)) (\<lambda>tenant.
         res_bind (typed ''job_id'' (at_job a)) (\<lambda>job.
         Inr \<lparr>hd_attempt = attempt, hd_tenant = tenant, hd_job = job, hd_fence = at_fence a,
              hd_acknowledged = (at_acked_ms a \<noteq> None), hd_lease_until = at_lease_until_ms a\<rparr>))))
       (sort_key at_offered_ms (sort_key at_id
         (filter (\<lambda>a. at_worker a = worker \<and> live a) (db_attempts db))))"

fun renew_each ::
    "db \<Rightarrow> uuid \<Rightarrow> int \<Rightarrow> int \<Rightarrow> uuid list \<Rightarrow> uuid list \<Rightarrow> store_error + uuid list \<times> db" where
  "renew_each db worker until now [] stop = Inr (stop, db)"
| "renew_each db worker until now (attempt # held) stop =
     res_bind (update_attempts (\<lambda>a. at_id a = attempt \<and> at_worker a = worker \<and> at_acked_ms a \<noteq> None
         \<and> live a \<and> now \<le> at_lease_until_ms a)
       (\<lambda>a. a\<lparr>at_lease_until_ms := max (at_lease_until_ms a) until\<rparr>) db) (\<lambda>(n, db).
     renew_each db worker until now held (if n = 0 then stop @ [attempt] else stop))"

definition renew ::
    "db \<Rightarrow> uuid \<Rightarrow> uuid list \<Rightarrow> int \<Rightarrow> int \<Rightarrow> store_error + (int \<times> uuid list) \<times> db" where
  "renew db worker held lease_ms now =
     (if length held > MAX_HELD_ATTEMPTS then Inl (SE_InvalidInput ''held attempts'')
      else if list_ex (\<lambda>w. wk_id w = worker \<and> wk_revoked_ms w \<noteq> None) (db_workers db) then Inl SE_Forbidden
      else
        let until = i64_clamp (now + lease_ms)
        in res_map (\<lambda>(stop, db). ((until, stop), db)) (renew_each db worker until now held []))"

subsection \<open>Ending an attempt\<close>

definition artifact_due :: "artifact_when \<Rightarrow> bool \<Rightarrow> bool" where
  "artifact_due when passed =
     (case when of WhenSuccess \<Rightarrow> passed | WhenFailure \<Rightarrow> \<not> passed | WhenAlways \<Rightarrow> True)"

fun coverage_of ::
    "(string \<times> artifact_state) list \<Rightarrow> bool \<Rightarrow> artifact list \<Rightarrow> artifact list \<Rightarrow> bool \<Rightarrow> artifact list \<times> bool" where
  "coverage_of settled passed [] missing required_lost = (missing, required_lost)"
| "coverage_of settled passed (decl # decls) missing required_lost =
     (if \<not> artifact_due (ar_when decl) passed then coverage_of settled passed decls missing required_lost
      else case find (\<lambda>(n, _). n = ar_name decl) settled of
        None \<Rightarrow> coverage_of settled passed decls (missing @ [decl]) (required_lost \<or> ar_required decl)
      | Some (_, state) \<Rightarrow>
          coverage_of settled passed decls missing
            (required_lost \<or> ar_required decl \<and> state \<noteq> Art_Captured))"

definition due_coverage ::
    "db \<Rightarrow> run_spec \<Rightarrow> nat \<Rightarrow> uuid \<Rightarrow> bool \<Rightarrow> store_error + artifact list \<times> bool" where
  "due_coverage db spec spec_index attempt passed =
     (if spec_index \<ge> length (cp_jobs (sp_pipeline spec)) then Inl (SE_Corrupt ''spec_index'')
      else res_map (\<lambda>settled. coverage_of settled passed
          (jb_artifacts (cj_spec (cp_jobs (sp_pipeline spec) ! spec_index))) [] False)
        (artifacts_for_attempt db attempt))"

definition is_finishing :: "event \<Rightarrow> bool" where
  "is_finishing ev =
     (case ev of Ev_Passed \<Rightarrow> True | Ev_Failed _ \<Rightarrow> True | Ev_LeaseExpired \<Rightarrow> True
      | Ev_WorkerLost \<Rightarrow> True | Ev_Reconciled \<Rightarrow> True | _ \<Rightarrow> False)"

text \<open>\<open>retain_secs.saturating_mul(1000) as i64\<close>.\<close>

definition retain_ms :: "nat \<Rightarrow> int" where
  "retain_ms secs = sint (of_nat (min (secs * 1000) (2 ^ 64 - 1)) :: u64)"

fun record_missing ::
    "store_env \<Rightarrow> db \<Rightarrow> uuid \<Rightarrow> uuid \<Rightarrow> uuid \<Rightarrow> uuid \<Rightarrow> artifact list \<Rightarrow> int \<Rightarrow> store_error + db" where
  "record_missing env db tenant run job attempt [] now = Inr db"
| "record_missing env db tenant run job attempt (decl # missing) now =
     res_bind (artifacts_record env db tenant run job attempt (ar_name decl) Art_Failed None 0 0
       (i64_clamp (now + retain_ms (ar_retain_secs decl))) now) (\<lambda>(_, db).
     record_missing env db tenant run job attempt missing now)"

text \<open>The three parts of \<open>finish\<close>: what the event becomes, its transition and what follows, the whole.\<close>

definition finish_plan ::
    "store_env \<Rightarrow> db \<Rightarrow> uuid \<Rightarrow> uuid \<Rightarrow> nat \<Rightarrow> uuid \<Rightarrow> event
     \<Rightarrow> store_error + artifact list \<times> run_spec option \<times> event" where
  "finish_plan env db tenant run index attempt ev =
     (if is_finishing ev then
        res_bind (get_run_spec env db tenant run) (\<lambda>spec.
        res_bind (due_coverage db spec index attempt (ev = Ev_Passed)) (\<lambda>(missing, lost).
        Inr (missing, Some spec, if ev = Ev_Passed \<and> lost then Ev_Failed FC_Publication else ev)))
      else Inr ([], None, ev))"

definition attempt_released :: "int \<Rightarrow> bool \<Rightarrow> attempt_rec \<Rightarrow> attempt_rec" where
  "attempt_released now ended a =
     a\<lparr>at_released_ms := Some now,
       at_log_state := (if at_log_state a = 0
         then log_state_code (if ended then Log_Complete else Log_Incomplete)
         else at_log_state a)\<rparr>"

definition finish_apply ::
    "store_env \<Rightarrow> db \<Rightarrow> uuid \<Rightarrow> uuid \<Rightarrow> uuid \<Rightarrow> uuid \<Rightarrow> actor \<Rightarrow> artifact list \<Rightarrow> run_spec option \<Rightarrow> event
     \<Rightarrow> int \<Rightarrow> log_store \<Rightarrow> store_error + job_state \<times> db" where
  "finish_apply env db tenant run job attempt actor missing spec ev now logs =
     res_bind (transition env db tenant job actor ev now) (\<lambda>(nxt, db).
     if \<not> is_terminal nxt then Inr (nxt, db)
     else
       let ended = (case logs of Some has_end \<Rightarrow> has_end run job attempt | None \<Rightarrow> False)
       in res_bind (update_attempts (\<lambda>a. at_id a = attempt)
            (attempt_released now ended) db) (\<lambda>(_, db).
          res_bind (record_missing env db tenant run job attempt missing now) (\<lambda>db.
          res_bind (release_dependents_with env db tenant run now spec) (\<lambda>(_, db).
          Inr (nxt, db)))))"

definition finish ::
    "store_env \<Rightarrow> db \<Rightarrow> uuid \<Rightarrow> actor \<Rightarrow> event \<Rightarrow> int \<Rightarrow> log_store \<Rightarrow> store_error + job_state \<times> db" where
  "finish env db attempt actor ev now logs =
     (case find (\<lambda>a. at_id a = attempt \<and> live a \<and> list_ex (\<lambda>j. jr_id j = at_job a) (db_jobs db)) (db_attempts db) of
        None \<Rightarrow> Inl SE_NotFound
      | Some a \<Rightarrow>
          (case find (\<lambda>j. jr_id j = at_job a) (db_jobs db) of
             None \<Rightarrow> Inl SE_NotFound
           | Some j \<Rightarrow>
               res_bind (typed ''tenant_id'' (at_tenant a)) (\<lambda>tenant.
               res_bind (typed ''job_id'' (at_job a)) (\<lambda>job.
               res_bind (typed ''run_id'' (jr_run j)) (\<lambda>run.
               if \<not> (0 \<le> jr_spec_index j \<and> jr_spec_index j < 2 ^ 32) then Inl (SE_Corrupt ''spec_index'')
               else
                 res_bind (finish_plan env db tenant run (nat (jr_spec_index j)) attempt ev) (\<lambda>(missing, spec, ev).
                 finish_apply env db tenant run job attempt actor missing spec ev now logs))))))"

definition log_ended :: "db \<Rightarrow> uuid \<Rightarrow> store_error + db" where
  "log_ended db attempt =
     res_map snd (update_attempts
       (\<lambda>a. at_id a = attempt \<and> at_log_state a \<noteq> log_state_code Log_Complete)
       (\<lambda>a. a\<lparr>at_log_state := log_state_code Log_Complete\<rparr>) db)"

definition report ::
    "store_env \<Rightarrow> db \<Rightarrow> uuid \<Rightarrow> uuid \<Rightarrow> fence \<Rightarrow> event \<Rightarrow> u8 list option \<Rightarrow> int \<Rightarrow> log_store
     \<Rightarrow> store_error + job_state \<times> db" where
  "report env db worker attempt fence ev summary now logs =
     (case find (\<lambda>a. at_id a = attempt \<and> at_worker a = worker \<and> at_fence a = fence \<and> at_acked_ms a \<noteq> None
         \<and> live a \<and> worker_is_live db worker \<and> list_ex (\<lambda>j. jr_id j = at_job a) (db_jobs db)) (db_attempts db) of
        None \<Rightarrow> Inl SE_NotFound
      | Some a \<Rightarrow>
          let cancel_requested = list_ex (\<lambda>j. jr_id j = at_job a \<and> jr_cancel_requested j) (db_jobs db);
              ev = (if ev = Ev_Failed FC_Canceled \<and> \<not> cancel_requested then Ev_Failed FC_Runtime else ev);
              summary = (case summary of
                  Some s \<Rightarrow> if length s \<le> MAX_SUMMARY_BYTES then Some s else None | None \<Rightarrow> None)
          in res_bind (finish env db attempt (Worker fence) ev now logs) (\<lambda>(nxt, db).
             if summary \<noteq> None \<and> is_terminal nxt then
               res_map (\<lambda>(_, db). (nxt, db)) (update_attempts
                 (\<lambda>a. at_id a = attempt \<and> at_summary a = None) (\<lambda>a. a\<lparr>at_summary := summary\<rparr>) db)
             else Inr (nxt, db)))"

definition attempt_summary :: "db \<Rightarrow> uuid \<Rightarrow> uuid \<Rightarrow> store_error + u8 list option" where
  "attempt_summary db tenant attempt =
     res_map at_summary (ok_or SE_NotFound
       (find (\<lambda>a. at_id a = attempt \<and> at_tenant a = tenant) (db_attempts db)))"

subsection \<open>Cancellation\<close>

datatype cancelled = Cancelled_Terminal | Cancelled_Requested | Cancelled_AlreadyTerminal

definition cancel_one :: "store_env \<Rightarrow> db \<Rightarrow> uuid \<Rightarrow> uuid \<Rightarrow> int \<Rightarrow> store_error + cancelled \<times> db" where
  "cancel_one env db tenant job now =
     res_bind (get_job db tenant job) (\<lambda>row.
     if is_terminal (jw_state row) then Inr (Cancelled_AlreadyTerminal, db)
     else
       res_bind (store_request_cancel db tenant job) (\<lambda>(unstarted, db).
       if unstarted then
         res_map (\<lambda>(_, db). (Cancelled_Terminal, db))
           (transition env db tenant job Controller Ev_CancelBeforeStart now)
       else Inr (Cancelled_Requested, db)))"

definition cancel :: "store_env \<Rightarrow> db \<Rightarrow> uuid \<Rightarrow> uuid \<Rightarrow> int \<Rightarrow> store_error + cancelled \<times> db" where
  "cancel env db tenant job now =
     res_bind (cancel_one env db tenant job now) (\<lambda>(outcome, db).
     if outcome = Cancelled_Terminal then
       res_bind (run_of db tenant job) (\<lambda>run.
       res_map (\<lambda>(_, db). (outcome, db)) (release_dependents env db tenant run now))
     else Inr (outcome, db))"

fun cancel_each ::
    "store_env \<Rightarrow> db \<Rightarrow> uuid \<Rightarrow> (uuid \<times> job_state) list \<Rightarrow> int \<Rightarrow> nat \<Rightarrow> store_error + nat \<times> db" where
  "cancel_each env db tenant [] now n = Inr (n, db)"
| "cancel_each env db tenant ((job, state) # rest) now n =
     (if is_terminal state then cancel_each env db tenant rest now n
      else res_bind (cancel_one env db tenant job now) (\<lambda>(outcome, db).
        cancel_each env db tenant rest now (if outcome \<noteq> Cancelled_AlreadyTerminal then Suc n else n)))"

definition cancel_run :: "store_env \<Rightarrow> db \<Rightarrow> uuid \<Rightarrow> uuid \<Rightarrow> int \<Rightarrow> store_error + nat \<times> db" where
  "cancel_run env db tenant run now =
     (let db = db\<lparr>db_runs := snd (update_where (\<lambda>r. rn_id r = run \<and> rn_tenant r = tenant)
           (\<lambda>r. r\<lparr>rn_cancel_requested := True\<rparr>) (db_runs db))\<rparr>
      in res_bind (run_jobs db tenant run) (\<lambda>jobs.
         res_bind (cancel_each env db tenant jobs now 0) (\<lambda>(n, db).
         res_bind (release_dependents env db tenant run now) (\<lambda>(_, db).
         Inr (n, db)))))"

definition cancel_wanted :: "db \<Rightarrow> uuid \<Rightarrow> attempt_rec \<Rightarrow> bool" where
  "cancel_wanted db worker a \<longleftrightarrow> at_worker a = worker \<and> live a
     \<and> list_ex (\<lambda>j. jr_id j = at_job a \<and> jr_cancel_requested j) (db_jobs db)"

definition cancel_requested :: "db \<Rightarrow> uuid \<Rightarrow> uuid list \<Rightarrow> uuid list" where
  "cancel_requested db worker held =
     filter (\<lambda>attempt. list_ex (\<lambda>a. at_id a = attempt \<and> cancel_wanted db worker a) (db_attempts db)) held"

definition cancel_pending :: "db \<Rightarrow> uuid \<Rightarrow> store_error + uuid list" where
  "cancel_pending db worker =
     traverse_from 0 (\<lambda>_ a. typed ''attempt_id'' (at_id a)) (filter (cancel_wanted db worker) (db_attempts db))"

subsection \<open>Expiry and sweeps\<close>

definition job_of_attempt :: "db \<Rightarrow> attempt_rec \<Rightarrow> job_rec option" where
  "job_of_attempt db a = find (\<lambda>j. jr_id j = at_job a) (db_jobs db)"

definition lease_over :: "int \<Rightarrow> attempt_rec \<Rightarrow> bool" where
  "lease_over now a \<longleftrightarrow> live a \<and> at_acked_ms a \<noteq> None \<and> at_lease_until_ms a < now"

definition overrun :: "db \<Rightarrow> int \<Rightarrow> attempt_rec \<Rightarrow> bool" where
  "overrun db now a \<longleftrightarrow> live a
     \<and> (case (at_acked_ms a, job_of_attempt db a) of
          (Some acked, Some j) \<Rightarrow> acked + jr_timeout_ms j + EXECUTION_GRACE_MS < now
        | _ \<Rightarrow> False)"

definition scoped :: "db \<Rightarrow> attempt_rec \<Rightarrow> store_error + (uuid \<times> uuid \<times> uuid) list" where
  "scoped db a =
     (case job_of_attempt db a of
        None \<Rightarrow> Inr []
      | Some j \<Rightarrow>
          res_bind (typed ''attempt_id'' (at_id a)) (\<lambda>attempt.
          res_bind (typed ''run_id'' (jr_run j)) (\<lambda>run.
          res_bind (typed ''job_id'' (jr_id j)) (\<lambda>job. Inr [(attempt, run, job)]))))"

definition expired_scoped :: "db \<Rightarrow> int \<Rightarrow> store_error + (uuid \<times> uuid \<times> uuid) list" where
  "expired_scoped db now =
     res_bind (traverse_from 0 (\<lambda>_. scoped db) (take SWEEP_BATCH (sort_key at_lease_until_ms
         (filter (\<lambda>a. lease_over now a \<and> job_of_attempt db a \<noteq> None) (db_attempts db))))) (\<lambda>out.
     res_bind (traverse_from 0 (\<lambda>_. scoped db) (take SWEEP_BATCH
         (filter (overrun db now) (db_attempts db)))) (\<lambda>more.
     Inr (concat out @ filter (\<lambda>row. fst row \<notin> fst ` set (concat out)) (concat more))))"

definition expired :: "db \<Rightarrow> int \<Rightarrow> store_error + uuid list" where
  "expired db now = res_map (map fst) (expired_scoped db now)"

definition expire :: "store_env \<Rightarrow> db \<Rightarrow> uuid \<Rightarrow> int \<Rightarrow> log_store \<Rightarrow> store_error + job_state \<times> db" where
  "expire env db attempt now logs =
     (if \<not> list_ex (\<lambda>a. at_id a = attempt \<and> job_of_attempt db a \<noteq> None
          \<and> (lease_over now a \<or> overrun db now a)) (db_attempts db)
      then Inl SE_Conflict
      else finish env db attempt Controller Ev_LeaseExpired now logs)"

text \<open>A savepoint: an error leaves the database as it was.\<close>

definition isolated :: "db \<Rightarrow> store_error + 'a \<times> db \<Rightarrow> (store_error + 'a) \<times> db" where
  "isolated db result = (case result of Inr (x, db') \<Rightarrow> (Inr x, db') | Inl e \<Rightarrow> (Inl e, db))"

record swept =
  sw_done :: nat
  sw_failed :: nat
  sw_error :: "store_error option"

definition swept_default :: swept where
  "swept_default = \<lparr>sw_done = 0, sw_failed = 0, sw_error = None\<rparr>"

definition swept_record :: "swept \<Rightarrow> store_error + 'a \<Rightarrow> swept" where
  "swept_record sw result =
     (case result of
        Inr _ \<Rightarrow> sw\<lparr>sw_done := Suc (sw_done sw)\<rparr>
      | Inl e \<Rightarrow>
          if e = SE_Conflict \<or> e = SE_NotFound then sw
          else sw\<lparr>sw_failed := Suc (sw_failed sw), sw_error := coalesce (sw_error sw) (Some e)\<rparr>)"

fun expire_batch :: "store_env \<Rightarrow> db \<Rightarrow> (uuid \<times> bool) list \<Rightarrow> int \<Rightarrow> swept \<Rightarrow> swept \<times> db" where
  "expire_batch env db [] now sw = (sw, db)"
| "expire_batch env db ((attempt, ended) # rest) now sw =
     (let (result, db) = isolated db (res_bind (expire env db attempt now None) (\<lambda>(state, db).
            if ended then res_map (\<lambda>db. (state, db)) (log_ended db attempt) else Inr (state, db)))
      in expire_batch env db rest now (swept_record sw result))"

fun lapse_each :: "store_env \<Rightarrow> db \<Rightarrow> uuid list \<Rightarrow> (uuid \<Rightarrow> bool) \<Rightarrow> int \<Rightarrow> swept \<Rightarrow> swept \<times> db" where
  "lapse_each env db [] deferred now sw = (sw, db)"
| "lapse_each env db (attempt # rest) deferred now sw =
     (if deferred attempt then lapse_each env db rest deferred now sw
      else let (result, db) = isolated db (res_map (\<lambda>db. ((), db)) (lapse env db attempt now))
           in lapse_each env db rest deferred now (swept_record sw result))"

definition lapse_due :: "store_env \<Rightarrow> db \<Rightarrow> int \<Rightarrow> (uuid \<Rightarrow> bool) \<Rightarrow> store_error + swept \<times> db" where
  "lapse_due env db now deferred =
     res_map (\<lambda>offers. lapse_each env db offers deferred now swept_default) (unacknowledged db now)"

definition abandon ::
    "store_env \<Rightarrow> db \<Rightarrow> uuid \<Rightarrow> uuid \<Rightarrow> fence \<Rightarrow> int \<Rightarrow> log_store \<Rightarrow> store_error + job_state \<times> db" where
  "abandon env db worker attempt fence now logs =
     (case find (\<lambda>a. at_id a = attempt \<and> at_worker a = worker \<and> at_fence a = fence \<and> live a) (db_attempts db) of
        None \<Rightarrow> Inl SE_NotFound
      | Some a \<Rightarrow>
          if at_acked_ms a = None then
            res_bind (lapse env db attempt now) (\<lambda>db.
            res_bind (typed ''tenant_id'' (at_tenant a)) (\<lambda>tenant.
            res_bind (typed ''job_id'' (at_job a)) (\<lambda>job.
            res_map (\<lambda>row. (jw_state row, db)) (get_job db tenant job))))
          else finish env db attempt Reconciler Ev_Reconciled now logs)"

fun settle_revoked ::
    "store_env \<Rightarrow> db \<Rightarrow> (uuid \<times> bool) list \<Rightarrow> int \<Rightarrow> log_store \<Rightarrow> store_error + db" where
  "settle_revoked env db [] now logs = Inr db"
| "settle_revoked env db ((attempt, acked) # rest) now logs =
     res_bind (typed ''attempt_id'' attempt) (\<lambda>attempt.
     res_bind (if acked then res_map snd (finish env db attempt Reconciler Ev_Reconciled now logs)
               else lapse env db attempt now) (\<lambda>db.
     settle_revoked env db rest now logs))"

definition reconcile_revoked :: "store_env \<Rightarrow> db \<Rightarrow> int \<Rightarrow> log_store \<Rightarrow> store_error + nat \<times> db" where
  "reconcile_revoked env db now logs =
     (let held = take SWEEP_BATCH (map (\<lambda>a. (at_id a, at_acked_ms a \<noteq> None)) (filter (\<lambda>a. live a
            \<and> list_ex (\<lambda>w. wk_id w = at_worker a \<and> wk_revoked_ms w \<noteq> None) (db_workers db)) (db_attempts db)))
      in res_map (\<lambda>db. (length held, db)) (settle_revoked env db held now logs))"

record reconciled =
  re_expired :: nat
  re_lapsed :: nat
  re_orphaned :: nat

fun expire_each :: "store_env \<Rightarrow> db \<Rightarrow> uuid list \<Rightarrow> int \<Rightarrow> log_store \<Rightarrow> store_error + db" where
  "expire_each env db [] now logs = Inr db"
| "expire_each env db (attempt # rest) now logs =
     res_bind (expire env db attempt now logs) (\<lambda>(_, db). expire_each env db rest now logs)"

fun lapse_all :: "store_env \<Rightarrow> db \<Rightarrow> uuid list \<Rightarrow> int \<Rightarrow> store_error + db" where
  "lapse_all env db [] now = Inr db"
| "lapse_all env db (attempt # rest) now =
     res_bind (lapse env db attempt now) (\<lambda>db. lapse_all env db rest now)"

definition reconcile_startup :: "store_env \<Rightarrow> db \<Rightarrow> int \<Rightarrow> log_store \<Rightarrow> store_error + reconciled \<times> db" where
  "reconcile_startup env db now logs =
     res_bind (expired db now) (\<lambda>over.
     res_bind (expire_each env db over now logs) (\<lambda>db.
     res_bind (unacknowledged db now) (\<lambda>offers.
     res_bind (lapse_all env db offers now) (\<lambda>db.
     res_bind (reconcile_revoked env db now logs) (\<lambda>(orphaned, db).
     Inr (\<lparr>re_expired = length over, re_lapsed = length offers, re_orphaned = orphaned\<rparr>, db))))))"

fun time_out_each :: "store_env \<Rightarrow> db \<Rightarrow> (uuid \<times> uuid) list \<Rightarrow> int \<Rightarrow> nat \<Rightarrow> store_error + nat \<times> db" where
  "time_out_each env db [] now n = Inr (n, db)"
| "time_out_each env db ((tenant, job) # rest) now n =
     res_bind (typed ''tenant_id'' tenant) (\<lambda>tenant.
     res_bind (typed ''job_id'' job) (\<lambda>job.
     res_bind (transition env db tenant job Controller Ev_QueueTimedOut now) (\<lambda>(_, db).
     res_bind (run_of db tenant job) (\<lambda>run.
     res_bind (release_dependents env db tenant run now) (\<lambda>(_, db).
     time_out_each env db rest now (Suc n))))))"

definition queued_before :: "int \<Rightarrow> job_rec \<Rightarrow> bool" where
  "queued_before cutoff r \<longleftrightarrow> jr_state_code r = 1
     \<and> (case ts_queued (jr_stamps r) of Some t \<Rightarrow> t \<le> cutoff | None \<Rightarrow> False)"

definition sweep_queue_timeouts :: "store_env \<Rightarrow> db \<Rightarrow> int \<Rightarrow> store_error + nat \<times> db" where
  "sweep_queue_timeouts env db now =
     (let cutoff = i64_clamp (now - QUEUE_TIMEOUT_MS);
          rows = take SWEEP_BATCH (sort_key (\<lambda>r. case ts_queued (jr_stamps r) of Some t \<Rightarrow> t | None \<Rightarrow> 0)
            (filter (queued_before cutoff) (db_jobs db)))
      in time_out_each env db (map (\<lambda>r. (jr_tenant r, jr_id r)) rows) now 0)"

end
