(* ===== verification/Lease_Safety.thy ===== *)
theory Lease_Safety
  imports Attempts
begin

text \<open>
  Who holds a job.  \<open>leases_ok\<close> ties the two tables together: a job is owned by a worker exactly while
  one attempt of it is not released, and that attempt carries the job's fence.  The two rows are written
  by different statements of one transaction, so the invariant is broken between them; \<open>leases_end\<close> and
  \<open>leases_begin\<close> are the two places where both have to move together, and every other statement keeps
  the view of the tables the invariant reads.  The operations of \<open>Attempts\<close>, \<open>Job_Store\<close> and \<open>Scheduler\<close>
  keep it, in any order.
\<close>

subsection \<open>The invariant\<close>

definition owned :: "job_rec \<Rightarrow> bool" where
  "owned r \<longleftrightarrow> (case decode_state (jr_state_code r) of Some s \<Rightarrow> is_worker_owned s | None \<Rightarrow> False)"

definition covered :: "job_rec list \<Rightarrow> attempt_rec \<Rightarrow> bool" where
  "covered jobs a \<longleftrightarrow> (\<exists>r\<in>set jobs. jr_id r = at_job a \<and> jr_tenant r = at_tenant a
     \<and> at_fence a \<le> jr_fence r \<and> (live a \<longrightarrow> owned r \<and> at_fence a = jr_fence r))"

definition leases_ok :: "db \<Rightarrow> bool" where
  "leases_ok db \<longleftrightarrow> jobs_ok db \<and> distinct (map at_id (db_attempts db))
     \<and> distinct (map (\<lambda>a. (at_job a, at_fence a)) (db_attempts db))
     \<and> (\<forall>a\<in>set (db_attempts db). covered (db_jobs db) a)
     \<and> (\<forall>r\<in>set (db_jobs db). owned r \<longrightarrow> (\<exists>a\<in>set (db_attempts db). live a \<and> at_job a = jr_id r))"

lemma leases_jobs_ok: "leases_ok db \<Longrightarrow> jobs_ok db"
  by (simp add: leases_ok_def)

subsection \<open>Updates that keep the view\<close>

abbreviation same_job :: "job_rec \<Rightarrow> job_rec \<Rightarrow> bool" where
  "same_job r r' \<equiv> jr_id r' = jr_id r \<and> jr_tenant r' = jr_tenant r \<and> jr_fence r' = jr_fence r \<and> owned r' = owned r"

abbreviation same_attempt :: "attempt_rec \<Rightarrow> attempt_rec \<Rightarrow> bool" where
  "same_attempt a a' \<equiv> at_id a' = at_id a \<and> at_tenant a' = at_tenant a \<and> at_job a' = at_job a
     \<and> at_fence a' = at_fence a \<and> at_released_ms a' = at_released_ms a"

lemma leases_keep:
  assumes "leases_ok db" "db_jobs db' = map g (db_jobs db)" "db_attempts db' = map f (db_attempts db)"
    and g: "\<And>r. r \<in> set (db_jobs db) \<Longrightarrow> same_job r (g r)"
    and f: "\<And>a. a \<in> set (db_attempts db) \<Longrightarrow> same_attempt a (f a)"
  shows "leases_ok db'"
proof -
  note ok = assms(1) [unfolded leases_ok_def]
  have ids: "map jr_id (map g (db_jobs db)) = map jr_id (db_jobs db)" using g by simp
  have aids: "map at_id (map f (db_attempts db)) = map at_id (db_attempts db)"
    "map (\<lambda>a. (at_job a, at_fence a)) (map f (db_attempts db)) = map (\<lambda>a. (at_job a, at_fence a)) (db_attempts db)"
    using f by simp_all
  have cov: "covered (db_jobs db') (f a)" if a: "a \<in> set (db_attempts db)" for a
  proof -
    obtain r where r: "r \<in> set (db_jobs db)" "jr_id r = at_job a" "jr_tenant r = at_tenant a"
      "at_fence a \<le> jr_fence r" "live a \<longrightarrow> owned r \<and> at_fence a = jr_fence r"
      using ok a unfolding covered_def by blast
    have "g r \<in> set (db_jobs db')" using r(1) by (simp add: assms(2))
    then show ?thesis unfolding covered_def using r f [OF a] g [OF r(1)] by (intro bexI [of _ "g r"]) auto
  qed
  have own: "\<exists>a\<in>set (db_attempts db'). live a \<and> at_job a = jr_id r'" if "r' \<in> set (db_jobs db')" "owned r'" for r'
  proof -
    obtain r where r: "r \<in> set (db_jobs db)" "r' = g r" using \<open>r' \<in> set (db_jobs db')\<close> by (auto simp: assms(2))
    then obtain a where a: "a \<in> set (db_attempts db)" "live a" "at_job a = jr_id r"
      using ok g [OF r(1)] \<open>owned r'\<close> by blast
    have "f a \<in> set (db_attempts db')" using a(1) by (simp add: assms(3))
    then show ?thesis using a f [OF a(1)] g [OF r(1)] r(2) by (intro bexI [of _ "f a"]) auto
  qed
  show ?thesis unfolding leases_ok_def
  proof (intro conjI)
    show "jobs_ok db'" unfolding assms(2) ids using ok by blast
    show "distinct (map at_id (db_attempts db'))" "distinct (map (\<lambda>a. (at_job a, at_fence a)) (db_attempts db'))"
      unfolding assms(3) aids using ok by blast+
    show "\<forall>a\<in>set (db_attempts db'). covered (db_jobs db') a" using cov by (auto simp: assms(3))
  qed (use own in blast)
qed

lemma leases_cong:
  "leases_ok db \<Longrightarrow> db_jobs db' = db_jobs db \<Longrightarrow> db_attempts db' = db_attempts db \<Longrightarrow> leases_ok db'"
  by (simp add: leases_ok_def)

lemma owned_moved: "owned (job_moved s f failure now r) = is_worker_owned s"
  by (simp add: owned_def job_moved_def state_code.code_round_trip)

lemma job_moved_fence [simp]: "jr_fence (job_moved s f failure now r) = f"
  by (simp add: job_moved_def)

lemma owned_decoded: "decode_job r = Inr row \<Longrightarrow> owned r = is_worker_owned (jw_state row)"
  by (simp add: owned_def decode_job_eq_Inr state_code.code_round_trip)

lemma step_fence: "job_step c a ev c' \<Longrightarrow> (\<And>f. ev \<noteq> Ev_Leased f) \<Longrightarrow> jc_fence c' = jc_fence c"
  by (auto elim!: job_step.cases)

lemma only_checks_leases: "only_checks db db' \<Longrightarrow> leases_ok db' = leases_ok db"
  by (auto simp: leases_ok_def only_checks_def)

text \<open>A transition between two states that are both owned or both not.\<close>

lemma transition_leases:
  assumes "transition env db tenant job a ev now = Inr (s, db')" "leases_ok db" "\<And>f. ev \<noteq> Ev_Leased f"
    and "\<And>row. read_job_row db tenant job = Inr row \<Longrightarrow> is_worker_owned (jw_state row) = is_worker_owned s"
  shows "leases_ok db'"
proof (rule transition_cases [OF assms(1) leases_jobs_ok [OF assms(2)]])
  fix r row c
  assume r: "r \<in> set (db_jobs db)" "job_at tenant job r" "decode_job r = Inr row"
    and step: "job_step (control_of row) a ev c"
    and db': "only_checks (db\<lparr>db_jobs := map (\<lambda>x. if jr_id x = job
        then job_moved s (jc_fence c) (failure_of_event ev) now x else x) (db_jobs db)\<rparr>) db'"
  have rd: "read_job_row db tenant job = Inr row"
    using find_job [OF leases_jobs_ok [OF assms(2)] r(1,2)] r(3) by (simp add: read_job_row_def)
  have own: "owned r = is_worker_owned s" using assms(4) [OF rd] owned_decoded [OF r(3)] by simp
  have f: "jc_fence c = jr_fence r"
    using step_fence [OF step assms(3)] r(3) by (simp add: control_of_def decode_job_eq_Inr)
  have only: "x = r" if "x \<in> set (db_jobs db)" "jr_id x = job" for x
    using keyed_inj [OF leases_jobs_ok [OF assms(2)] that(1) r(1)] that(2) r(2) by simp
  have "leases_ok (db\<lparr>db_jobs := map (\<lambda>x. if jr_id x = job
        then job_moved s (jc_fence c) (failure_of_event ev) now x else x) (db_jobs db)\<rparr>)"
  proof (rule leases_keep [OF assms(2), where f = id])
    show "same_job x (if jr_id x = job then job_moved s (jc_fence c) (failure_of_event ev) now x else x)"
      if "x \<in> set (db_jobs db)" for x
      using only [OF that] own f by (auto simp: owned_moved)
  qed simp_all
  then show ?thesis using only_checks_leases [OF db'] by simp
qed

lemma transition_attempts:
  "transition env db tenant job a ev now = Inr (s, db') \<Longrightarrow> jobs_ok db \<Longrightarrow> db_attempts db' = db_attempts db"
  by (erule (1) transition_cases) (auto simp: only_checks_def)

lemma update_attempts_eq:
  "update_attempts P f db = Inr (n, db') \<longleftrightarrow>
     (\<forall>a\<in>set (db_attempts db). P a \<longrightarrow> attempt_terms_ok a (f a)) \<and> n = length (filter P (db_attempts db))
     \<and> db' = db\<lparr>db_attempts := map (\<lambda>a. if P a then f a else a) (db_attempts db)\<rparr>"
  by (auto simp: update_attempts_def update_where_def list_ex_iff)

lemma update_attempts_leases:
  assumes "update_attempts P f db = Inr (n, db')" "leases_ok db" "\<And>a. P a \<Longrightarrow> same_attempt a (f a)"
  shows "leases_ok db'"
  using assms(1) unfolding update_attempts_eq
  by (intro leases_keep [OF assms(2), where g = id and f = "\<lambda>a. if P a then f a else a"]) (use assms(3) in auto)

subsection \<open>The two tables move together\<close>

text \<open>The end of an attempt: its job is owned no more and the attempt is released.\<close>

lemma leases_end:
  assumes "leases_ok db" "a \<in> set (db_attempts db)" "live a"
    and "db_jobs db' = map g (db_jobs db)" "db_attempts db' = map h (db_attempts db)"
    and g: "\<And>r. r \<in> set (db_jobs db) \<Longrightarrow> jr_id (g r) = jr_id r \<and> jr_tenant (g r) = jr_tenant r \<and> jr_fence (g r) = jr_fence r
        \<and> owned (g r) = (owned r \<and> jr_id r \<noteq> at_job a)"
    and h: "\<And>x. x \<in> set (db_attempts db) \<Longrightarrow> at_id (h x) = at_id x \<and> at_tenant (h x) = at_tenant x \<and> at_job (h x) = at_job x
        \<and> at_fence (h x) = at_fence x \<and> live (h x) = (live x \<and> at_id x \<noteq> at_id a)"
  shows "leases_ok db'"
proof -
  note ok = assms(1) [unfolded leases_ok_def]
  have ids: "map jr_id (map g (db_jobs db)) = map jr_id (db_jobs db)"
    unfolding map_map by (rule map_cong [OF refl]) (use g in auto)
  have aids: "map at_id (map h (db_attempts db)) = map at_id (db_attempts db)"
    "map (\<lambda>a. (at_job a, at_fence a)) (map h (db_attempts db)) = map (\<lambda>a. (at_job a, at_fence a)) (db_attempts db)"
    unfolding map_map by (rule map_cong [OF refl], use h in auto)+
  have sole: "x = a" if x: "x \<in> set (db_attempts db)" "live x" "at_job x = at_job a" for x
  proof -
    have "covered (db_jobs db) x" "covered (db_jobs db) a" using ok x(1) assms(2) by blast+
    with x(2) assms(3) obtain r r' where r: "r \<in> set (db_jobs db)" "jr_id r = at_job x" "at_fence x = jr_fence r"
      and r': "r' \<in> set (db_jobs db)" "jr_id r' = at_job a" "at_fence a = jr_fence r'"
      unfolding covered_def by blast
    have "r = r'" by (rule keyed_inj [OF conjunct1 [OF ok] r(1) r'(1)]) (use r(2) r'(2) x(3) in simp)
    then have "(at_job x, at_fence x) = (at_job a, at_fence a)" using r(3) r'(3) x(3) by simp
    then show ?thesis using keyed_inj [of "\<lambda>a. (at_job a, at_fence a)" "db_attempts db" x a] ok x(1) assms(2) by simp
  qed
  have cov: "covered (db_jobs db') (h x)" if x: "x \<in> set (db_attempts db)" for x
  proof -
    obtain r where r: "r \<in> set (db_jobs db)" "jr_id r = at_job x" "jr_tenant r = at_tenant x"
      "at_fence x \<le> jr_fence r" "live x \<longrightarrow> owned r \<and> at_fence x = jr_fence r"
      using ok x unfolding covered_def by blast
    have "g r \<in> set (db_jobs db')" using r(1) by (simp add: assms(4))
    moreover have "live (h x) \<Longrightarrow> jr_id r \<noteq> at_job a" using h [OF x] sole [OF x] r(2) by auto
    ultimately show ?thesis unfolding covered_def using r h [OF x] g [OF r(1)] by (intro bexI [of _ "g r"]) auto
  qed
  have own: "\<exists>x\<in>set (db_attempts db'). live x \<and> at_job x = jr_id r'" if "r' \<in> set (db_jobs db')" "owned r'" for r'
  proof -
    obtain r where r: "r \<in> set (db_jobs db)" "r' = g r" using \<open>r' \<in> set (db_jobs db')\<close> by (auto simp: assms(4))
    then obtain x where x: "x \<in> set (db_attempts db)" "live x" "at_job x = jr_id r"
      using ok g [OF r(1)] \<open>owned r'\<close> by blast
    have "at_id x \<noteq> at_id a"
      using keyed_inj [of at_id "db_attempts db" x a] ok x assms(2) g [OF r(1)] r(2) \<open>owned r'\<close> by auto
    moreover have "h x \<in> set (db_attempts db')" using x(1) by (simp add: assms(5))
    ultimately show ?thesis using x h [OF x(1)] g [OF r(1)] r(2) by (intro bexI [of _ "h x"]) auto
  qed
  show ?thesis unfolding leases_ok_def
  proof (intro conjI)
    show "jobs_ok db'" unfolding assms(4) ids using ok by blast
    show "distinct (map at_id (db_attempts db'))" "distinct (map (\<lambda>a. (at_job a, at_fence a)) (db_attempts db'))"
      unfolding assms(5) aids using ok by blast+
    show "\<forall>a\<in>set (db_attempts db'). covered (db_jobs db') a" using cov by (auto simp: assms(5))
  qed (use own in blast)
qed

text \<open>A lease: the job is owned under a new fence and a new attempt holds it.\<close>

lemma leases_begin:
  assumes "leases_ok db" "r \<in> set (db_jobs db)" "jr_id r = at_job n" "jr_tenant r = at_tenant n" "\<not> owned r"
    "jr_fence r < at_fence n" "live n" "at_id n \<notin> at_id ` set (db_attempts db)"
    and "db_jobs db' = map g (db_jobs db)" "db_attempts db' = db_attempts db @ [n]"
    and g: "\<And>x. x \<in> set (db_jobs db) \<Longrightarrow> jr_id (g x) = jr_id x \<and> jr_tenant (g x) = jr_tenant x
        \<and> (if jr_id x = at_job n then owned (g x) \<and> jr_fence (g x) = at_fence n
           else jr_fence (g x) = jr_fence x \<and> owned (g x) = owned x)"
  shows "leases_ok db'"
proof -
  note ok = assms(1) [unfolded leases_ok_def]
  have only: "x = r" if "x \<in> set (db_jobs db)" "jr_id x = at_job n" for x
    using keyed_inj [of jr_id "db_jobs db" x r] ok that assms(2,3) by simp
  have gr: "g r \<in> set (db_jobs db')" using assms(2) by (simp add: assms(9))
  have ids: "map jr_id (map g (db_jobs db)) = map jr_id (db_jobs db)"
    unfolding map_map by (rule map_cong [OF refl]) (use g in auto)
  have cov: "covered (db_jobs db') a" if a: "a \<in> set (db_attempts db)" for a
  proof -
    obtain x where x: "x \<in> set (db_jobs db)" "jr_id x = at_job a" "jr_tenant x = at_tenant a"
      "at_fence a \<le> jr_fence x" "live a \<longrightarrow> owned x \<and> at_fence a = jr_fence x"
      using ok a unfolding covered_def by blast
    have "g x \<in> set (db_jobs db')" using x(1) by (simp add: assms(9))
    moreover have "jr_id x = at_job n \<Longrightarrow> \<not> live a \<and> at_fence a \<le> at_fence n"
      using only [OF x(1)] x(4,5) assms(5,6) by auto
    ultimately show ?thesis unfolding covered_def using x g [OF x(1)]
      by (intro bexI [of _ "g x"]) (auto split: if_splits)
  qed
  have covn: "covered (db_jobs db') n" unfolding covered_def
    using gr g [OF assms(2)] assms(3,4) by (intro bexI [of _ "g r"]) auto
  have new: "(at_job n, at_fence n) \<notin> (\<lambda>a. (at_job a, at_fence a)) ` set (db_attempts db)"
  proof
    assume "(at_job n, at_fence n) \<in> (\<lambda>a. (at_job a, at_fence a)) ` set (db_attempts db)"
    then obtain a where a: "a \<in> set (db_attempts db)" "at_job a = at_job n" "at_fence a = at_fence n" by auto
    then obtain x where "x \<in> set (db_jobs db)" "jr_id x = at_job a" "at_fence a \<le> jr_fence x"
      using ok unfolding covered_def by blast
    with only [of x] a assms(6) show False by auto
  qed
  have own: "\<exists>a\<in>set (db_attempts db'). live a \<and> at_job a = jr_id r'" if "r' \<in> set (db_jobs db')" "owned r'" for r'
  proof -
    obtain x where x: "x \<in> set (db_jobs db)" "r' = g x" using \<open>r' \<in> set (db_jobs db')\<close> by (auto simp: assms(9))
    show ?thesis
    proof (cases "jr_id x = at_job n")
      case True
      then show ?thesis using g [OF x(1)] x(2) assms(7) by (intro bexI [of _ n]) (auto simp: assms(10))
    next
      case False
      then show ?thesis using ok x g [OF x(1)] \<open>owned r'\<close> by (auto simp: assms(10))
    qed
  qed
  show ?thesis unfolding leases_ok_def
  proof (intro conjI)
    show "jobs_ok db'" unfolding assms(9) ids using ok by blast
    show "distinct (map at_id (db_attempts db'))" "distinct (map (\<lambda>a. (at_job a, at_fence a)) (db_attempts db'))"
      using ok assms(8) new by (auto simp: assms(10))
    show "\<forall>a\<in>set (db_attempts db'). covered (db_jobs db') a" using cov covn by (auto simp: assms(10))
  qed (use own in blast)
qed

subsection \<open>Scheduling keeps the leases\<close>

lemma blocked_stays_free: "job_step c a ev c' \<Longrightarrow> jc_state c = Blocked \<Longrightarrow> \<not> is_worker_owned (jc_state c') \<and> (\<forall>f. ev \<noteq> Ev_Leased f)"
  by (auto elim!: job_step.cases)

lemma read_run_job:
  assumes "jobs_ok db" "run_jobs db tenant run = Inr states" "i < length states" "states ! i = (job, s)"
    "read_job_row db tenant job = Inr row"
  shows "jw_state row = s"
proof -
  let ?r = "rows_of_run db tenant run ! i"
  have i: "i < length (rows_of_run db tenant run)" "run_job ?r = Inr (job, s)"
    using assms(2-4) unfolding run_jobs_nth by auto
  have "?r \<in> set (db_jobs db)" "jr_tenant ?r = tenant" using nth_mem [OF i(1)] by auto
  then have "find (job_at tenant job) (db_jobs db) = Some ?r"
    using find_job [OF assms(1), of ?r job tenant] i(2) by (simp add: run_job_eq_Inr)
  then show ?thesis
    using assms(5) i(2) by (simp add: read_job_row_def decode_job_eq_Inr run_job_eq_Inr state_code.code_inj)
qed

lemma release_one_leases:
  assumes "leases_ok (rl_db rl)" "run_jobs (rl_db rl) tenant run = Inr (rl_states rl)" "k < length (rl_states rl)"
    "release_one env tenant run now spec k rl = Inr rl'"
  shows "leases_ok (rl_db rl')"
proof -
  obtain job s where k: "rl_states rl ! k = (job, s)" by (cases "rl_states rl ! k")
  show ?thesis
  proof (cases "rl_db rl' = rl_db rl")
    case False
    then obtain ev nxt where s: "s = Blocked"
      and t: "transition env (rl_db rl) tenant job Controller ev now = Inr (nxt, rl_db rl')"
      using assms(4) by (auto simp: release_one_def k Let_def res_bind_eq_Inr split: if_splits option.splits)
    obtain c c' where c: "job_step c Controller ev c'" "jc_state c = Blocked" "jc_state c' = nxt"
      using run_jobs_transition(3) [OF leases_jobs_ok [OF assms(1)] assms(2,3) k t] s by blast
    note b = blocked_stays_free [OF c(1,2)]
    show ?thesis
    proof (rule transition_leases [OF t assms(1)])
      show "ev \<noteq> Ev_Leased f" for f using b by blast
      fix row assume "read_job_row (rl_db rl) tenant job = Inr row"
      then have "jw_state row = Blocked" using read_run_job [OF leases_jobs_ok [OF assms(1)] assms(2,3) k] s by blast
      then show "is_worker_owned (jw_state row) = is_worker_owned nxt" using b c(3) by simp
    qed
  qed (use assms(1) in simp)
qed

lemma release_loop_leases:
  "release_inv tenant run spec start k rl \<Longrightarrow> leases_ok (rl_db rl) \<Longrightarrow> k \<le> length start \<Longrightarrow>
     release_loop env tenant run now spec [k..<length start] rl = Inr rl' \<Longrightarrow> leases_ok (rl_db rl')"
proof (induction "length start - k" arbitrary: k rl)
  case (Suc n)
  then have k: "k < length start" by simp
  then obtain rl1 where one: "release_one env tenant run now spec k rl = Inr rl1"
    and rest: "release_loop env tenant run now spec [Suc k..<length start] rl1 = Inr rl'"
    using Suc.prems(4) by (auto simp: upt_conv_Cons res_bind_eq_Inr)
  note inv = Suc.prems(1) [unfolded release_inv_def]
  have len: "length (rl_states rl) = length start" using inv by (metis length_map)
  have "leases_ok (rl_db rl1)"
    by (rule release_one_leases [OF Suc.prems(2) _ _ one]) (use inv k len in auto)
  moreover have "n = length start - Suc k" using Suc.hyps(2) by simp
  ultimately show ?case
    by (intro Suc.hyps(1) [OF _ release_one_inv [OF Suc.prems(1) k one] _ _ rest]) (use k in simp_all)
qed simp

lemma release_with_leases:
  assumes "release_dependents_with env db tenant run now cached = Inr (x, db')" "leases_ok db"
  shows "leases_ok db'"
proof -
  obtain states where st: "run_jobs db tenant run = Inr states"
    using assms(1) by (auto simp: release_dependents_with_def res_bind_eq_Inr)
  show ?thesis
  proof (cases "list_ex (\<lambda>js. snd js = Blocked) states")
    case False
    then show ?thesis using assms st by (auto simp: release_dependents_with_def)
  next
    case True
    obtain spec bf rl where bf: "failure_skips states spec = Inr bf"
      and loop: "release_loop env tenant run now spec [0..<length states]
        \<lparr>rl_db = db, rl_states = states, rl_by_failure = bf, rl_facts = None, rl_released = 0\<rparr> = Inr rl"
      and db': "db' = rl_db rl"
      using assms(1) st True by (auto simp: release_dependents_with_def res_bind_eq_Inr)
    have "release_inv tenant run spec states 0
        \<lparr>rl_db = db, rl_states = states, rl_by_failure = bf, rl_facts = None, rl_released = 0\<rparr>"
      using leases_jobs_ok [OF assms(2)] st failure_skips_ok [OF bf] by (simp add: release_inv_def)
    from release_loop_leases [OF this _ _ loop] assms(2) db' show ?thesis by simp
  qed
qed

lemma release_leases: "release_dependents env db tenant run now = Inr (n, db') \<Longrightarrow> leases_ok db \<Longrightarrow> leases_ok db'"
  by (auto simp: release_dependents_def res_map_def split: sum.splits dest: release_with_leases)

subsection \<open>Ending an attempt\<close>

lemma end_leases:
  assumes "transition env db tenant job actor ev now = Inr (s, db1)" "leases_ok db"
    "a \<in> set (db_attempts db)" "live a" "at_job a = job" "\<not> is_worker_owned s" "\<And>f. ev \<noteq> Ev_Leased f"
    and "db_jobs db2 = map k (db_jobs db1)" "\<And>r. same_job r (k r)"
    and "db_attempts db2 = map (\<lambda>x. if at_id x = at_id a then h x else x) (db_attempts db1)"
    and h: "\<And>x. at_id (h x) = at_id x \<and> at_tenant (h x) = at_tenant x \<and> at_job (h x) = at_job x \<and> at_fence (h x) = at_fence x \<and> \<not> live (h x)"
  shows "leases_ok db2"
proof (rule transition_cases [OF assms(1) leases_jobs_ok [OF assms(2)]])
  fix r row c
  assume r: "r \<in> set (db_jobs db)" "job_at tenant job r" "decode_job r = Inr row"
    and step: "job_step (control_of row) actor ev c"
    and db1: "only_checks (db\<lparr>db_jobs := map (\<lambda>x. if jr_id x = job
        then job_moved s (jc_fence c) (failure_of_event ev) now x else x) (db_jobs db)\<rparr>) db1"
  have f: "jc_fence c = jr_fence r"
    using step_fence [OF step assms(7)] r(3) by (simp add: control_of_def decode_job_eq_Inr)
  have only: "x = r" if "x \<in> set (db_jobs db)" "jr_id x = job" for x
    using keyed_inj [OF leases_jobs_ok [OF assms(2)] that(1) r(1)] that(2) r(2) by simp
  let ?g = "\<lambda>x. k (if jr_id x = job then job_moved s (jc_fence c) (failure_of_event ev) now x else x)"
  show ?thesis
  proof (rule leases_end [OF assms(2-4)])
    show "db_jobs db2 = map ?g (db_jobs db)"
      using only_checksD(1) [OF db1] assms(8) by (simp add: comp_def)
    show "db_attempts db2 = map (\<lambda>x. if at_id x = at_id a then h x else x) (db_attempts db)"
      using only_checksD(4) [OF db1] assms(10) by simp
    show "jr_id (?g x) = jr_id x \<and> jr_tenant (?g x) = jr_tenant x \<and> jr_fence (?g x) = jr_fence x
        \<and> owned (?g x) = (owned x \<and> jr_id x \<noteq> at_job a)" if "x \<in> set (db_jobs db)" for x
      using only [OF that] f assms(5,6,9) by (auto simp: owned_moved)
  qed (use h in auto)
qed

lemma step_ends:
  assumes "job_step c a ev c'" "(\<exists>f. a = Worker f) \<or> ev = Ev_LeaseExpired \<or> ev = Ev_Reconciled"
  shows "is_worker_owned (jc_state c)" "is_terminal (jc_state c') \<or> is_worker_owned (jc_state c')" "ev \<noteq> Ev_Leased f"
  using assms by (auto elim!: job_step.cases)

lemma terminal_free: "is_terminal s \<Longrightarrow> \<not> is_worker_owned s"
  by (cases s) auto

lemma record_missing_frame:
  "record_missing env db tenant run job attempt missing now = Inr db' \<Longrightarrow>
     db_jobs db' = db_jobs db \<and> db_attempts db' = db_attempts db"
  by (induction missing arbitrary: db)
    (auto simp: res_bind_eq_Inr artifacts_record_def fresh_id_def Let_def split: if_splits)

lemma finish_cases:
  assumes "finish env db attempt actor ev now logs = Inr (nxt, db')"
  obtains a run ev' db1 where "a \<in> set (db_attempts db)" "at_id a = attempt" "live a"
    "ev' = ev \<or> ev = Ev_Passed \<and> ev' = Ev_Failed FC_Publication"
    "transition env db (at_tenant a) (at_job a) actor ev' now = Inr (nxt, db1)"
    "\<not> is_terminal nxt \<and> db' = db1 \<or> is_terminal nxt \<and> (\<exists>n db2 missing db3 cached x ended.
       update_attempts (\<lambda>a. at_id a = attempt) (attempt_released now ended) db1 = Inr (n, db2)
       \<and> record_missing env db2 (at_tenant a) run (at_job a) attempt missing now = Inr db3
       \<and> release_dependents_with env db3 (at_tenant a) run now cached = Inr (x, db'))"
proof -
  let ?P = "\<lambda>a. at_id a = attempt \<and> live a \<and> list_ex (\<lambda>j. jr_id j = at_job a) (db_jobs db)"
  obtain a where a: "find ?P (db_attempts db) = Some a"
    using assms by (cases "find ?P (db_attempts db)") (auto simp: finish_def)
  obtain j where j: "find (\<lambda>j. jr_id j = at_job a) (db_jobs db) = Some j"
    using assms a by (cases "find (\<lambda>j. jr_id j = at_job a) (db_jobs db)") (auto simp: finish_def)
  obtain missing cached ev' where plan: "finish_plan env db (at_tenant a) (jr_run j) (nat (jr_spec_index j)) attempt ev = Inr (missing, cached, ev')"
    and app: "finish_apply env db (at_tenant a) (jr_run j) (at_job a) attempt actor missing cached ev' now logs = Inr (nxt, db')"
    using assms unfolding finish_def a j option.case
    by (auto simp: res_bind_eq_Inr typed_eq_Inr split: if_splits)
  have ev': "ev' = ev \<or> ev = Ev_Passed \<and> ev' = Ev_Failed FC_Publication"
    using plan by (auto simp: finish_plan_def res_bind_eq_Inr split: if_splits)
  obtain db1 where t: "transition env db (at_tenant a) (at_job a) actor ev' now = Inr (nxt, db1)"
    and rest: "if \<not> is_terminal nxt then db' = db1 else (\<exists>n db2 db3 x ended.
       update_attempts (\<lambda>a. at_id a = attempt) (attempt_released now ended) db1 = Inr (n, db2)
       \<and> record_missing env db2 (at_tenant a) (jr_run j) (at_job a) attempt missing now = Inr db3
       \<and> release_dependents_with env db3 (at_tenant a) (jr_run j) now cached = Inr (x, db'))"
    using app unfolding finish_apply_def
    by (fastforce simp: res_bind_eq_Inr Let_def split: if_splits)
  from rest have fin: "\<not> is_terminal nxt \<and> db' = db1 \<or> is_terminal nxt \<and> (\<exists>n db2 missing db3 cached x ended.
       update_attempts (\<lambda>a. at_id a = attempt) (attempt_released now ended) db1 = Inr (n, db2)
       \<and> record_missing env db2 (at_tenant a) (jr_run j) (at_job a) attempt missing now = Inr db3
       \<and> release_dependents_with env db3 (at_tenant a) (jr_run j) now cached = Inr (x, db'))"
    unfolding if_bool_eq_conj by blast
  show thesis by (rule that [OF _ _ _ ev' t fin]) (use find_SomeD [OF a] in auto)
qed

lemma attempt_released_simps [simp]:
  "at_id (attempt_released now ended a) = at_id a" "at_tenant (attempt_released now ended a) = at_tenant a"
  "at_job (attempt_released now ended a) = at_job a" "at_fence (attempt_released now ended a) = at_fence a"
  "at_released_ms (attempt_released now ended a) = Some now"
  by (simp_all add: attempt_released_def)

lemma finish_leases:
  assumes "finish env db attempt actor ev now logs = Inr (nxt, db')" "leases_ok db"
    "(\<exists>f. actor = Worker f) \<or> ev = Ev_LeaseExpired \<or> ev = Ev_Reconciled"
  shows "leases_ok db'"
proof (rule finish_cases [OF assms(1)])
  fix a run ev' db1
  assume a: "a \<in> set (db_attempts db)" "at_id a = attempt" "live a"
    and ev': "ev' = ev \<or> ev = Ev_Passed \<and> ev' = Ev_Failed FC_Publication"
    and t: "transition env db (at_tenant a) (at_job a) actor ev' now = Inr (nxt, db1)"
    and rest: "\<not> is_terminal nxt \<and> db' = db1 \<or> is_terminal nxt \<and> (\<exists>n db2 missing db3 cached x ended.
       update_attempts (\<lambda>a. at_id a = attempt) (attempt_released now ended) db1 = Inr (n, db2)
       \<and> record_missing env db2 (at_tenant a) run (at_job a) attempt missing now = Inr db3
       \<and> release_dependents_with env db3 (at_tenant a) run now cached = Inr (x, db'))"
  have ends: "(\<exists>f. actor = Worker f) \<or> ev' = Ev_LeaseExpired \<or> ev' = Ev_Reconciled" using assms(3) ev' by auto
  obtain r row c where r: "r \<in> set (db_jobs db)" "job_at (at_tenant a) (at_job a) r" "decode_job r = Inr row"
    and ap: "job_apply (control_of row) actor ev' = (Inr nxt, c)" and step: "job_step (control_of row) actor ev' c"
    by (rule transition_cases [OF t leases_jobs_ok [OF assms(2)]])
  note s = step_ends [OF step ends]
  from rest show ?thesis
  proof (elim disjE conjE exE)
    assume n: "\<not> is_terminal nxt" "db' = db1"
    have o: "is_worker_owned nxt" using s(2) job_apply_ok [OF ap] n(1) by auto
    show ?thesis unfolding n(2)
    proof (rule transition_leases [OF t assms(2) s(3)])
      fix row' assume "read_job_row db (at_tenant a) (at_job a) = Inr row'"
      then have "row' = row" using find_job [OF leases_jobs_ok [OF assms(2)] r(1,2)] r(3) by (simp add: read_job_row_def)
      then show "is_worker_owned (jw_state row') = is_worker_owned nxt" using o s(1) by (simp add: control_of_def)
    qed
  next
    fix n db2 missing db3 cached x e
    assume ended: "is_terminal nxt"
      and u: "update_attempts (\<lambda>a. at_id a = attempt) (attempt_released now e) db1 = Inr (n, db2)"
      and m: "record_missing env db2 (at_tenant a) run (at_job a) attempt missing now = Inr db3"
      and rel: "release_dependents_with env db3 (at_tenant a) run now cached = Inr (x, db')"
    have db2: "db2 = db1\<lparr>db_attempts := map (\<lambda>x. if at_id x = at_id a then attempt_released now e x else x) (db_attempts db1)\<rparr>"
      using u a(2) by (simp add: update_attempts_eq)
    have j: "db_jobs db2 = map id (db_jobs db1)"
      and at: "db_attempts db2 = map (\<lambda>x. if at_id x = at_id a then attempt_released now e x else x) (db_attempts db1)"
      by (simp_all add: db2)
    have "leases_ok db2"
      by (rule end_leases [OF t assms(2) a(1,3) refl terminal_free [OF ended] s(3) j _ at]) auto
    from leases_cong [OF this, of db3] have "leases_ok db3" using record_missing_frame [OF m] by simp
    then show ?thesis by (rule release_with_leases [OF rel])
  qed
qed

subsection \<open>Events of a job no worker holds\<close>

definition free_event :: "event \<Rightarrow> bool" where
  "free_event ev \<longleftrightarrow> ev \<in> {Ev_DependenciesSatisfied, Ev_ConditionFailed, Ev_Skip, Ev_CancelBeforeStart, Ev_QueueTimedOut}"

lemma free_event_step:
  assumes "job_step c a ev c'" "free_event ev"
  shows "\<not> is_worker_owned (jc_state c)" "\<not> is_worker_owned (jc_state c')" "ev \<noteq> Ev_Leased f"
  using assms by (auto simp: free_event_def elim!: job_step.cases)

lemma free_event_leases:
  assumes "transition env db tenant job a ev now = Inr (s, db')" "leases_ok db" "free_event ev"
  shows "leases_ok db'"
proof (rule transition_leases [OF assms(1,2)])
  show "ev \<noteq> Ev_Leased f" for f using assms(3) by (auto simp: free_event_def)
  fix row assume rd: "read_job_row db tenant job = Inr row"
  show "is_worker_owned (jw_state row) = is_worker_owned s"
  proof (rule transition_cases [OF assms(1) leases_jobs_ok [OF assms(2)]])
    fix r row' c
    assume r: "r \<in> set (db_jobs db)" "job_at tenant job r" "decode_job r = Inr row'"
      and ap: "job_apply (control_of row') a ev = (Inr s, c)" and step: "job_step (control_of row') a ev c"
    have "row' = row" using find_job [OF leases_jobs_ok [OF assms(2)] r(1,2)] r(3) rd by (simp add: read_job_row_def)
    then show ?thesis
      using free_event_step [OF step assms(3)] job_apply_ok [OF ap] by (simp add: control_of_def)
  qed
qed

lemma lapsed_step: "job_step c a Ev_OfferLapsed c' \<Longrightarrow> jc_state c' = Queued"
  by (auto elim!: job_step.cases)

lemma give_back_leases:
  assumes "give_back env db attempt tenant job fence now = Inr (nxt, db')" "leases_ok db"
    "a \<in> set (db_attempts db)" "at_id a = attempt" "live a" "at_job a = job"
  shows "leases_ok db'"
proof -
  let ?k = "\<lambda>r. if job_at tenant job r then r\<lparr>jr_stamps := (jr_stamps r)\<lparr>ts_leased := None\<rparr>\<rparr> else r"
  let ?h = "\<lambda>a. a\<lparr>at_released_ms := Some now\<rparr>"
  obtain current where cur: "get_job db tenant job = Inr current"
    using assms(1) unfolding give_back_def by (auto simp: res_bind_eq_Inr)
  obtain s1 db1 n db2 where t: "transition env db tenant job Controller Ev_OfferLapsed now = Inr (s1, db1)"
    and u: "update_attempts (\<lambda>a. at_id a = attempt) ?h
      (db1\<lparr>db_jobs := snd (update_where (job_at tenant job)
          (\<lambda>r. r\<lparr>jr_stamps := (jr_stamps r)\<lparr>ts_leased := None\<rparr>\<rparr>) (db_jobs db1))\<rparr>) = Inr (n, db2)"
    and rest: "(if jw_cancel_requested current then
            res_bind (transition env db2 tenant job Controller Ev_CancelBeforeStart now) (\<lambda>(nxt, db).
            res_bind (run_of db tenant job) (\<lambda>run.
            res_bind (release_dependents env db tenant run now) (\<lambda>(_, db).
            Inr (nxt, db)))) else Inr (s1, db2)) = Inr (nxt, db')"
    using assms(1) unfolding give_back_def cur res_bind_Inr Let_def
    by (cases "jw_fence current \<noteq> fence \<or> jw_state current \<noteq> Leased")
      (simp, simp only: if_False res_bind_eq_Inr [of "transition env db tenant job Controller Ev_OfferLapsed now"]
         res_bind_eq_Inr [of "update_attempts _ _ _"] split_paired_Ex prod.case, blast)
  have s1: "s1 = Queued"
    by (rule transition_cases [OF t leases_jobs_ok [OF assms(2)]]) (use lapsed_step job_apply_ok in blast)
  have j: "db_jobs db2 = map ?k (db_jobs db1)"
    and at: "db_attempts db2 = map (\<lambda>x. if at_id x = at_id a then ?h x else x) (db_attempts db1)"
    using u assms(4) by (auto simp: update_attempts_eq update_where_def)
  have "leases_ok db2"
    by (rule end_leases [OF t assms(2,3,5,6) _ _ j _ at]) (auto simp: s1 owned_def)
  with rest show ?thesis
    by (auto simp: res_bind_eq_Inr free_event_def split: if_splits
        dest!: release_leases free_event_leases)
qed

lemma lapse_leases:
  assumes "lapse env db attempt now = Inr db'" "leases_ok db"
  shows "leases_ok db'"
proof -
  let ?P = "\<lambda>a. at_id a = attempt \<and> at_acked_ms a = None \<and> live a"
  obtain a where a: "find ?P (db_attempts db) = Some a"
    using assms(1) by (cases "find ?P (db_attempts db)") (auto simp: lapse_def)
  obtain nxt where "give_back env db attempt (at_tenant a) (at_job a) (at_fence a) now = Inr (nxt, db')"
    using assms(1) unfolding lapse_def a option.case by (auto simp: res_bind_eq_Inr typed_eq_Inr res_map_eq_Inr)
  then show ?thesis using assms(2) find_SomeD [OF a] by (auto elim!: give_back_leases)
qed

lemma decline_leases:
  assumes "decline env db worker attempt fence now = Inr (nxt, db')" "leases_ok db"
  shows "leases_ok db'"
proof -
  let ?P = "\<lambda>a. at_id a = attempt \<and> at_worker a = worker \<and> at_fence a = fence \<and> live a \<and> worker_is_live db worker"
  obtain a where a: "find ?P (db_attempts db) = Some a"
    using assms(1) by (cases "find ?P (db_attempts db)") (auto simp: decline_def)
  have "give_back env db attempt (at_tenant a) (at_job a) fence now = Inr (nxt, db')"
    using assms(1) unfolding decline_def a option.case by (auto simp: res_bind_eq_Inr typed_eq_Inr)
  then show ?thesis using assms(2) find_SomeD [OF a] by (auto elim!: give_back_leases)
qed

subsection \<open>The other operations\<close>

lemma acknowledge_leases: "acknowledge db worker attempt fence now = Inr (t, db') \<Longrightarrow> leases_ok db \<Longrightarrow> leases_ok db'"
  unfolding acknowledge_def res_bind_eq_Inr
  by (auto split: option.splits if_splits elim!: update_attempts_leases)

lemma renew_each_leases: "renew_each db worker until now held stop = Inr (x, db') \<Longrightarrow> leases_ok db \<Longrightarrow> leases_ok db'"
proof (induction held arbitrary: db stop)
  case (Cons attempt held)
  then obtain n db1 where "update_attempts (\<lambda>a. at_id a = attempt \<and> at_worker a = worker \<and> at_acked_ms a \<noteq> None
         \<and> live a \<and> now \<le> at_lease_until_ms a)
       (\<lambda>a. a\<lparr>at_lease_until_ms := max (at_lease_until_ms a) until\<rparr>) db = Inr (n, db1)"
    and rest: "renew_each db1 worker until now held (if n = 0 then stop @ [attempt] else stop) = Inr (x, db')"
    by (auto simp: res_bind_eq_Inr)
  then have "leases_ok db1" using Cons.prems(2) by (auto elim!: update_attempts_leases)
  then show ?case using Cons.IH [OF rest] by blast
qed simp

lemma renew_leases: "renew db worker held lease_ms now = Inr (x, db') \<Longrightarrow> leases_ok db \<Longrightarrow> leases_ok db'"
  by (auto simp: renew_def Let_def res_map_eq_Inr split: if_splits dest: renew_each_leases)

lemma log_ended_leases: "log_ended db attempt = Inr db' \<Longrightarrow> leases_ok db \<Longrightarrow> leases_ok db'"
  by (auto simp: log_ended_def res_map_eq_Inr elim!: update_attempts_leases)

lemma report_leases:
  assumes "report env db worker attempt fence ev summary now logs = Inr (nxt, db')" "leases_ok db"
  shows "leases_ok db'"
proof -
  let ?P = "\<lambda>a. at_id a = attempt \<and> at_worker a = worker \<and> at_fence a = fence \<and> at_acked_ms a \<noteq> None
         \<and> live a \<and> worker_is_live db worker \<and> list_ex (\<lambda>j. jr_id j = at_job a) (db_jobs db)"
  obtain a where a: "find ?P (db_attempts db) = Some a"
    using assms(1) by (cases "find ?P (db_attempts db)") (auto simp: report_def)
  obtain ev' s db1 where f: "finish env db attempt (Worker fence) ev' now logs = Inr (s, db1)"
    and rest: "db' = db1 \<or> (\<exists>n sm. update_attempts (\<lambda>a. at_id a = attempt \<and> at_summary a = None)
        (\<lambda>a. a\<lparr>at_summary := sm\<rparr>) db1 = Inr (n, db'))"
    using assms(1) unfolding report_def a option.case Let_def
    by (auto simp: res_bind_eq_Inr res_map_eq_Inr split: if_splits) blast+
  have "leases_ok db1" by (rule finish_leases [OF f assms(2)]) simp
  with rest show ?thesis by (auto elim!: update_attempts_leases)
qed

lemma request_cancel_leases:
  assumes "store_request_cancel db tenant job = Inr (b, db')" "leases_ok db"
  shows "leases_ok db'"
proof (rule leases_keep [OF assms(2), where f = id])
  show "db_jobs db' = map (\<lambda>r. if job_at tenant job r then r\<lparr>jr_cancel_requested := True\<rparr> else r) (db_jobs db)"
    "db_attempts db' = map id (db_attempts db)"
    using assms(1) by (auto simp: store_request_cancel_def update_where_def res_bind_eq_Inr Let_def split: if_splits)
qed (auto simp: owned_def)

lemma cancel_one_leases: "cancel_one env db tenant job now = Inr (x, db') \<Longrightarrow> leases_ok db \<Longrightarrow> leases_ok db'"
  unfolding cancel_one_def
  by (auto simp: res_bind_eq_Inr res_map_eq_Inr free_event_def split: if_splits
      dest!: request_cancel_leases free_event_leases)

lemma cancel_leases: "cancel env db tenant job now = Inr (x, db') \<Longrightarrow> leases_ok db \<Longrightarrow> leases_ok db'"
  unfolding cancel_def
  by (auto simp: res_bind_eq_Inr res_map_eq_Inr split: if_splits dest!: cancel_one_leases release_leases)

lemma cancel_each_leases: "cancel_each env db tenant jobs now n = Inr (x, db') \<Longrightarrow> leases_ok db \<Longrightarrow> leases_ok db'"
proof (induction jobs arbitrary: db n)
  case (Cons js jobs)
  then show ?case by (cases js) (auto simp: res_bind_eq_Inr split: if_splits dest!: cancel_one_leases)
qed simp

lemma cancel_run_leases:
  assumes "cancel_run env db tenant run now = Inr (n, db')" "leases_ok db"
  shows "leases_ok db'"
proof -
  have "leases_ok (db\<lparr>db_runs := x\<rparr>)" for x using leases_cong [OF assms(2)] by simp
  with assms(1) show ?thesis unfolding cancel_run_def Let_def
    by (auto simp: res_bind_eq_Inr dest!: cancel_each_leases release_leases)
qed

lemma expire_leases: "expire env db attempt now logs = Inr (s, db') \<Longrightarrow> leases_ok db \<Longrightarrow> leases_ok db'"
  by (auto simp: expire_def split: if_splits elim!: finish_leases)

lemma expire_batch_leases: "expire_batch env db ds now sw = (sw', db') \<Longrightarrow> leases_ok db \<Longrightarrow> leases_ok db'"
proof (induction ds arbitrary: db sw)
  case (Cons d ds)
  obtain attempt ended where d: "d = (attempt, ended)" by (cases d)
  let ?r = "res_bind (expire env db attempt now None) (\<lambda>(state, db).
            if ended then res_map (\<lambda>db. (state, db)) (log_ended db attempt) else Inr (state, db))"
  have "leases_ok db1" if "?r = Inr (x, db1)" for x db1
    using that Cons.prems(2)
    by (auto simp: res_bind_eq_Inr res_map_eq_Inr split: if_splits dest!: expire_leases log_ended_leases)
  then have "leases_ok (snd (isolated db ?r))" using Cons.prems(2) by (auto simp: isolated_def split: sum.splits)
  moreover have "expire_batch env (snd (isolated db ?r)) ds now (swept_record sw (fst (isolated db ?r))) = (sw', db')"
    using Cons.prems(1) by (simp add: d case_prod_beta Let_def)
  ultimately show ?case using Cons.IH by blast
qed simp

lemma lapse_each_leases: "lapse_each env db offers deferred now sw = (sw', db') \<Longrightarrow> leases_ok db \<Longrightarrow> leases_ok db'"
proof (induction offers arbitrary: db sw)
  case (Cons attempt offers)
  let ?r = "isolated db (res_map (\<lambda>db. ((), db)) (lapse env db attempt now))"
  have "leases_ok (snd ?r)"
    using Cons.prems(2) lapse_leases [of env db attempt now] by (auto simp: isolated_def res_map_def split: sum.splits)
  moreover have "\<not> deferred attempt \<Longrightarrow> lapse_each env (snd ?r) offers deferred now (swept_record sw (fst ?r)) = (sw', db')"
    using Cons.prems(1) by (simp add: case_prod_beta Let_def)
  ultimately show ?case using Cons by (cases "deferred attempt") auto
qed simp

lemma lapse_due_leases: "lapse_due env db now deferred = Inr (sw, db') \<Longrightarrow> leases_ok db \<Longrightarrow> leases_ok db'"
  by (auto simp: lapse_due_def res_map_eq_Inr dest: lapse_each_leases [OF sym])

lemma abandon_leases: "abandon env db worker attempt fence now logs = Inr (s, db') \<Longrightarrow> leases_ok db \<Longrightarrow> leases_ok db'"
  by (auto simp: abandon_def res_bind_eq_Inr res_map_eq_Inr split: option.splits if_splits
      dest: lapse_leases elim!: finish_leases)

lemma settle_revoked_leases: "settle_revoked env db held now logs = Inr db' \<Longrightarrow> leases_ok db \<Longrightarrow> leases_ok db'"
proof (induction held arbitrary: db)
  case (Cons d held)
  then show ?case
    by (cases d) (auto simp: res_bind_eq_Inr res_map_eq_Inr split: if_splits dest: lapse_leases finish_leases)
qed simp

lemma reconcile_revoked_leases: "reconcile_revoked env db now logs = Inr (n, db') \<Longrightarrow> leases_ok db \<Longrightarrow> leases_ok db'"
  by (auto simp: reconcile_revoked_def Let_def res_map_eq_Inr dest: settle_revoked_leases)

lemma expire_each_leases: "expire_each env db over now logs = Inr db' \<Longrightarrow> leases_ok db \<Longrightarrow> leases_ok db'"
  by (induction over arbitrary: db) (auto simp: res_bind_eq_Inr dest: expire_leases)

lemma lapse_all_leases: "lapse_all env db offers now = Inr db' \<Longrightarrow> leases_ok db \<Longrightarrow> leases_ok db'"
  by (induction offers arbitrary: db) (auto simp: res_bind_eq_Inr dest: lapse_leases)

lemma reconcile_startup_leases: "reconcile_startup env db now logs = Inr (x, db') \<Longrightarrow> leases_ok db \<Longrightarrow> leases_ok db'"
  by (auto simp: reconcile_startup_def res_bind_eq_Inr
      dest!: expire_each_leases lapse_all_leases reconcile_revoked_leases)

lemma time_out_each_leases: "time_out_each env db rows now n = Inr (x, db') \<Longrightarrow> leases_ok db \<Longrightarrow> leases_ok db'"
proof (induction rows arbitrary: db n)
  case (Cons row rows)
  then show ?case
    by (cases row) (auto simp: res_bind_eq_Inr free_event_def dest!: free_event_leases release_leases)
qed simp

lemma sweep_leases: "sweep_queue_timeouts env db now = Inr (n, db') \<Longrightarrow> leases_ok db \<Longrightarrow> leases_ok db'"
  by (auto simp: sweep_queue_timeouts_def Let_def dest: time_out_each_leases)

end
