(* ===== verification/Dispatch_Runs.thy ===== *)
theory Dispatch_Runs
  imports Lease_Safety
begin

text \<open>
  Sequences of dispatch operations.  \<open>perform\<close> runs one operation in one transaction of the store's
  writer (\<open>crates/sentinel-store/src/lib.rs\<close>): an error rolls the transaction back.  \<open>dispatch_all\<close> runs
  a sequence, in whatever order workers, the sweeper and users send them.  The locale
  \<open>statement_effect\<close> carries a relation between two databases from the statements the operations are
  made of to every operation and every sequence.
\<close>

subsection \<open>Leasing keeps the leases\<close>

lemma transition_writes:
  assumes "transition env db tenant job a ev now = Inr (s, db')"
  obtains row c where "read_job_row db tenant job = Inr row" "job_apply (control_of row) a ev = (Inr s, c)"
    "job_step (control_of row) a ev c"
    "only_checks (db\<lparr>db_jobs := map (\<lambda>r. if job_at tenant job r \<and> jr_state_code r = encode_state (jw_state row)
          \<and> jr_fence r = jw_fence row
        then job_moved s (jc_fence c) (failure_of_event ev) now r else r) (db_jobs db)\<rparr>) db'"
proof -
  obtain row where row: "read_job_row db tenant job = Inr row"
    and t: "transition_from env db tenant job row a ev now = Inr (s, db')"
    using assms by (auto simp: transition_def res_bind_eq_Inr)
  obtain res c where ap: "job_apply (control_of row) a ev = (res, c)" by (cases "job_apply (control_of row) a ev")
  have "res = Inr s \<and> record_job env (db\<lparr>db_jobs := map (\<lambda>r. if job_at tenant job r
          \<and> jr_state_code r = encode_state (jw_state row) \<and> jr_fence r = jw_fence row
        then job_moved s (jc_fence c) (failure_of_event ev) now r else r) (db_jobs db)\<rparr>) tenant job now = Inr db'"
    using t ap unfolding transition_from_def control_of_def [symmetric] Let_def
    by (cases res) (auto simp: res_map_eq_Inr update_where_def map_err_def split: if_splits)
  then show ?thesis using that [OF row] ap job_apply_step record_job_frame by blast
qed

lemma leased_step: "job_step c a (Ev_Leased f) c' \<Longrightarrow> jc_state c = Queued \<and> jc_fence c < f \<and> jc_state c' = Leased \<and> jc_fence c' = f"
  by (auto elim!: job_step.cases)

lemma lease_reserved_cases:
  assumes "lease_reserved env db tenant job worker rsv until now = Inr ((attempt, f), db')"
  obtains db1 n where "transition env db tenant job Controller (Ev_Leased f) now = Inr (Leased, db1)"
    "db_jobs db' = db_jobs db1" "db_attempts db' = db_attempts db1 @ [n]" "at_id n = attempt" "at_job n = job"
    "at_tenant n = tenant" "at_fence n = f" "live n" "attempt \<notin> at_id ` set (db_attempts db1)"
proof -
  obtain row where row: "read_job_row db tenant job = Inr row" "f = fence_next (jw_fence row)"
    using assms by (auto simp: lease_reserved_def res_bind_eq_Inr Let_def fresh_id_def split: if_splits)
  obtain s db1 where t: "transition_from env db tenant job row Controller (Ev_Leased f) now = Inr (s, db1)"
    using assms row by (auto simp: lease_reserved_def res_bind_eq_Inr Let_def)
  have t2: "transition env db tenant job Controller (Ev_Leased f) now = Inr (s, db1)"
    using t row(1) by (simp add: transition_def)
  have "s = Leased" by (rule transition_writes [OF t2]) (use leased_step job_apply_ok in blast)
  let ?n = "\<lparr>at_id = attempt, at_tenant = tenant, at_job = job, at_fence = f, at_worker = worker,
       at_lease_until_ms = until, at_cpu_millis = rv_cpu_millis rsv, at_memory_bytes = rv_memory_bytes rsv,
       at_disk_bytes = rv_disk_bytes rsv, at_offered_ms = now, at_acked_ms = None, at_released_ms = None,
       at_repo = rv_repo rsv, at_summary = None, at_log_state = 0\<rparr>"
  have "attempt_insertable (db1\<lparr>db_drawn := Suc (db_drawn db1)\<rparr>) ?n
      \<and> db' = db1\<lparr>db_drawn := Suc (db_drawn db1), db_attempts := db_attempts db1 @ [?n]\<rparr>"
    using assms t row by (simp add: lease_reserved_def Let_def fresh_id_def split: if_splits) auto
  then show ?thesis using t2 \<open>s = Leased\<close>
    by (intro that [of db1 ?n]) (auto simp: attempt_insertable_def list_ex_iff)
qed

lemma lease_reserved_leases:
  assumes "lease_reserved env db tenant job worker rsv until now = Inr (x, db')" "leases_ok db"
  shows "leases_ok db'"
proof -
  obtain attempt f where x: "x = (attempt, f)" by (cases x)
  note ok = leases_jobs_ok [OF assms(2)]
  show ?thesis
  proof (rule lease_reserved_cases [OF assms(1) [unfolded x]])
    fix db1 n
    assume t: "transition env db tenant job Controller (Ev_Leased f) now = Inr (Leased, db1)"
      and db': "db_jobs db' = db_jobs db1" "db_attempts db' = db_attempts db1 @ [n]"
      and n: "at_id n = attempt" "at_job n = job" "at_tenant n = tenant" "at_fence n = f" "live n"
        "attempt \<notin> at_id ` set (db_attempts db1)"
    show ?thesis
    proof (rule transition_cases [OF t ok])
      fix r row c
      assume r: "r \<in> set (db_jobs db)" "job_at tenant job r" "decode_job r = Inr row"
        and st: "job_step (control_of row) Controller (Ev_Leased f) c"
        and db1: "only_checks (db\<lparr>db_jobs := map (\<lambda>x. if jr_id x = job
            then job_moved Leased (jc_fence c) (failure_of_event (Ev_Leased f)) now x else x) (db_jobs db)\<rparr>) db1"
      let ?g = "\<lambda>x. if jr_id x = job then job_moved Leased f (failure_of_event (Ev_Leased f)) now x else x"
      have c: "jw_state row = Queued" "jr_fence r < f" "jc_fence c = f"
        using leased_step [OF st] r(3) by (simp_all add: control_of_def decode_job_eq_Inr)
      show ?thesis
      proof (rule leases_begin [OF assms(2) r(1), where g = ?g and n = n])
        show "\<not> owned r" using owned_decoded [OF r(3)] c(1) by simp
        show "db_jobs db' = map ?g (db_jobs db)" using only_checksD(1) [OF db1] db'(1) c(3) by simp
        show "db_attempts db' = db_attempts db @ [n]" using only_checksD(4) [OF db1] db'(2) by simp
        show "at_id n \<notin> at_id ` set (db_attempts db)" using only_checksD(4) [OF db1] n(1,6) by simp
      qed (use r(2) n c(2) in \<open>auto simp: owned_moved\<close>)
    qed
  qed
qed

lemma lease_leases: "lease env db tenant job worker until now = Inr (x, db') \<Longrightarrow> leases_ok db \<Longrightarrow> leases_ok db'"
  by (auto simp: lease_def res_bind_eq_Inr split: if_splits dest: lease_reserved_leases)
subsection \<open>Sequences of operations\<close>

datatype dispatch_op =
    Do_Lease uuid uuid uuid int
  | Do_Acknowledge uuid uuid fence
  | Do_Decline uuid uuid fence
  | Do_Lapse uuid
  | Do_LapseDue "uuid \<Rightarrow> bool"
  | Do_Renew uuid "uuid list" int
  | Do_Report uuid uuid fence event "u8 list option" log_store
  | Do_LogEnded uuid
  | Do_Abandon uuid uuid fence log_store
  | Do_Expire uuid log_store
  | Do_ExpireBatch "(uuid \<times> bool) list"
  | Do_ReconcileRevoked log_store
  | Do_ReconcileStartup log_store
  | Do_Cancel uuid uuid
  | Do_CancelRun uuid uuid
  | Do_SweepQueue
  | Do_Release uuid uuid

fun perform :: "store_env \<Rightarrow> db \<Rightarrow> int \<Rightarrow> dispatch_op \<Rightarrow> store_error + db" where
  "perform env db now (Do_Lease tenant job worker until) = res_map snd (lease env db tenant job worker until now)"
| "perform env db now (Do_Acknowledge worker attempt f) = res_map snd (acknowledge db worker attempt f now)"
| "perform env db now (Do_Decline worker attempt f) = res_map snd (decline env db worker attempt f now)"
| "perform env db now (Do_Lapse attempt) = lapse env db attempt now"
| "perform env db now (Do_LapseDue deferred) = res_map snd (lapse_due env db now deferred)"
| "perform env db now (Do_Renew worker held lease_ms) = res_map snd (renew db worker held lease_ms now)"
| "perform env db now (Do_Report worker attempt f ev summary logs) =
     res_map snd (report env db worker attempt f ev summary now logs)"
| "perform env db now (Do_LogEnded attempt) = log_ended db attempt"
| "perform env db now (Do_Abandon worker attempt f logs) = res_map snd (abandon env db worker attempt f now logs)"
| "perform env db now (Do_Expire attempt logs) = res_map snd (expire env db attempt now logs)"
| "perform env db now (Do_ExpireBatch batch) = Inr (snd (expire_batch env db batch now swept_default))"
| "perform env db now (Do_ReconcileRevoked logs) = res_map snd (reconcile_revoked env db now logs)"
| "perform env db now (Do_ReconcileStartup logs) = res_map snd (reconcile_startup env db now logs)"
| "perform env db now (Do_Cancel tenant job) = res_map snd (cancel env db tenant job now)"
| "perform env db now (Do_CancelRun tenant run) = res_map snd (cancel_run env db tenant run now)"
| "perform env db now Do_SweepQueue = res_map snd (sweep_queue_timeouts env db now)"
| "perform env db now (Do_Release tenant run) = res_map snd (release_dependents env db tenant run now)"

text \<open>A transaction that fails leaves the database as it was.\<close>

definition dispatch :: "store_env \<Rightarrow> db \<Rightarrow> int \<times> dispatch_op \<Rightarrow> db" where
  "dispatch env db step = (case perform env db (fst step) (snd step) of Inr db' \<Rightarrow> db' | Inl _ \<Rightarrow> db)"

definition dispatch_all :: "store_env \<Rightarrow> db \<Rightarrow> (int \<times> dispatch_op) list \<Rightarrow> db" where
  "dispatch_all env = foldl (dispatch env)"

lemmas operations_keep_leases = lease_leases acknowledge_leases decline_leases lapse_leases lapse_due_leases
  renew_leases report_leases log_ended_leases abandon_leases expire_leases reconcile_revoked_leases
  reconcile_startup_leases cancel_leases cancel_run_leases sweep_leases release_leases

lemma perform_leases: "perform env db now op = Inr db' \<Longrightarrow> leases_ok db \<Longrightarrow> leases_ok db'"
proof (cases op)
  case (Do_ExpireBatch batch)
  assume "perform env db now op = Inr db'" "leases_ok db"
  then show ?thesis unfolding Do_ExpireBatch
    by (auto intro: expire_batch_leases [OF prod.collapse [symmetric]])
qed (auto simp: res_map_eq_Inr dest: operations_keep_leases)

lemma dispatch_all_leases: "leases_ok db \<Longrightarrow> leases_ok (dispatch_all env db steps)"
  unfolding dispatch_all_def
  by (induction steps arbitrary: db) (auto simp: dispatch_def split: sum.splits dest: perform_leases)

subsection \<open>What every operation respects\<close>

definition job_keys :: "db \<Rightarrow> (uuid \<times> uuid \<times> fence) list" where
  "job_keys db = map (\<lambda>r. (jr_id r, jr_tenant r, jr_fence r)) (db_jobs db)"

locale statement_effect =
  fixes env :: store_env and R :: "db \<Rightarrow> db \<Rightarrow> bool"
  assumes refl: "R db db"
    and trans: "R a b \<Longrightarrow> R b c \<Longrightarrow> R a c"
    and transitions: "transition env db tenant job who ev now = Inr (s, db') \<Longrightarrow> R db db'"
    and updates: "update_attempts P f db = Inr (n, db') \<Longrightarrow> R db db'"
    and leases: "lease_reserved env db tenant job worker rsv until now = Inr (x, db') \<Longrightarrow> R db db'"
    and frames: "db_attempts db' = db_attempts db \<Longrightarrow> job_keys db' = job_keys db \<Longrightarrow> R db db'"
begin

lemma release_one_respects: "release_one env tenant run now spec k rl = Inr rl' \<Longrightarrow> R (rl_db rl) (rl_db rl')"
  by (auto simp: release_one_def Let_def res_bind_eq_Inr split: if_splits option.splits prod.splits
      intro: refl dest!: transitions)

lemma release_loop_respects: "release_loop env tenant run now spec ks rl = Inr rl' \<Longrightarrow> R (rl_db rl) (rl_db rl')"
  by (induction ks arbitrary: rl) (auto simp: res_bind_eq_Inr intro: refl trans release_one_respects)

lemma release_with_respects: "release_dependents_with env db tenant run now cached = Inr (x, db') \<Longrightarrow> R db db'"
  by (auto simp: release_dependents_with_def res_bind_eq_Inr split: if_splits intro: refl dest!: release_loop_respects)

lemma release_respects: "release_dependents env db tenant run now = Inr (n, db') \<Longrightarrow> R db db'"
  by (auto simp: release_dependents_def res_map_eq_Inr dest: release_with_respects)

lemma lease_respects: "lease env db tenant job worker until now = Inr (x, db') \<Longrightarrow> R db db'"
  by (auto simp: lease_def res_bind_eq_Inr split: if_splits dest: leases)

lemma jobs_respects:
  "(\<And>r. jr_id (g r) = jr_id r \<and> jr_tenant (g r) = jr_tenant r \<and> jr_fence (g r) = jr_fence r) \<Longrightarrow>
     R db (db\<lparr>db_jobs := snd (update_where P g (db_jobs db))\<rparr>)"
  by (rule frames) (auto simp: job_keys_def update_where_def)

lemma give_back_respects:
  assumes "give_back env db attempt tenant job f now = Inr (s, db')"
  shows "R db db'"
proof -
  let ?stamp = "\<lambda>db. db\<lparr>db_jobs := snd (update_where (job_at tenant job)
             (\<lambda>r. r\<lparr>jr_stamps := (jr_stamps r)\<lparr>ts_leased := None\<rparr>\<rparr>) (db_jobs db))\<rparr>"
  have st: "R db (?stamp db)" for db by (rule jobs_respects) simp
  have r: "R (?stamp a) b \<Longrightarrow> R a b" for a b using trans [OF st] .
  show ?thesis
    using assms unfolding give_back_def Let_def
    by (auto simp: res_bind_eq_Inr split: if_splits
        dest!: transitions updates release_respects r intro: trans)
qed

lemma lapse_respects: "lapse env db attempt now = Inr db' \<Longrightarrow> R db db'"
  by (auto simp: lapse_def res_bind_eq_Inr res_map_eq_Inr split: option.splits dest: give_back_respects)

lemma decline_respects: "decline env db worker attempt f now = Inr (s, db') \<Longrightarrow> R db db'"
  by (auto simp: decline_def res_bind_eq_Inr split: option.splits dest: give_back_respects)

lemma acknowledge_respects: "acknowledge db worker attempt f now = Inr (t, db') \<Longrightarrow> R db db'"
  by (auto simp: acknowledge_def res_bind_eq_Inr split: option.splits if_splits dest: updates)

lemma renew_each_respects: "renew_each db worker until now held stop = Inr (x, db') \<Longrightarrow> R db db'"
  by (induction held arbitrary: db stop) (auto simp: res_bind_eq_Inr intro: refl dest!: updates intro: trans)

lemma renew_respects: "renew db worker held lease_ms now = Inr (x, db') \<Longrightarrow> R db db'"
  by (auto simp: renew_def Let_def res_map_eq_Inr split: if_splits dest: renew_each_respects)

lemma log_ended_respects: "log_ended db attempt = Inr db' \<Longrightarrow> R db db'"
  by (auto simp: log_ended_def res_map_eq_Inr dest: updates)

lemma record_missing_respects: "record_missing env db tenant run job attempt missing now = Inr db' \<Longrightarrow> R db db'"
  using record_missing_frame by (auto intro!: frames simp: job_keys_def)

lemma finish_apply_respects:
  "finish_apply env db tenant run job attempt a missing spec ev now logs = Inr (s, db') \<Longrightarrow> R db db'"
  unfolding finish_apply_def Let_def
  by (auto simp: res_bind_eq_Inr split: if_splits
      dest!: transitions updates record_missing_respects release_with_respects intro: trans)

lemma finish_respects: "finish env db attempt a ev now logs = Inr (s, db') \<Longrightarrow> R db db'"
  by (auto simp: finish_def res_bind_eq_Inr split: option.splits if_splits dest: finish_apply_respects)

lemma report_respects: "report env db worker attempt f ev summary now logs = Inr (s, db') \<Longrightarrow> R db db'"
  by (auto simp: report_def Let_def res_bind_eq_Inr res_map_eq_Inr split: option.splits if_splits
      dest!: finish_respects updates intro: trans)

lemma expire_respects: "expire env db attempt now logs = Inr (s, db') \<Longrightarrow> R db db'"
  by (auto simp: expire_def split: if_splits dest: finish_respects)

lemma isolated_respects: "(\<And>x db'. m = Inr (x, db') \<Longrightarrow> R db db') \<Longrightarrow> R db (snd (isolated db m))"
  by (auto simp: isolated_def refl split: sum.splits)

lemma expire_batch_respects: "R db (snd (expire_batch env db batch now sw))"
proof (induction batch arbitrary: db sw)
  case (Cons d batch)
  obtain attempt ended where d: "d = (attempt, ended)" by (cases d)
  let ?m = "res_bind (expire env db attempt now None) (\<lambda>(state, db).
            if ended then res_map (\<lambda>db. (state, db)) (log_ended db attempt) else Inr (state, db))"
  have "R db (snd (isolated db ?m))"
    by (rule isolated_respects)
      (auto simp: res_bind_eq_Inr res_map_eq_Inr split: if_splits dest!: expire_respects log_ended_respects intro: trans)
  then show ?case using Cons.IH trans by (auto simp: d Let_def case_prod_beta)
qed (simp add: refl)

lemma lapse_each_respects: "R db (snd (lapse_each env db offers deferred now sw))"
proof (induction offers arbitrary: db sw)
  case (Cons attempt offers)
  have "R db (snd (isolated db (res_map (\<lambda>db. ((), db)) (lapse env db attempt now))))"
    by (rule isolated_respects) (auto simp: res_map_eq_Inr dest: lapse_respects)
  then show ?case using Cons.IH trans by (auto simp: Let_def case_prod_beta)
qed (simp add: refl)

lemma lapse_due_respects: "lapse_due env db now deferred = Inr (sw, db') \<Longrightarrow> R db db'"
  using lapse_each_respects [of db _ deferred now swept_default]
  by (auto simp: lapse_due_def res_map_eq_Inr) (metis snd_conv)

lemma abandon_respects: "abandon env db worker attempt f now logs = Inr (s, db') \<Longrightarrow> R db db'"
  by (auto simp: abandon_def res_bind_eq_Inr res_map_eq_Inr split: option.splits if_splits
      dest: lapse_respects finish_respects)

lemma settle_revoked_respects: "settle_revoked env db held now logs = Inr db' \<Longrightarrow> R db db'"
proof (induction held arbitrary: db)
  case (Cons d held)
  then show ?case
    by (cases d) (auto simp: res_bind_eq_Inr res_map_eq_Inr split: if_splits
        dest!: lapse_respects finish_respects intro: trans)
qed (simp add: refl)

lemma reconcile_revoked_respects: "reconcile_revoked env db now logs = Inr (n, db') \<Longrightarrow> R db db'"
  by (auto simp: reconcile_revoked_def Let_def res_map_eq_Inr dest: settle_revoked_respects)

lemma expire_each_respects: "expire_each env db over now logs = Inr db' \<Longrightarrow> R db db'"
  by (induction over arbitrary: db) (auto simp: res_bind_eq_Inr intro: refl dest!: expire_respects intro: trans)

lemma lapse_all_respects: "lapse_all env db offers now = Inr db' \<Longrightarrow> R db db'"
  by (induction offers arbitrary: db) (auto simp: res_bind_eq_Inr intro: refl dest!: lapse_respects intro: trans)

lemma reconcile_startup_respects: "reconcile_startup env db now logs = Inr (x, db') \<Longrightarrow> R db db'"
  by (auto simp: reconcile_startup_def res_bind_eq_Inr
      dest!: expire_each_respects lapse_all_respects reconcile_revoked_respects intro: trans)

lemma request_cancel_respects: "store_request_cancel db tenant job = Inr (b, db') \<Longrightarrow> R db db'"
  by (auto simp: store_request_cancel_def update_where_def res_bind_eq_Inr Let_def job_keys_def split: if_splits
      intro!: frames)

lemma cancel_one_respects: "cancel_one env db tenant job now = Inr (x, db') \<Longrightarrow> R db db'"
  by (auto simp: cancel_one_def res_bind_eq_Inr res_map_eq_Inr split: if_splits
      intro: refl dest!: request_cancel_respects transitions intro: trans)

lemma cancel_respects: "cancel env db tenant job now = Inr (x, db') \<Longrightarrow> R db db'"
  by (auto simp: cancel_def res_bind_eq_Inr res_map_eq_Inr split: if_splits
      dest!: cancel_one_respects release_respects intro: trans)

lemma cancel_each_respects: "cancel_each env db tenant jobs now n = Inr (x, db') \<Longrightarrow> R db db'"
proof (induction jobs arbitrary: db n)
  case (Cons js jobs)
  then show ?case
    by (cases js) (auto simp: res_bind_eq_Inr split: if_splits dest!: cancel_one_respects intro: trans)
qed (simp add: refl)

lemma cancel_run_respects:
  assumes "cancel_run env db tenant run now = Inr (n, db')"
  shows "R db db'"
proof -
  have "R (db\<lparr>db_runs := x\<rparr>) b \<Longrightarrow> R db b" for x b
    by (rule trans [OF frames]) (auto simp: job_keys_def)
  with assms show ?thesis unfolding cancel_run_def Let_def
    by (auto simp: res_bind_eq_Inr dest!: cancel_each_respects release_respects intro: trans)
qed

lemma time_out_each_respects: "time_out_each env db rows now n = Inr (x, db') \<Longrightarrow> R db db'"
proof (induction rows arbitrary: db n)
  case (Cons row rows)
  then show ?case
    by (cases row) (auto simp: res_bind_eq_Inr dest!: transitions release_respects intro: trans)
qed (simp add: refl)

lemma sweep_respects: "sweep_queue_timeouts env db now = Inr (n, db') \<Longrightarrow> R db db'"
  by (auto simp: sweep_queue_timeouts_def Let_def dest: time_out_each_respects)

lemmas operations_respect = lease_respects acknowledge_respects decline_respects lapse_respects lapse_due_respects
  renew_respects report_respects log_ended_respects abandon_respects expire_respects reconcile_revoked_respects
  reconcile_startup_respects cancel_respects cancel_run_respects sweep_respects release_respects

lemma perform_respects: "perform env db now op = Inr db' \<Longrightarrow> R db db'"
  by (cases op) (auto simp: res_map_eq_Inr intro: expire_batch_respects dest: operations_respect)

lemma dispatch_all_respects: "R db (dispatch_all env db steps)"
  unfolding dispatch_all_def
proof (induction steps arbitrary: db)
  case (Cons st steps)
  have "R db (dispatch env db st)" by (auto simp: dispatch_def refl split: sum.splits dest: perform_respects)
  then show ?case using Cons trans by auto
qed (simp add: refl)

end
text \<open>An attempt that has ended stays ended, and the fence of a job never falls.\<close>

definition ended :: "uuid \<Rightarrow> db \<Rightarrow> bool" where
  "ended x db \<longleftrightarrow> (\<exists>a\<in>set (db_attempts db). at_id a = x \<and> \<not> live a)"

lemma ended_mono: "set (db_attempts db) \<subseteq> set (db_attempts db') \<Longrightarrow> ended x db \<Longrightarrow> ended x db'"
  by (auto simp: ended_def)

definition fences_ahead :: "db \<Rightarrow> db \<Rightarrow> bool" where
  "fences_ahead db db' \<longleftrightarrow>
     list_all2 (\<lambda>(i, t, f) (i', t', f'). i' = i \<and> t' = t \<and> f \<le> f') (job_keys db) (job_keys db')"

lemma transition_fences:
  assumes "transition env db tenant job who ev now = Inr (s, db')"
  shows "fences_ahead db db'"
proof (rule transition_writes [OF assms])
  fix row c
  assume st: "job_step (control_of row) who ev c"
    and w: "only_checks (db\<lparr>db_jobs := map (\<lambda>r. if job_at tenant job r \<and> jr_state_code r = encode_state (jw_state row)
          \<and> jr_fence r = jw_fence row
        then job_moved s (jc_fence c) (failure_of_event ev) now r else r) (db_jobs db)\<rparr>) db'"
  have "jw_fence row \<le> jc_fence c" using st by (auto simp: control_of_def elim!: job_step.cases)
  then show ?thesis using only_checksD(1) [OF w]
    by (auto simp: fences_ahead_def job_keys_def list_all2_map1 list_all2_map2 intro!: list_all2_refl)
qed

lemma lease_reserved_fences:
  "lease_reserved env db tenant job worker rsv until now = Inr (x, db') \<Longrightarrow> fences_ahead db db'"
  by (cases x) (auto elim!: lease_reserved_cases dest!: transition_fences simp: fences_ahead_def job_keys_def)

lemma fences_ahead_trans: "fences_ahead a b \<Longrightarrow> fences_ahead b c \<Longrightarrow> fences_ahead a c"
  unfolding fences_ahead_def by (rule list_all2_trans) auto

lemma update_attempts_ended: "update_attempts P f db = Inr (n, db') \<Longrightarrow> ended x db \<Longrightarrow> ended x db'"
proof -
  assume u: "update_attempts P f db = Inr (n, db')" and "ended x db"
  then obtain a where a: "a \<in> set (db_attempts db)" "at_id a = x" "\<not> live a" by (auto simp: ended_def)
  let ?a = "if P a then f a else a"
  have "at_id ?a = x \<and> \<not> live ?a" using u a by (auto simp: update_attempts_eq attempt_terms_ok_def)
  moreover have "?a \<in> set (db_attempts db')" using u a(1) by (auto simp: update_attempts_eq)
  ultimately show "ended x db'" unfolding ended_def by blast
qed

lemma transition_attempts_any: "transition env db tenant job who ev now = Inr (s, db') \<Longrightarrow> db_attempts db' = db_attempts db"
  by (auto elim!: transition_writes dest!: only_checksD(4))

interpretation over: statement_effect env "\<lambda>db db'. \<forall>x. ended x db \<longrightarrow> ended x db'" for env
proof
  show "\<forall>x. ended x db \<longrightarrow> ended x db'" if "lease_reserved env db tenant job worker rsv until now = Inr (x, db')"
    for db tenant job worker rsv until now x db'
    using that by (cases x) (auto elim!: lease_reserved_cases ended_mono [rotated] dest!: transition_attempts_any)
  show "\<forall>x. ended x db \<longrightarrow> ended x db'" if "transition env db tenant job who ev now = Inr (s, db')"
    for db tenant job who ev now s db'
    using transition_attempts_any [OF that] by (simp add: ended_def)
  show "\<forall>x. ended x db \<longrightarrow> ended x db'" if "update_attempts P f db = Inr (n, db')" for P f db n db'
    using update_attempts_ended [OF that] by blast
  show "\<forall>x. ended x db \<longrightarrow> ended x db'" if "db_attempts db' = db_attempts db" for db db'
    using that by (simp add: ended_def)
qed auto

interpretation ahead: statement_effect env fences_ahead for env
proof
  show "fences_ahead db db" for db by (auto simp: fences_ahead_def intro!: list_all2_refl)
  show "fences_ahead a b \<Longrightarrow> fences_ahead b c \<Longrightarrow> fences_ahead a c" for a b c by (rule fences_ahead_trans)
  show "fences_ahead db db'" if "update_attempts P f db = Inr (n, db')" for P f db n db'
    using that by (auto simp: update_attempts_eq fences_ahead_def job_keys_def intro!: list_all2_refl)
  show "fences_ahead db db'" if "db_attempts db' = db_attempts db" "job_keys db' = job_keys db" for db db'
    using that(2) by (auto simp: fences_ahead_def intro!: list_all2_refl)
qed (auto intro: transition_fences lease_reserved_fences)

subsection \<open>What a worker can rely on\<close>

lemma live_attempts_of:
  assumes "leases_ok db" "r \<in> set (db_jobs db)" "a \<in> set (db_attempts db)" "at_job a = jr_id r"
  shows "at_tenant a = jr_tenant r" "at_fence a \<le> jr_fence r" "live a \<Longrightarrow> owned r \<and> at_fence a = jr_fence r"
proof -
  obtain x where x: "x \<in> set (db_jobs db)" "jr_id x = at_job a" "jr_tenant x = at_tenant a"
      "at_fence a \<le> jr_fence x" "live a \<longrightarrow> owned x \<and> at_fence a = jr_fence x"
    using assms(1,3) unfolding leases_ok_def covered_def by blast
  then have "x = r" using keyed_inj [OF leases_jobs_ok [OF assms(1)] x(1) assms(2)] assms(4) by simp
  with x show "at_tenant a = jr_tenant r" "at_fence a \<le> jr_fence r" "live a \<Longrightarrow> owned r \<and> at_fence a = jr_fence r"
    by auto
qed

lemma one_holder:
  assumes "leases_ok db" "r \<in> set (db_jobs db)"
  shows "length (filter (\<lambda>a. live a \<and> at_job a = jr_id r) (db_attempts db)) = (if owned r then 1 else 0)"
proof (cases "owned r")
  case True
  then obtain a where a: "a \<in> set (db_attempts db)" "live a" "at_job a = jr_id r"
    using assms unfolding leases_ok_def by blast
  note ok = assms(1) [unfolded leases_ok_def]
  have only: "x = a" if "x \<in> set (db_attempts db)" "live x" "at_job x = jr_id r" for x
  proof -
    have "(at_job x, at_fence x) = (at_job a, at_fence a)"
      using live_attempts_of(3) [OF assms that(1,3,2)] live_attempts_of(3) [OF assms a(1,3,2)] that(3) a(3) by simp
    then show ?thesis by (intro keyed_inj [OF _ that(1) a(1), where key = "\<lambda>a. (at_job a, at_fence a)"]) (use ok in blast)+
  qed
  have "filter (\<lambda>a. live a \<and> at_job a = jr_id r) (db_attempts db) = filter (\<lambda>x. x = a) (db_attempts db)"
    by (rule filter_cong [OF HOL.refl]) (use only a in blast)
  also have "\<dots> = [a]"
    by (rule filter_keyed [where key = at_id]) (use ok a(1) in blast)+
  finally have "filter (\<lambda>a. live a \<and> at_job a = jr_id r) (db_attempts db) = [a]" .
  then show ?thesis using True by simp
next
  case False
  then have "filter (\<lambda>a. live a \<and> at_job a = jr_id r) (db_attempts db) = []"
    using live_attempts_of(3) [OF assms] by (auto simp: filter_empty_conv)
  then show ?thesis using False by simp
qed

lemma fences_aheadD:
  assumes "fences_ahead db db'" "r \<in> set (db_jobs db)"
  shows "\<exists>r'\<in>set (db_jobs db'). jr_id r' = jr_id r \<and> jr_fence r \<le> jr_fence r'"
proof -
  have all: "list_all2 (\<lambda>r r'. jr_id r' = jr_id r \<and> jr_fence r \<le> jr_fence r') (db_jobs db) (db_jobs db')"
    using assms(1) unfolding fences_ahead_def job_keys_def list_all2_map1 list_all2_map2
    by (rule list_all2_mono) auto
  obtain n where n: "n < length (db_jobs db)" "db_jobs db ! n = r" using assms(2) by (auto simp: in_set_conv_nth)
  with list_all2_nthD [OF all n(1)] list_all2_lengthD [OF all] show ?thesis
    by (intro bexI [of _ "db_jobs db' ! n"]) auto
qed

lemma ended_is_not_held:
  assumes "leases_ok db" "ended x db" "a \<in> set (db_attempts db)" "at_id a = x"
  shows "\<not> live a"
  using assms keyed_inj [of at_id "db_attempts db" _ a] unfolding leases_ok_def ended_def by metis

lemma find_none_held:
  assumes "leases_ok db" "ended x db" "\<And>a. P a \<Longrightarrow> at_id a = x \<and> live a"
  shows "find P (db_attempts db) = None"
  using ended_is_not_held [OF assms(1,2)] assms(3) unfolding find_None_iff by blast

lemma renew_each_stops:
  assumes "renew_each db worker until now held stop = Inr (out, db')" "leases_ok db" "ended x db" "x \<in> set held \<union> set stop"
  shows "x \<in> set out"
  using assms
proof (induction held arbitrary: db stop)
  case (Cons attempt held)
  let ?P = "\<lambda>a. at_id a = attempt \<and> at_worker a = worker \<and> at_acked_ms a \<noteq> None \<and> live a \<and> now \<le> at_lease_until_ms a"
  obtain n db1 where u: "update_attempts ?P (\<lambda>a. a\<lparr>at_lease_until_ms := max (at_lease_until_ms a) until\<rparr>) db = Inr (n, db1)"
    and rest: "renew_each db1 worker until now held (if n = 0 then stop @ [attempt] else stop) = Inr (out, db')"
    using Cons.prems(1) by (auto simp: res_bind_eq_Inr)
  have ok: "leases_ok db1" by (rule update_attempts_leases [OF u Cons.prems(2)]) simp
  have over: "ended x db1" by (rule update_attempts_ended [OF u Cons.prems(3)])
  have "n = 0" if "attempt = x"
    using u that ended_is_not_held [OF Cons.prems(2,3)] by (auto simp: update_attempts_eq filter_empty_conv)
  then show ?case using Cons.IH [OF rest ok over] Cons.prems(4) by (auto split: if_splits)
qed auto

text \<open>
  C4: a job is never held by two workers.  From a database whose leases are in order, after any sequence
  of dispatch operations (leases, acknowledgements, reports, renewals, expiries, cancellations, sweeps,
  failed ones included), every job a worker owns has exactly one attempt that is not released, every
  other job has none, and that attempt is of the job's tenant and carries the job's current fence.
\<close>

theorem lease_is_exclusive:
  assumes "leases_ok db" "r \<in> set (db_jobs (dispatch_all env db steps))"
  shows "length (filter (\<lambda>a. live a \<and> at_job a = jr_id r) (db_attempts (dispatch_all env db steps)))
      = (if owned r then 1 else 0)
    \<and> (\<forall>a\<in>set (db_attempts (dispatch_all env db steps)). live a \<and> at_job a = jr_id r \<longrightarrow>
      at_tenant a = jr_tenant r \<and> at_fence a = jr_fence r)"
proof (intro conjI)
  note ok = dispatch_all_leases [OF assms(1), of env steps]
  show "length (filter (\<lambda>a. live a \<and> at_job a = jr_id r) (db_attempts (dispatch_all env db steps)))
      = (if owned r then 1 else 0)"
    by (rule one_holder [OF ok assms(2)])
  show "\<forall>a\<in>set (db_attempts (dispatch_all env db steps)). live a \<and> at_job a = jr_id r \<longrightarrow>
      at_tenant a = jr_tenant r \<and> at_fence a = jr_fence r"
    using live_attempts_of [OF ok assms(2)] by blast
qed

text \<open>
  C7: an attempt that has ended never acts again.  Once an attempt is released, whatever operations
  follow, its worker's report and its decline are answered with not-found, its acknowledgement is
  refused, and a renewal that names it is answered with the order to stop it.
\<close>

theorem ended_attempt_never_acts:
  assumes "leases_ok db" "a \<in> set (db_attempts db)" "\<not> live a"
  shows "report env' (dispatch_all env db steps) worker (at_id a) f ev summary now logs = Inl SE_NotFound
    \<and> decline env' (dispatch_all env db steps) worker (at_id a) f now = Inl SE_NotFound
    \<and> acknowledge (dispatch_all env db steps) worker (at_id a) f now \<noteq> Inr (t, db')
    \<and> (renew (dispatch_all env db steps) worker held lease_ms now = Inr ((until, stop), db') \<longrightarrow>
         at_id a \<in> set held \<longrightarrow> at_id a \<in> set stop)"
proof (intro conjI)
  let ?db = "dispatch_all env db steps"
  have ok: "leases_ok ?db" by (rule dispatch_all_leases [OF assms(1)])
  have "ended (at_id a) db" using assms(2,3) by (auto simp: ended_def)
  then have over: "ended (at_id a) ?db" using over.dispatch_all_respects by blast
  note none = find_none_held [OF ok over]
  show "report env' ?db worker (at_id a) f ev summary now logs = Inl SE_NotFound"
    unfolding report_def by (subst none) auto
  show "decline env' ?db worker (at_id a) f now = Inl SE_NotFound"
    unfolding decline_def by (subst none) auto
  show "acknowledge ?db worker (at_id a) f now \<noteq> Inr (t, db')"
  proof
    assume "acknowledge ?db worker (at_id a) f now = Inr (t, db')"
    then obtain n db1 x where u: "update_attempts (\<lambda>x. at_id x = at_id a \<and> at_worker x = worker \<and> at_fence x = f
         \<and> at_acked_ms x = None \<and> live x \<and> worker_is_live ?db worker) (\<lambda>x. x\<lparr>at_acked_ms := Some now\<rparr>) ?db = Inr (n, db1)"
      and x: "find (\<lambda>x. at_id x = at_id a \<and> at_worker x = worker \<and> at_fence x = f
         \<and> worker_is_live db1 worker) (db_attempts db1) = Some x" "live x"
      by (auto simp: acknowledge_def res_bind_eq_Inr split: option.splits if_splits)
    have "leases_ok db1" by (rule update_attempts_leases [OF u ok]) simp
    with update_attempts_ended [OF u over] find_SomeD [OF x(1)] x(2) show False
      using ended_is_not_held by blast
  qed
  show "renew ?db worker held lease_ms now = Inr ((until, stop), db') \<longrightarrow> at_id a \<in> set held \<longrightarrow> at_id a \<in> set stop"
    using renew_each_stops [OF _ ok over] by (auto simp: renew_def Let_def res_map_eq_Inr split: if_splits)
qed

text \<open>
  C8: a later lease fences out every earlier one.  Whatever operations ran since an attempt was there,
  a lease of the same job gets a strictly greater fence, and at that moment no attempt of the job is
  held by anyone.
\<close>

theorem later_lease_fences_out_earlier:
  assumes "leases_ok db" "a \<in> set (db_attempts db)"
    and "lease env (dispatch_all env db steps) tenant (at_job a) worker until now = Inr ((attempt, f), db')"
  shows "at_fence a < f
    \<and> (\<forall>b\<in>set (db_attempts (dispatch_all env db steps)). at_job b = at_job a \<longrightarrow> \<not> live b \<and> at_fence b < f)"
proof (intro conjI)
  let ?db = "dispatch_all env db steps"
  have ok: "leases_ok ?db" by (rule dispatch_all_leases [OF assms(1)])
  obtain rsv where l: "lease_reserved env ?db tenant (at_job a) worker rsv until now = Inr ((attempt, f), db')"
    using assms(3) by (auto simp: lease_def res_bind_eq_Inr split: if_splits)
  obtain db1 where t: "transition env ?db tenant (at_job a) Controller (Ev_Leased f) now = Inr (Leased, db1)"
    by (rule lease_reserved_cases [OF l])
  obtain r where r: "r \<in> set (db_jobs ?db)" "jr_id r = at_job a" "\<not> owned r" "jr_fence r < f"
  proof (rule transition_cases [OF t leases_jobs_ok [OF ok]])
    fix r row c
    assume r: "r \<in> set (db_jobs ?db)" "job_at tenant (at_job a) r" "decode_job r = Inr row"
      and st: "job_step (control_of row) Controller (Ev_Leased f) c"
    then show ?thesis
      using leased_step [OF st] owned_decoded [OF r(3)] by (intro that [of r]) (auto simp: control_of_def decode_job_eq_Inr)
  qed
  show "\<forall>b\<in>set (db_attempts ?db). at_job b = at_job a \<longrightarrow> \<not> live b \<and> at_fence b < f"
    using live_attempts_of [OF ok r(1)] r(2-4) by fastforce
  obtain r0 where r0: "r0 \<in> set (db_jobs db)" "jr_id r0 = at_job a" "at_fence a \<le> jr_fence r0"
    using assms(1,2) unfolding leases_ok_def covered_def by blast
  obtain r' where "r' \<in> set (db_jobs ?db)" "jr_id r' = at_job a" "jr_fence r0 \<le> jr_fence r'"
    using fences_aheadD [OF ahead.dispatch_all_respects r0(1), of env steps] r0(2) by auto
  moreover have "r' = r" using keyed_inj [OF leases_jobs_ok [OF ok]] calculation r(1,2) by auto
  ultimately show "at_fence a < f" using r0(3) r(4) by (simp add: word_le_nat_alt word_less_nat_alt)
qed
subsection \<open>An attempt that ended and one that holds the job\<close>

definition old_attempt :: attempt_rec where
  "old_attempt = \<lparr>at_id = example_id 6, at_tenant = example_id 2, at_job = example_id 5, at_fence = 2,
     at_worker = example_id 8, at_lease_until_ms = 5, at_cpu_millis = 1, at_memory_bytes = 1, at_disk_bytes = 1,
     at_offered_ms = 1, at_acked_ms = Some 2, at_released_ms = Some 6, at_repo = None, at_summary = None,
     at_log_state = 1\<rparr>"

definition held_attempt :: attempt_rec where
  "held_attempt = old_attempt\<lparr>at_id := example_id 7, at_fence := 3, at_lease_until_ms := 60000, at_offered_ms := 7,
     at_acked_ms := Some 8, at_released_ms := None, at_log_state := 0\<rparr>"

definition held_run :: db where
  "held_run = one_run\<lparr>db_jobs := [skipped_job\<lparr>jr_state_code := encode_state Running, jr_fence := 3\<rparr>],
     db_attempts := [old_attempt, held_attempt], db_workers := [\<lparr>wk_id = example_id 8, wk_revoked_ms = None\<rparr>]\<rparr>"

definition queued_run :: db where
  "queued_run = one_run\<lparr>db_jobs := [skipped_job\<lparr>jr_state_code := encode_state Queued, jr_fence := 2,
       jr_image_digest := Some ''sha256:0'', jr_image_platform := Some ''linux/amd64''\<rparr>],
     db_attempts := [old_attempt], db_drawn := 7\<rparr>"

lemma example_id_eq [simp]: "n < 256 \<Longrightarrow> m < 256 \<Longrightarrow> example_id n = example_id m \<longleftrightarrow> n = m"
  by (auto simp: example_id_def word_of_nat_eq_iff take_bit_eq_mod)

lemma held_run_ok: "leases_ok held_run" "leases_ok queued_run"
  by (simp_all add: leases_ok_def covered_def held_run_def queued_run_def owned_def decode_state_def
      old_attempt_def held_attempt_def) (simp_all add: skipped_job_def)

lemma log_end_of_held:
  "dispatch_all example_env held_run [(9, Do_LogEnded (example_id 7))]
     = held_run\<lparr>db_attempts := [old_attempt, held_attempt\<lparr>at_log_state := 2\<rparr>]\<rparr>"
  by (simp add: dispatch_all_def dispatch_def log_ended_def update_attempts_def update_where_def held_run_def
      held_attempt_def old_attempt_def attempt_terms_ok_def)

theorem lease_is_exclusive_witness:
  "leases_ok held_run \<and> length (filter (\<lambda>a. live a \<and> at_job a = example_id 5)
     (db_attempts (dispatch_all example_env held_run [(9, Do_LogEnded (example_id 7))]))) = 1"
proof -
  let ?r = "skipped_job\<lparr>jr_state_code := encode_state Running, jr_fence := 3\<rparr>"
  have "?r \<in> set (db_jobs (dispatch_all example_env held_run [(9, Do_LogEnded (example_id 7))]))"
    unfolding log_end_of_held by (simp add: held_run_def)
  from lease_is_exclusive [OF held_run_ok(1) this] held_run_ok(1) show ?thesis
    by (simp add: owned_def decode_state_def) (simp add: skipped_job_def)
qed

theorem ended_attempt_never_acts_witness:
  "leases_ok held_run \<and> report example_env (dispatch_all example_env held_run [(9, Do_LogEnded (example_id 7))])
     (example_id 8) (example_id 6) 2 Ev_Passed None 10 None = Inl SE_NotFound"
proof -
  have "old_attempt \<in> set (db_attempts held_run)" "\<not> live old_attempt" "at_id old_attempt = example_id 6"
    by (simp_all add: held_run_def old_attempt_def)
  with ended_attempt_never_acts [OF held_run_ok(1) this(1,2)] held_run_ok(1) show ?thesis by simp
qed

lemma queued_run_leases:
  "\<exists>db'. lease example_env queued_run (example_id 2) (example_id 5) (example_id 8) 60000 9 = Inr ((example_id 7, 3), db')"
proof -
  let ?row = "\<lparr>jw_state = Queued, jw_fence = 2, jw_cancel_requested = False, jw_failure_class = None,
      jw_timestamps = ts_default\<rparr>"
  have r: "read_job_row queued_run (example_id 2) (example_id 5) = Inr ?row"
    by (simp add: queued_run_def read_job_row_def decode_job_def decode_state_def) (simp add: skipped_job_def)
  have cf: "check_facts (queued_run\<lparr>db_jobs := x\<rparr>) tenant run = Inr None" for x tenant run
    by (simp add: check_facts_def queued_run_def one_run_def no_rows_def Let_def)
  have ap: "job_apply \<lparr>jc_state = Queued, jc_fence = 2, jc_cancel_requested = False\<rparr> Controller (Ev_Leased 3)
      = (Inr Leased, \<lparr>jc_state = Leased, jc_fence = 3, jc_cancel_requested = False\<rparr>)"
    by code_simp
  have j: "db_jobs queued_run = [skipped_job\<lparr>jr_state_code := 1, jr_fence := 2,
       jr_image_digest := Some ''sha256:0'', jr_image_platform := Some ''linux/amd64''\<rparr>]"
    "db_attempts queued_run = [old_attempt]" "db_drawn queued_run = 7"
    by (simp_all add: queued_run_def)
  have t: "\<exists>db'. transition_from example_env queued_run (example_id 2) (example_id 5) ?row Controller (Ev_Leased 3) 9 = Inr (Leased, db')
      \<and> db_jobs db' = [job_moved Leased 3 (failure_of_event (Ev_Leased 3)) 9 (hd (db_jobs queued_run))]
      \<and> db_attempts db' = [old_attempt] \<and> db_drawn db' = 7"
    unfolding transition_from_def
    by (simp add: ap cf j Let_def update_where_def record_job_def map_err_def) (simp add: skipped_job_def example_ids j)
  then obtain db1 where d: "transition_from example_env queued_run (example_id 2) (example_id 5) ?row Controller (Ev_Leased 3) 9 = Inr (Leased, db1)"
      "db_jobs db1 = [job_moved Leased 3 (failure_of_event (Ev_Leased 3)) 9 (hd (db_jobs queued_run))]"
      "db_attempts db1 = [old_attempt]" "db_drawn db1 = 7" by blast
  have n: "fence_next (jw_fence ?row) = 3" by (simp add: fence_next_def)
  have k: "job_at (example_id 2) (example_id 5) (hd (db_jobs queued_run))" "env_new_id example_env 7 = example_id 7"
    "find (job_at (example_id 2) (example_id 5)) (db_jobs queued_run) = Some (hd (db_jobs queued_run))"
    by (simp_all add: j skipped_job_def example_env_def)
  have l: "length (example_id n) = 16" for n by (simp add: example_id_def)
  have o: "at_id old_attempt = example_id 6" "at_fence old_attempt = 2" by (simp_all add: old_attempt_def)
  have "\<exists>db'. lease_reserved example_env queued_run (example_id 2) (example_id 5) (example_id 8) rsv 60000 9
      = Inr ((example_id 7, 3), db')" if "rv_cpu_millis rsv = 1" "rv_memory_bytes rsv = 1" "rv_disk_bytes rsv = 1" for rsv
    unfolding lease_reserved_def r res_bind_Inr Let_def n d(1) prod.case fresh_id_def d(4) k(2)
    using that by (simp add: attempt_insertable_def d(2,3) l o job_moved_key k(1))
  then show ?thesis
    unfolding lease_def k(3) using j(1) by (simp add: ok_or_def skipped_job_def)
qed

theorem later_lease_fences_out_earlier_witness:
  "leases_ok queued_run \<and> (\<exists>attempt f db'. lease example_env (dispatch_all example_env queued_run []) (example_id 2)
     (example_id 5) (example_id 8) 60000 9 = Inr ((attempt, f), db') \<and> at_fence old_attempt < f)"
proof -
  have "old_attempt \<in> set (db_attempts queued_run)" and j: "at_job old_attempt = example_id 5"
    by (simp_all add: queued_run_def old_attempt_def)
  moreover obtain db' where l: "lease example_env (dispatch_all example_env queued_run []) (example_id 2) (at_job old_attempt)
      (example_id 8) 60000 9 = Inr ((example_id 7, 3), db')"
    using queued_run_leases j by (auto simp: dispatch_all_def)
  ultimately show ?thesis
    using later_lease_fences_out_earlier [OF held_run_ok(2) _ l] held_run_ok(2) l by auto
qed

end
