(* ===== verification/Redact_Automaton.thy ===== *)
theory Redact_Automaton
  imports Sentinel_Prelude
begin

text \<open>
  The multi-pattern automaton of \<open>crates/sentinel-worker/src/redact.rs\<close>: a trie of the values laid out
  in flat arrays, with failure links computed breadth first.

  \<open>build\<close> keeps the source's arrays: the edges of node \<open>n\<close> are \<open>edges[first[n]..first[n + 1]]\<close>, sorted by
  byte; \<open>fail\<close> is the failure link, \<open>out\<close> the length of the longest value that ends at the node.  The
  loops of \<open>build\<close> and \<open>next\<close> follow the links until they end and are \<open>partial_function (option)\<close>s: a loop
  that never ended would be \<open>None\<close>.  The casts to \<open>u32\<close> are written out (\<open>as_u32\<close>).

  The specification is \<open>lsuf W w\<close>, the longest suffix of \<open>w\<close> in a set of words.  A list \<open>ws\<close> names the
  word of every node; the automaton is correct when the state reached by a text is the node of the
  longest suffix of the text that is a prefix of a value, and \<open>out\<close> there is the length of the longest
  value the text ends with.
\<close>

subsection \<open>The trie\<close>

definition as_u32 :: "nat \<Rightarrow> nat" where
  "as_u32 n = n mod 2 ^ 32"

lemma as_u32_small [simp]: "n < 2 ^ 32 \<Longrightarrow> as_u32 n = n"
  by (simp add: as_u32_def)

record trie =
  tr_children :: "(u8 \<times> nat) list list"
  tr_depth :: "nat list"
  tr_terminal :: "bool list"

definition trie_new :: trie where
  "trie_new = \<lparr>tr_children = [[]], tr_depth = [0], tr_terminal = [False]\<rparr>"

fun trie_walk :: "trie \<Rightarrow> nat \<Rightarrow> u8 list \<Rightarrow> trie \<times> nat" where
  "trie_walk tr node [] = (tr, node)"
| "trie_walk tr node (byte # rest) =
     (case find (\<lambda>(b, _). b = byte) (tr_children tr ! node) of
        Some (_, child) \<Rightarrow> trie_walk tr child rest
      | None \<Rightarrow>
          let child = length (tr_children tr);
              children = tr_children tr @ [[]]
          in trie_walk \<lparr>tr_children = children[node := children ! node @ [(byte, as_u32 child)]],
               tr_depth = tr_depth tr @ [Suc (tr_depth tr ! node)],
               tr_terminal = tr_terminal tr @ [False]\<rparr> child rest)"

definition trie_add :: "trie \<Rightarrow> u8 list \<Rightarrow> trie" where
  "trie_add tr value =
     (let (tr, node) = trie_walk tr 0 value in tr\<lparr>tr_terminal := (tr_terminal tr)[node := True]\<rparr>)"

definition trie_of :: "u8 list list \<Rightarrow> trie" where
  "trie_of values = foldl trie_add trie_new values"

subsection \<open>The automaton\<close>

record automaton =
  au_root :: "nat list"
  au_edges :: "(u8 \<times> nat) list"
  au_first :: "nat list"
  au_fail :: "nat list"
  au_depth :: "nat list"
  au_out :: "nat list"

definition au_children :: "automaton \<Rightarrow> nat \<Rightarrow> (u8 \<times> nat) list" where
  "au_children a n = take (au_first a ! Suc n - au_first a ! n) (drop (au_first a ! n) (au_edges a))"

text \<open>\<open>binary_search_by_key\<close> of the standard library on a slice with distinct sorted keys.\<close>

function bsearch :: "u8 \<Rightarrow> (u8 \<times> nat) list \<Rightarrow> nat \<Rightarrow> nat \<Rightarrow> nat option" where
  "bsearch key run lo hi =
     (if hi \<le> lo then None
      else let mid = (lo + hi) div 2 in
        if fst (run ! mid) = key then Some mid
        else if fst (run ! mid) < key then bsearch key run (Suc mid) hi
        else bsearch key run lo mid)"
  by auto
termination
  by (relation "measure (\<lambda>(key, run, lo, hi). hi - lo)") auto

declare bsearch.simps [simp del]

definition au_child :: "automaton \<Rightarrow> nat \<Rightarrow> u8 \<Rightarrow> nat option" where
  "au_child a node byte =
     (let run = au_children a node in
      if length run \<le> 8 then map_option snd (find (\<lambda>(b, _). b = byte) run)
      else map_option (\<lambda>i. snd (run ! i)) (bsearch byte run 0 (length run)))"

partial_function (option) au_next :: "automaton \<Rightarrow> nat \<Rightarrow> u8 \<Rightarrow> nat option" where
  [code]: "au_next a state byte =
     (if state = 0 then Some (au_root a ! unat byte)
      else case au_child a state byte of
        Some child \<Rightarrow> Some child
      | None \<Rightarrow> au_next a (au_fail a ! state) byte)"

fun lay_out :: "(u8 \<times> nat) list list \<Rightarrow> (u8 \<times> nat) list \<Rightarrow> nat list \<Rightarrow> (u8 \<times> nat) list \<times> nat list" where
  "lay_out [] edges first = (edges, first @ [as_u32 (length edges)])"
| "lay_out (run # children) edges first =
     lay_out children (edges @ sort_key fst run) (first @ [as_u32 (length edges)])"

definition root_of :: "(u8 \<times> nat) list \<Rightarrow> nat list" where
  "root_of run = foldl (\<lambda>root (b, child). root[unat b := child]) (replicate 256 0) run"

fun link_edges ::
    "nat \<Rightarrow> nat list \<Rightarrow> nat list \<Rightarrow> automaton \<Rightarrow> (nat list \<times> automaton) option" where
  "link_edges n [] queue a = Some (queue, a)"
| "link_edges n (index # rest) queue a =
     (let (byte, child) = au_edges a ! index
      in Option.bind (au_next a (au_fail a ! n) byte) (\<lambda>f.
         link_edges n rest (queue @ [child]) (a\<lparr>au_fail := (au_fail a)[child := f]\<rparr>)))"

partial_function (option) link :: "bool list \<Rightarrow> nat list \<Rightarrow> automaton \<Rightarrow> automaton option" where
  [code]: "link terminal queue a =
     (case queue of
        [] \<Rightarrow> Some a
      | n # queue \<Rightarrow>
          let out = (if terminal ! n then au_depth a ! n else au_out a ! (au_fail a ! n));
              a = a\<lparr>au_out := (au_out a)[n := out]\<rparr>
          in Option.bind (link_edges n [au_first a ! n ..< au_first a ! Suc n] queue a) (\<lambda>(queue, a).
             link terminal queue a))"

definition laid :: "trie \<Rightarrow> automaton" where
  "laid tr =
     (let (edges, first) = lay_out (tr_children tr) [] []; nodes = length (tr_children tr)
      in \<lparr>au_root = root_of (sort_key fst (tr_children tr ! 0)), au_edges = edges, au_first = first,
          au_fail = replicate nodes 0, au_depth = tr_depth tr, au_out = replicate nodes 0\<rparr>)"

definition build :: "u8 list list \<Rightarrow> automaton option" where
  "build values =
     (let tr = trie_of values; a = laid tr
      in link (tr_terminal tr) (map snd (au_children a 0)) a)"

subsection \<open>The longest suffix in a set of words\<close>

fun lsuf :: "'a list set \<Rightarrow> 'a list \<Rightarrow> 'a list" where
  "lsuf W [] = []"
| "lsuf W (x # w) = (if x # w \<in> W then x # w else lsuf W w)"

lemma lsuf_suffix: "suffix (lsuf W w) w"
  by (induction w) (auto intro: suffix_ConsI)

lemma lsuf_in: "[] \<in> W \<Longrightarrow> lsuf W w \<in> W"
  by (induction w) auto

lemma lsuf_mem [simp]: "w \<in> W \<Longrightarrow> lsuf W w = w"
  by (cases w) auto

lemma lsuf_longest: "suffix u w \<Longrightarrow> u \<in> W \<Longrightarrow> suffix u (lsuf W w)"
  by (induction w) (auto simp: suffix_Cons)

lemma lsuf_eqI: "suffix u w \<Longrightarrow> u \<in> W \<Longrightarrow> (\<And>v. suffix v w \<Longrightarrow> v \<in> W \<Longrightarrow> suffix v u) \<Longrightarrow> [] \<in> W \<Longrightarrow> lsuf W w = u"
  by (meson lsuf_in lsuf_longest lsuf_suffix suffix_order.antisym)

lemma lsuf_lsuf:
  assumes "P \<subseteq> W" "[] \<in> P"
  shows "lsuf P (lsuf W w) = lsuf P w"
proof (rule sym, rule lsuf_eqI)
  show "suffix (lsuf P (lsuf W w)) w" using lsuf_suffix suffix_order.trans by blast
  show "lsuf P (lsuf W w) \<in> P" by (rule lsuf_in [OF assms(2)])
  show "suffix v (lsuf P (lsuf W w))" if "suffix v w" "v \<in> P" for v
    using that assms(1) by (meson lsuf_longest subsetD)
qed (rule assms(2))

text \<open>One more byte: in a set closed under prefixes only the longest suffix so far matters.\<close>

lemma lsuf_snoc:
  assumes "[] \<in> W" "\<And>u x. u @ [x] \<in> W \<Longrightarrow> u \<in> W"
  shows "lsuf W (w @ [b]) = lsuf W (lsuf W w @ [b])"
proof (rule lsuf_eqI)
  show "suffix (lsuf W (lsuf W w @ [b])) (w @ [b])"
    by (rule suffix_order.trans [OF lsuf_suffix]) (simp add: lsuf_suffix)
  show "lsuf W (lsuf W w @ [b]) \<in> W" by (rule lsuf_in [OF assms(1)])
  show "suffix v (lsuf W (lsuf W w @ [b]))" if "suffix v (w @ [b])" "v \<in> W" for v
  proof (cases v rule: rev_cases)
    case (snoc u x)
    then have "suffix u w" "x = b" "u \<in> W" using that assms(2) by auto
    then show ?thesis using snoc that(2) lsuf_longest [of v "lsuf W w @ [b]" W] lsuf_longest [of u w W] by auto
  qed simp
qed (rule assms(1))

subsection \<open>The words of the nodes\<close>

definition edges_ok :: "u8 list list \<Rightarrow> nat \<Rightarrow> (u8 \<times> nat) list \<Rightarrow> bool" where
  "edges_ok ws n run \<longleftrightarrow> distinct (map fst run)
     \<and> (\<forall>b c. (b, c) \<in> set run \<longleftrightarrow> c < length ws \<and> ws ! c = ws ! n @ [b])"

definition words_ok :: "u8 list list \<Rightarrow> bool" where
  "words_ok ws \<longleftrightarrow> ws \<noteq> [] \<and> ws ! 0 = [] \<and> distinct ws \<and> (\<forall>u x. u @ [x] \<in> set ws \<longrightarrow> u \<in> set ws)"

definition trie_ok :: "u8 list list \<Rightarrow> trie \<Rightarrow> bool" where
  "trie_ok ws tr \<longleftrightarrow> words_ok ws \<and> length (tr_children tr) = length ws \<and> tr_depth tr = map length ws
     \<and> length (tr_terminal tr) = length ws \<and> Suc (length (concat (tr_children tr))) = length ws
     \<and> (\<forall>n<length ws. edges_ok ws n (tr_children tr ! n))"

lemma words_okD:
  assumes "words_ok ws"
  shows "0 < length ws" "ws ! 0 = []" "distinct ws" "[] \<in> set ws" "u @ [x] \<in> set ws \<Longrightarrow> u \<in> set ws"
proof -
  show "0 < length ws" "ws ! 0 = []" "distinct ws" "u @ [x] \<in> set ws \<Longrightarrow> u \<in> set ws"
    using assms by (auto simp: words_ok_def)
  then show "[] \<in> set ws" by (metis nth_mem)
qed

lemma word_inj: "words_ok ws \<Longrightarrow> n < length ws \<Longrightarrow> m < length ws \<Longrightarrow> ws ! n = ws ! m \<longleftrightarrow> n = m"
  by (simp add: words_okD nth_eq_iff_index_eq)

lemma find_edge:
  assumes "edges_ok ws n run"
  shows "map_option snd (find (\<lambda>(b, _). b = byte) run) = Some c \<longleftrightarrow> c < length ws \<and> ws ! c = ws ! n @ [byte]"
proof
  assume "map_option snd (find (\<lambda>(b, _). b = byte) run) = Some c"
  then have "(byte, c) \<in> set run" by (auto dest!: find_SomeD)
  then show "c < length ws \<and> ws ! c = ws ! n @ [byte]" using assms by (auto simp: edges_ok_def)
next
  assume "c < length ws \<and> ws ! c = ws ! n @ [byte]"
  then have m: "(byte, c) \<in> set run" using assms by (auto simp: edges_ok_def)
  then obtain b c' where f: "find (\<lambda>(b, _). b = byte) run = Some (b, c')"
    by (cases "find (\<lambda>(b, _). b = byte) run") (auto simp: find_None_iff)
  then have "(byte, c') \<in> set run" by (auto dest!: find_SomeD)
  then have "c' = c" using assms m by (intro eq_key_imp_eq_value [of run byte]) (auto simp: edges_ok_def)
  then show "map_option snd (find (\<lambda>(b, _). b = byte) run) = Some c" using f by simp
qed

lemma find_edge_None:
  assumes "edges_ok ws n run" "words_ok ws" "n < length ws" "find (\<lambda>(b, _). b = byte) run = None"
  shows "ws ! n @ [byte] \<notin> set ws"
  using find_edge [OF assms(1), of byte] assms(4) by (auto simp: in_set_conv_nth)

text \<open>A new node.\<close>

lemma words_ok_snoc:
  assumes "words_ok ws" "n < length ws" "ws ! n @ [byte] \<notin> set ws"
  shows "words_ok (ws @ [ws ! n @ [byte]])"
  using assms by (auto simp: words_ok_def nth_append)

lemma edges_ok_snoc:
  assumes "words_ok ws" "n < length ws" "m < length ws" "edges_ok ws m run" "ws ! n @ [byte] \<notin> set ws"
  shows "edges_ok (ws @ [ws ! n @ [byte]]) m (if m = n then run @ [(byte, length ws)] else run)"
proof -
  let ?ws = "ws @ [ws ! n @ [byte]]"
  have new: "byte \<notin> fst ` set run" if "m = n"
    using assms(4,5) that by (auto simp: edges_ok_def in_set_conv_nth)
  have eq: "ws ! m = ws ! n \<longleftrightarrow> m = n" using word_inj [OF assms(1)] assms(2,3) by blast
  have "(b, c) \<in> set (if m = n then run @ [(byte, length ws)] else run) \<longleftrightarrow> c < length ?ws \<and> ?ws ! c = ?ws ! m @ [b]" for b c
    using assms(2-4) eq by (cases "c < length ws") (auto simp: edges_ok_def nth_append)
  moreover have "distinct (map fst (if m = n then run @ [(byte, length ws)] else run))"
    using assms(4) new by (auto simp: edges_ok_def)
  ultimately show ?thesis by (simp add: edges_ok_def)
qed

lemma edges_ok_leaf:
  assumes "words_ok ws" "n < length ws" "ws ! n @ [byte] \<notin> set ws"
  shows "edges_ok (ws @ [ws ! n @ [byte]]) (length ws) []"
proof -
  have "ws ! c \<noteq> (ws ! n @ [byte]) @ [b]" if "c < length ws" for b c
    using words_okD(5) [OF assms(1), of "ws ! n @ [byte]" b] assms(3) nth_mem [OF that] by metis
  then show ?thesis by (auto simp: edges_ok_def nth_append less_Suc_eq)
qed

lemma length_concat_update: "n < length xs \<Longrightarrow> length (concat (xs[n := xs ! n @ ys])) = length (concat xs) + length ys"
  by (simp add: length_concat map_update sum_list_update)

lemma trie_ok_snoc:
  assumes "trie_ok ws tr" "node < length ws" "ws ! node @ [byte] \<notin> set ws" "length ws < 2 ^ 32"
  shows "trie_ok (ws @ [ws ! node @ [byte]])
    \<lparr>tr_children = (tr_children tr @ [[]])[node := (tr_children tr @ [[]]) ! node @ [(byte, as_u32 (length (tr_children tr)))]],
     tr_depth = tr_depth tr @ [Suc (tr_depth tr ! node)], tr_terminal = tr_terminal tr @ [False]\<rparr>"
proof -
  note ok = assms(1) [unfolded trie_ok_def]
  have w: "words_ok ws" using ok by blast
  let ?ch = "(tr_children tr @ [[]])[node := (tr_children tr @ [[]]) ! node @ [(byte, as_u32 (length (tr_children tr)))]]"
  have "edges_ok (ws @ [ws ! node @ [byte]]) m (?ch ! m)" if "m < Suc (length ws)" for m
  proof (cases "m = length ws")
    case True
    then show ?thesis using edges_ok_leaf [OF w assms(2,3)] ok assms(2) by (simp add: nth_append)
  next
    case False
    then have m: "m < length ws" using that by simp
    then have "?ch ! m = (if m = node then tr_children tr ! m @ [(byte, length ws)] else tr_children tr ! m)"
      using ok assms(2,4) by (simp add: nth_list_update nth_append)
    then show ?thesis using edges_ok_snoc [OF w assms(2) m _ assms(3)] ok m by simp
  qed
  moreover have "length (concat ?ch) = Suc (length (concat (tr_children tr)))"
    using ok assms(2) length_concat_update [of node "tr_children tr @ [[]]"] by (simp add: nth_append)
  ultimately show ?thesis using ok words_ok_snoc [OF w assms(2,3)] assms(2) by (simp add: trie_ok_def)
qed

lemma trie_walk_ok:
  assumes "trie_walk tr node v = (tr', node')" "trie_ok ws tr" "node < length ws"
    "length ws + length v \<le> 2 ^ 32"
  shows "\<exists>ws'. trie_ok ws' tr' \<and> node' < length ws' \<and> ws' ! node' = ws ! node @ v
    \<and> (\<exists>more. ws' = ws @ more \<and> length more \<le> length v \<and> tr_terminal tr' = tr_terminal tr @ replicate (length more) False)
    \<and> set ws' = set ws \<union> {ws ! node @ p |p. prefix p v}"
  using assms
proof (induction tr node v arbitrary: ws rule: trie_walk.induct)
  case (1 tr node)
  then show ?case by (auto intro!: exI [of _ ws])
next
  case (2 tr node byte rest)
  note ok = "2.prems"(2) [unfolded trie_ok_def]
  have e: "edges_ok ws node (tr_children tr ! node)" and w: "words_ok ws" using ok "2.prems"(3) by auto
  have pre: "{u @ p |p. prefix p (byte # rest)} = insert u {(u @ [byte]) @ p |p. prefix p rest}" for u :: "u8 list"
    by (auto simp: prefix_Cons)
  show ?case
  proof (cases "find (\<lambda>(b, _). b = byte) (tr_children tr ! node)")
    case None
    let ?ws = "ws @ [ws ! node @ [byte]]"
    note new = find_edge_None [OF e w "2.prems"(3) None]
    have step: "trie_walk \<lparr>tr_children = (tr_children tr @ [[]])[node := (tr_children tr @ [[]]) ! node @ [(byte, as_u32 (length (tr_children tr)))]],
         tr_depth = tr_depth tr @ [Suc (tr_depth tr ! node)], tr_terminal = tr_terminal tr @ [False]\<rparr>
         (length (tr_children tr)) rest = (tr', node')"
      using "2.prems"(1) None by (simp add: Let_def)
    have len: "length (tr_children tr) = length ws" using ok by blast
    obtain ws' more where ws': "trie_ok ws' tr'" "node' < length ws'" "ws' ! node' = (ws ! node @ [byte]) @ rest"
        "ws' = ?ws @ more" "length more \<le> length rest" "tr_terminal tr' = (tr_terminal tr @ [False]) @ replicate (length more) False"
        "set ws' = set ?ws \<union> {(ws ! node @ [byte]) @ p |p. prefix p rest}"
      using "2.IH"(1) [OF None refl refl step, where ws = ?ws] trie_ok_snoc [OF "2.prems"(2,3) new] "2.prems"(4) len
      by (auto simp: nth_append)
    have "ws ! node \<in> set ws" using "2.prems"(3) by simp
    then have "set ws' = set ws \<union> {ws ! node @ p |p. prefix p (byte # rest)}"
      unfolding ws'(7) pre by auto
    then show ?thesis using ws'(1-6)
      by (intro exI [of _ ws'] conjI exI [of _ "(ws ! node @ [byte]) # more"]) auto
  next
    case (Some bc)
    obtain b child where bc: "bc = (b, child)" by (cases bc)
    have c: "child < length ws" "ws ! child = ws ! node @ [byte]"
      using find_edge [OF e, of byte child] Some bc by auto
    have step: "trie_walk tr child rest = (tr', node')" using "2.prems"(1) Some bc by simp
    obtain ws' more where ws': "trie_ok ws' tr'" "node' < length ws'" "ws' ! node' = (ws ! node @ [byte]) @ rest"
        "ws' = ws @ more" "length more \<le> length rest" "tr_terminal tr' = tr_terminal tr @ replicate (length more) False"
        "set ws' = set ws \<union> {(ws ! node @ [byte]) @ p |p. prefix p rest}"
      using "2.IH"(2) [OF Some bc [symmetric] step "2.prems"(2) c(1)] "2.prems"(4) c(2) by auto
    have "ws ! node \<in> set ws" using "2.prems"(3) by simp
    then have "set ws' = set ws \<union> {ws ! node @ p |p. prefix p (byte # rest)}"
      unfolding ws'(7) pre by auto
    then show ?thesis using ws'(1-6)
      by (intro exI [of _ ws'] conjI exI [of _ more]) auto
  qed
qed
lemma trie_of_ok:
  "Suc (sum_list (map length vs)) \<le> 2 ^ 32 \<Longrightarrow> \<exists>ws. trie_ok ws (trie_of vs)
     \<and> length ws \<le> Suc (sum_list (map length vs)) \<and> set ws = {[]} \<union> {p. \<exists>v\<in>set vs. prefix p v}
     \<and> (\<forall>n<length ws. tr_terminal (trie_of vs) ! n = (ws ! n \<in> set vs))"
proof (induction vs rule: rev_induct)
  case Nil
  have "trie_ok [[]] (trie_of [])"
    by (auto simp: trie_of_def trie_new_def trie_ok_def words_ok_def edges_ok_def)
  then show ?case by (intro exI [of _ "[[]]"]) (auto simp: trie_of_def trie_new_def)
next
  case (snoc v vs)
  obtain ws where ws: "trie_ok ws (trie_of vs)" "length ws \<le> Suc (sum_list (map length vs))"
      "set ws = {[]} \<union> {p. \<exists>v\<in>set vs. prefix p v}" "\<forall>n<length ws. tr_terminal (trie_of vs) ! n = (ws ! n \<in> set vs)"
    using snoc by auto
  note w = words_okD [of ws]
  have wok: "words_ok ws" using ws(1) by (simp add: trie_ok_def)
  obtain tr node where walk: "trie_walk (trie_of vs) 0 v = (tr, node)" by fastforce
  obtain ws' more where ws': "trie_ok ws' tr" "node < length ws'" "ws' ! node = v" "ws' = ws @ more"
      "length more \<le> length v" "tr_terminal tr = tr_terminal (trie_of vs) @ replicate (length more) False"
      "set ws' = set ws \<union> {p. prefix p v}"
    using trie_walk_ok [OF walk ws(1) w(1) [OF wok]] w(2) [OF wok] ws(2) snoc.prems by auto
  have tr: "trie_of (vs @ [v]) = tr\<lparr>tr_terminal := (tr_terminal tr)[node := True]\<rparr>"
    using walk by (simp add: trie_of_def trie_add_def)
  have wok': "words_ok ws'" using ws'(1) by (simp add: trie_ok_def)
  have len: "length (tr_terminal (trie_of vs)) = length ws" using ws(1) by (simp add: trie_ok_def)
  have "(tr_terminal tr)[node := True] ! n = (ws' ! n \<in> set (vs @ [v]))" if n: "n < length ws'" for n
  proof (cases "n = node")
    case True
    then show ?thesis using ws' len by (simp add: nth_append)
  next
    case False
    then have ne: "ws' ! n \<noteq> v" using word_inj [OF wok' n ws'(2)] ws'(3) by simp
    show ?thesis
    proof (cases "n < length ws")
      case True
      then show ?thesis using False ne ws(4) ws'(4,6) len by (simp add: nth_append)
    next
      case old: False
      have "ws' ! n \<notin> set ws"
      proof
        assume "ws' ! n \<in> set ws"
        then obtain m where "m < length ws" "ws' ! m = ws' ! n" by (auto simp: in_set_conv_nth ws'(4) nth_append)
        then show False using word_inj [OF wok' _ n, of m] old ws'(4) by simp
      qed
      then have "ws' ! n \<notin> set vs" using ws(3) by auto
      then show ?thesis using False ne old n ws'(4,6) len by (simp add: nth_append)
    qed
  qed
  moreover have "trie_ok ws' (trie_of (vs @ [v]))" using ws'(1) by (simp add: tr trie_ok_def)
  moreover have "set ws' = {[]} \<union> {p. \<exists>u\<in>set (vs @ [v]). prefix p u}" using ws(3) ws'(7) by auto
  moreover have "length ws' \<le> Suc (sum_list (map length (vs @ [v])))" using ws(2) ws'(4,5) by simp
  ultimately show ?case by (intro exI [of _ ws']) (simp add: tr)
qed

subsection \<open>The layout\<close>

definition offset :: "(u8 \<times> nat) list list \<Rightarrow> nat \<Rightarrow> nat" where
  "offset cs n = length (concat (take n cs))"

lemma lay_out_eq:
  "lay_out cs es fs = (es @ concat (map (sort_key fst) cs),
     fs @ map (\<lambda>n. as_u32 (length es + offset cs n)) [0..<Suc (length cs)])"
proof (induction cs arbitrary: es fs)
  case Nil
  then show ?case by (simp add: offset_def)
next
  case (Cons c cs)
  have "map (\<lambda>n. as_u32 (length es + offset (c # cs) n)) [0..<Suc (length (c # cs))]
      = as_u32 (length es) # map (\<lambda>n. as_u32 (length es + length c + offset cs n)) [0..<Suc (length cs)]"
    by (simp only: list.size(4) add_Suc_right add_0_right, subst map_upt_Suc) (simp add: offset_def add.assoc del: upt_Suc)
  then show ?case using Cons [of "es @ sort_key fst c" "fs @ [as_u32 (length es)]"] by simp
qed

lemma slice_concat:
  "n < length xs \<Longrightarrow> take (length (xs ! n)) (drop (length (concat (take n xs))) (concat xs)) = xs ! n"
  by (induction xs arbitrary: n) (auto simp: nth_Cons take_Cons' split: nat.splits)

lemma offset_Suc: "n < length cs \<Longrightarrow> offset cs (Suc n) = offset cs n + length (cs ! n)"
  by (simp add: offset_def take_Suc_conv_app_nth)

lemma offset_sorted: "n \<le> length cs \<Longrightarrow> length (concat (take n (map (sort_key fst) cs))) = offset cs n"
  by (simp add: offset_def take_map length_concat comp_def)

lemma offset_le: "offset cs n \<le> length (concat cs)"
  by (metis append_take_drop_id concat_append length_append le_add1 offset_def)

lemma laid_children:
  assumes "length (concat (tr_children tr)) < 2 ^ 32" "n < length (tr_children tr)"
  shows "au_children (laid tr) n = sort_key fst (tr_children tr ! n)"
    and "au_first (laid tr) ! n = offset (tr_children tr) n"
    and "au_first (laid tr) ! Suc n = offset (tr_children tr) n + length (tr_children tr ! n)"
proof -
  let ?cs = "tr_children tr"
  have f: "au_first (laid tr) ! m = offset ?cs m" if "m \<le> length ?cs" for m
    using that assms(1) offset_le [of ?cs m] unfolding laid_def lay_out_eq
    by (simp add: Let_def nth_append del: upt_Suc)
  show "au_first (laid tr) ! n = offset ?cs n" "au_first (laid tr) ! Suc n = offset ?cs n + length (?cs ! n)"
    using f [of n] f [of "Suc n"] offset_Suc assms(2) by auto
  moreover have "au_edges (laid tr) = concat (map (sort_key fst) ?cs)"
    unfolding laid_def lay_out_eq by (simp add: Let_def)
  ultimately show "au_children (laid tr) n = sort_key fst (?cs ! n)"
    using slice_concat [of n "map (sort_key fst) ?cs"] assms(2) offset_sorted [of n ?cs]
    by (simp add: au_children_def)
qed

lemma u8_lt: "unat (b :: u8) < 256"
  using unsigned_less [of b, where 'a = nat] by simp

lemma root_of_length [simp]: "length (root_of run) = 256"
  unfolding root_of_def by (induction run rule: rev_induct) (auto split: prod.splits)

lemma root_of_nth:
  "distinct (map fst run) \<Longrightarrow> root_of run ! unat b = (case find (\<lambda>(x, _). x = b) run of Some (_, c) \<Rightarrow> c | None \<Rightarrow> 0)"
proof (induction run rule: rev_induct)
  case Nil
  have "unat b < 256" by (rule u8_lt)
  then show ?case by (simp add: root_of_def)
next
  case (snoc e run)
  obtain x c where e: "e = (x, c)" by (cases e)
  have step: "root_of (run @ [e]) = (root_of run)[unat x := c]" by (simp add: root_of_def e)
  have "unat b < 256" by (rule u8_lt)
  have fnd: "find P (xs @ ys) = (case find P xs of Some y \<Rightarrow> Some y | None \<Rightarrow> find P ys)" for P and xs ys :: "(u8 \<times> nat) list"
    by (induction xs) auto
  show ?case
  proof (cases "x = b")
    case True
    then have "find (\<lambda>(x, _). x = b) run = None" using snoc.prems by (force simp: find_None_iff e)
    then show ?thesis unfolding step using True \<open>unat b < 256\<close> by (simp add: fnd e)
  next
    case False
    then have "unat x \<noteq> unat b" using unsigned_word_eqI by blast
    then show ?thesis unfolding step using snoc False by (simp add: fnd e split: option.splits)
  qed
qed
subsection \<open>The shape\<close>

definition shape :: "u8 list list \<Rightarrow> automaton \<Rightarrow> bool" where
  "shape ws a \<longleftrightarrow> words_ok ws \<and> length (au_fail a) = length ws \<and> length (au_out a) = length ws
     \<and> au_depth a = map length ws
     \<and> (\<forall>n<length ws. edges_ok ws n (au_children a n) \<and> sorted (map fst (au_children a n))
          \<and> au_first a ! n \<le> au_first a ! Suc n \<and> au_first a ! Suc n \<le> length (au_edges a))
     \<and> (\<forall>b. au_root a ! unat b < length ws \<and> ws ! (au_root a ! unat b) = (if [b] \<in> set ws then [b] else []))"

lemma edges_ok_sort: "edges_ok ws n run \<Longrightarrow> edges_ok ws n (sort_key fst run)"
  by (auto simp: edges_ok_def distinct_map)

lemma laid_shape:
  assumes "trie_ok ws tr" "length ws \<le> 2 ^ 32"
  shows "shape ws (laid tr)"
proof -
  note ok = assms(1) [unfolded trie_ok_def]
  have w: "words_ok ws" using ok by blast
  have few: "length (concat (tr_children tr)) < 2 ^ 32" using ok assms(2) by linarith
  note lc = laid_children [OF few]
  have e: "edges_ok ws n (au_children (laid tr) n)" if "n < length ws" for n
    using ok that lc(1) [of n] edges_ok_sort by simp
  have f: "au_first (laid tr) ! n \<le> au_first (laid tr) ! Suc n" "au_first (laid tr) ! Suc n \<le> length (au_edges (laid tr))"
    if "n < length ws" for n
  proof -
    have "offset (tr_children tr) (Suc n) \<le> length (concat (tr_children tr))" by (rule offset_le)
    moreover have "length (au_edges (laid tr)) = length (concat (tr_children tr))"
      unfolding laid_def lay_out_eq by (simp add: Let_def length_concat comp_def)
    ultimately show "au_first (laid tr) ! n \<le> au_first (laid tr) ! Suc n"
      "au_first (laid tr) ! Suc n \<le> length (au_edges (laid tr))"
      using lc(2,3) [of n] that ok offset_Suc [of n "tr_children tr"] by simp_all
  qed
  have r: "au_root (laid tr) ! unat b < length ws \<and> ws ! (au_root (laid tr) ! unat b) = (if [b] \<in> set ws then [b] else [])" for b
  proof -
    let ?run = "sort_key fst (tr_children tr ! 0)"
    have e0: "edges_ok ws 0 ?run" using ok words_okD(1) [OF w] edges_ok_sort by blast
    then have root: "au_root (laid tr) ! unat b = (case find (\<lambda>(x, _). x = b) ?run of Some (_, c) \<Rightarrow> c | None \<Rightarrow> 0)"
      using root_of_nth [of ?run b] by (simp add: laid_def edges_ok_def case_prod_beta Let_def)
    show ?thesis
    proof (cases "find (\<lambda>(x, _). x = b) ?run")
      case None
      then show ?thesis using find_edge_None [OF e0 w words_okD(1) [OF w]] root words_okD(1,2) [OF w] by auto
    next
      case (Some bc)
      then have "snd bc < length ws \<and> ws ! snd bc = ws ! 0 @ [b]" using find_edge [OF e0, of b "snd bc"] by simp
      then show ?thesis using Some root words_okD(2) [OF w] by (auto simp: case_prod_beta) (metis nth_mem)
    qed
  qed
  have "sorted (map fst (au_children (laid tr) n))" if "n < length ws" for n using ok that lc(1) [of n] by simp
  moreover have "length (au_fail (laid tr)) = length ws" "length (au_out (laid tr)) = length ws" "au_depth (laid tr) = map length ws"
    using ok by (simp_all add: laid_def case_prod_beta Let_def)
  ultimately show ?thesis using w e f r by (simp add: shape_def)
qed

lemma bsearch_correct:
  assumes "sorted (map fst run)" "distinct (map fst run)" "hi \<le> length run"
    "\<forall>i<length run. fst (run ! i) = key \<longrightarrow> lo \<le> i \<and> i < hi"
  shows "bsearch key run lo hi = Some i \<longleftrightarrow> i < length run \<and> fst (run ! i) = key"
  using assms
proof (induction key run lo hi rule: bsearch.induct)
  case (1 key run lo hi)
  have inj: "i = j" if "i < length run" "j < length run" "fst (run ! i) = fst (run ! j)" for i j
    using "1.prems"(2) that by (metis length_map nth_eq_iff_index_eq nth_map)
  have mono: "fst (run ! i) \<le> fst (run ! j)" if "i \<le> j" "j < length run" for i j
    using "1.prems"(1) that by (simp add: sorted_iff_nth_mono)
  let ?mid = "(lo + hi) div 2"
  show ?case
  proof (cases "hi \<le> lo")
    case True
    then show ?thesis using "1.prems"(4) by (force simp: bsearch.simps [of key run lo hi])
  next
    case False
    then have mid: "lo \<le> ?mid" "?mid < hi" by auto
    then have ml: "?mid < length run" using "1.prems"(3) by simp
    consider "fst (run ! ?mid) = key" | "fst (run ! ?mid) < key" | "key < fst (run ! ?mid)" by fastforce
    then show ?thesis
    proof cases
      case 1
      then have "bsearch key run lo hi = Some ?mid" using False by (simp add: bsearch.simps [of key run lo hi] Let_def)
      moreover have "i < length run \<and> fst (run ! i) = key \<longleftrightarrow> i = ?mid" using inj [OF _ ml, of i] ml 1 by metis
      ultimately show ?thesis by auto
    next
      case 2
      then have "\<forall>i<length run. fst (run ! i) = key \<longrightarrow> Suc ?mid \<le> i \<and> i < hi"
        using "1.prems"(4) mono ml by (metis linorder_not_less not_less_eq_eq)
      moreover have "bsearch key run lo hi = bsearch key run (Suc ?mid) hi" and ne: "fst (run ! ?mid) \<noteq> key"
        using 2 False by (auto simp: bsearch.simps [of key run lo hi] Let_def)
      ultimately show ?thesis using "1.IH"(1) [OF False refl ne 2] "1.prems"(1-3) by simp
    next
      case 3
      then have "\<forall>i<length run. fst (run ! i) = key \<longrightarrow> lo \<le> i \<and> i < ?mid"
        using "1.prems"(4) mono by (metis linorder_not_less)
      moreover have "bsearch key run lo hi = bsearch key run lo ?mid" and ne: "fst (run ! ?mid) \<noteq> key" "\<not> fst (run ! ?mid) < key"
        using 3 False by (auto simp: bsearch.simps [of key run lo hi] Let_def)
      ultimately show ?thesis using "1.IH"(2) [OF False refl ne] "1.prems"(1-2) ml by simp
    qed
  qed
qed

lemma au_child_eq:
  assumes "shape ws a" "n < length ws"
  shows "au_child a n b = Some c \<longleftrightarrow> c < length ws \<and> ws ! c = ws ! n @ [b]"
proof -
  let ?run = "au_children a n"
  have e: "edges_ok ws n ?run" "sorted (map fst ?run)" using assms by (auto simp: shape_def)
  have d: "distinct (map fst ?run)" using e(1) by (simp add: edges_ok_def)
  note bs = bsearch_correct [OF e(2) d order.refl, of b 0]
  have "map_option (\<lambda>i. snd (?run ! i)) (bsearch b ?run 0 (length ?run)) = Some c \<longleftrightarrow> (b, c) \<in> set ?run"
  proof
    assume "map_option (\<lambda>i. snd (?run ! i)) (bsearch b ?run 0 (length ?run)) = Some c"
    then obtain i where i: "bsearch b ?run 0 (length ?run) = Some i" "c = snd (?run ! i)" by auto
    then have "i < length ?run" "?run ! i = (b, c)" using bs [of i] by (auto simp: prod_eq_iff)
    then show "(b, c) \<in> set ?run" by (metis nth_mem)
  next
    assume "(b, c) \<in> set ?run"
    then obtain i where "i < length ?run" "?run ! i = (b, c)" by (auto simp: in_set_conv_nth)
    then show "map_option (\<lambda>i. snd (?run ! i)) (bsearch b ?run 0 (length ?run)) = Some c" using bs [of i] by simp
  qed
  moreover have "(b, c) \<in> set ?run \<longleftrightarrow> c < length ws \<and> ws ! c = ws ! n @ [b]"
    using e(1) unfolding edges_ok_def by blast
  ultimately show ?thesis
    unfolding au_child_def Let_def using find_edge [OF e(1), of b c] by (cases "length ?run \<le> 8") (simp_all only: if_True if_False)
qed

lemma au_child_None:
  assumes "shape ws a" "n < length ws"
  shows "au_child a n b = None \<longleftrightarrow> ws ! n @ [b] \<notin> set ws"
proof (cases "au_child a n b")
  case None
  then have "\<not> (c < length ws \<and> ws ! c = ws ! n @ [b])" for c using au_child_eq [OF assms, of b c] by simp
  then have "ws ! n @ [b] \<notin> set ws" unfolding in_set_conv_nth by blast
  then show ?thesis using None by simp
next
  case (Some c)
  then have "c < length ws" "ws ! c = ws ! n @ [b]" using au_child_eq [OF assms, of b c] by blast+
  then have "ws ! n @ [b] \<in> set ws" using nth_mem by metis
  then show ?thesis using Some by simp
qed

subsection \<open>Failure links\<close>

text \<open>The link of a node: the node of the longest proper suffix of its word.\<close>

definition fail_ok :: "u8 list list \<Rightarrow> automaton \<Rightarrow> nat \<Rightarrow> bool" where
  "fail_ok ws a n \<longleftrightarrow> au_fail a ! n < length ws \<and> ws ! (au_fail a ! n) = lsuf (set ws) (tl (ws ! n))"

lemma lsuf_length: "length (lsuf W w) \<le> length w"
  using lsuf_suffix suffix_length_le by blast

lemma au_next_root: "au_next a 0 b = Some (au_root a ! unat b)"
  by (simp add: au_next.simps)

lemma au_next_child: "n \<noteq> 0 \<Longrightarrow> au_child a n b = Some c \<Longrightarrow> au_next a n b = Some c"
  by (simp add: au_next.simps)

lemma au_next_fail: "n \<noteq> 0 \<Longrightarrow> au_child a n b = None \<Longrightarrow> au_next a n b = au_next a (au_fail a ! n) b"
  by (subst au_next.simps) simp

lemma au_next_eq:
  assumes "shape ws a" "n < length ws" "\<And>m. m < length ws \<Longrightarrow> m \<noteq> 0 \<Longrightarrow> length (ws ! m) \<le> length (ws ! n) \<Longrightarrow> fail_ok ws a m"
  shows "\<exists>s<length ws. au_next a n b = Some s \<and> ws ! s = lsuf (set ws) (ws ! n @ [b])"
  using assms(2,3)
proof (induction "length (ws ! n)" arbitrary: n rule: less_induct)
  case less
  have w: "words_ok ws" using assms(1) by (simp add: shape_def)
  note W = words_okD [OF w]
  show ?case
  proof (cases "n = 0")
    case True
    have "au_root a ! unat b < length ws" "ws ! (au_root a ! unat b) = lsuf (set ws) [b]"
      using assms(1) by (simp_all add: shape_def)
    then show ?thesis using True W(2) au_next_root [of a b] by auto
  next
    case n: False
    then have ne: "ws ! n \<noteq> []" using word_inj [OF w less.prems(1) W(1)] W(2) by simp
    show ?thesis
    proof (cases "au_child a n b")
      case (Some c)
      then have c: "c < length ws" "ws ! c = ws ! n @ [b]" using au_child_eq [OF assms(1) less.prems(1)] by blast+
      then have "ws ! c = lsuf (set ws) (ws ! n @ [b])" using nth_mem [OF c(1)] by simp
      then show ?thesis using au_next_child [OF n Some] c(1) by blast
    next
      case None
      let ?f = "au_fail a ! n"
      have f: "?f < length ws" "ws ! ?f = lsuf (set ws) (tl (ws ! n))"
        using less.prems(2) [OF less.prems(1) n] by (auto simp: fail_ok_def)
      have shorter: "length (ws ! ?f) < length (ws ! n)"
        unfolding f(2) using lsuf_length [of "set ws" "tl (ws ! n)"] ne by (cases "ws ! n") auto
      then obtain s where s: "s < length ws" "au_next a ?f b = Some s" "ws ! s = lsuf (set ws) (ws ! ?f @ [b])"
        using less.hyps [OF shorter f(1)] less.prems(2) by (meson less_imp_le order_trans)
      have "ws ! n @ [b] \<notin> set ws" using au_child_None [OF assms(1) less.prems(1)] None by simp
      then have "lsuf (set ws) (ws ! n @ [b]) = lsuf (set ws) (tl (ws ! n) @ [b])" using ne by (cases "ws ! n") auto
      also have "\<dots> = lsuf (set ws) (ws ! ?f @ [b])"
        unfolding f(2) by (rule lsuf_snoc [OF W(4,5)])
      finally show ?thesis using s au_next_fail [OF n None] by auto
    qed
  qed
qed

subsection \<open>The breadth-first pass\<close>

lemma shape_fail: "shape ws a \<Longrightarrow> length fl = length ws \<Longrightarrow> shape ws (a\<lparr>au_fail := fl\<rparr>)"
  by (simp add: shape_def au_children_def)

lemma shape_out: "shape ws a \<Longrightarrow> length os = length ws \<Longrightarrow> shape ws (a\<lparr>au_out := os\<rparr>)"
  by (simp add: shape_def au_children_def)

lemma fail_ok_child:
  assumes "shape ws a" "n < length ws" "n \<noteq> 0" "\<And>m. m < length ws \<Longrightarrow> m \<noteq> 0 \<Longrightarrow> length (ws ! m) \<le> length (ws ! n) \<Longrightarrow> fail_ok ws a m"
  shows "\<exists>f<length ws. au_next a (au_fail a ! n) b = Some f \<and> ws ! f = lsuf (set ws) (tl (ws ! n @ [b]))"
proof -
  have w: "words_ok ws" using assms(1) by (simp add: shape_def)
  note W = words_okD [OF w]
  let ?f = "au_fail a ! n"
  have f: "?f < length ws" "ws ! ?f = lsuf (set ws) (tl (ws ! n))"
    using assms(4) [OF assms(2,3)] by (auto simp: fail_ok_def)
  have ne: "ws ! n \<noteq> []" using word_inj [OF w assms(2) W(1)] W(2) assms(3) by simp
  have le: "length (ws ! ?f) \<le> length (ws ! n)"
    unfolding f(2) using lsuf_length [of "set ws" "tl (ws ! n)"] by simp
  obtain s where s: "s < length ws" "au_next a ?f b = Some s" "ws ! s = lsuf (set ws) (ws ! ?f @ [b])"
    using au_next_eq [OF assms(1) f(1)] assms(4) le by (meson order_trans)
  have "lsuf (set ws) (tl (ws ! n @ [b])) = lsuf (set ws) (ws ! ?f @ [b])"
    unfolding f(2) using ne lsuf_snoc [OF W(4,5), where w = "tl (ws ! n)" and b = b] by simp
  with s show ?thesis by auto
qed

lemma fail_ok_cong: "au_fail a' ! m = au_fail a ! m \<Longrightarrow> fail_ok ws a' m = fail_ok ws a m"
  by (simp add: fail_ok_def)

lemma link_edges_ok:
  assumes "shape ws a" "n < length ws" "n \<noteq> 0"
    "\<And>m. m < length ws \<Longrightarrow> m \<noteq> 0 \<Longrightarrow> length (ws ! m) \<le> length (ws ! n) \<Longrightarrow> fail_ok ws a m"
    "\<forall>i\<in>set is. snd (au_edges a ! i) < length ws \<and> ws ! snd (au_edges a ! i) = ws ! n @ [fst (au_edges a ! i)]"
  shows "\<exists>fl. link_edges n is queue a = Some (queue @ map (\<lambda>i. snd (au_edges a ! i)) is, a\<lparr>au_fail := fl\<rparr>)
    \<and> length fl = length ws \<and> (\<forall>m. m \<notin> (\<lambda>i. snd (au_edges a ! i)) ` set is \<longrightarrow> fl ! m = au_fail a ! m)
    \<and> (\<forall>m\<in>(\<lambda>i. snd (au_edges a ! i)) ` set is. fail_ok ws (a\<lparr>au_fail := fl\<rparr>) m)"
  using assms
proof (induction "is" arbitrary: queue a)
  case Nil
  then show ?case by (intro exI [of _ "au_fail a"]) (simp add: shape_def)
next
  case (Cons i "is")
  obtain b c where e: "au_edges a ! i = (b, c)" by (cases "au_edges a ! i")
  have c: "c < length ws" "ws ! c = ws ! n @ [b]" using Cons.prems(5) e by auto
  obtain f where f: "f < length ws" "au_next a (au_fail a ! n) b = Some f" "ws ! f = lsuf (set ws) (tl (ws ! n @ [b]))"
    using fail_ok_child [OF Cons.prems(1-4)] by blast
  let ?a = "a\<lparr>au_fail := (au_fail a)[c := f]\<rparr>"
  have len: "length (au_fail a) = length ws" using Cons.prems(1) by (simp add: shape_def)
  have sh: "shape ws ?a" by (rule shape_fail [OF Cons.prems(1)]) (simp add: len)
  have old: "fail_ok ws ?a m" if "m < length ws" "m \<noteq> 0" "length (ws ! m) \<le> length (ws ! n)" for m
  proof -
    have "m \<noteq> c" using that(3) c(2) by auto
    then show ?thesis using Cons.prems(4) [OF that] fail_ok_cong [of ?a m a] by simp
  qed
  obtain fl where fl: "link_edges n is (queue @ [c]) ?a = Some ((queue @ [c]) @ map (\<lambda>i. snd (au_edges a ! i)) is, ?a\<lparr>au_fail := fl\<rparr>)"
      "length fl = length ws" "\<forall>m. m \<notin> (\<lambda>i. snd (au_edges a ! i)) ` set is \<longrightarrow> fl ! m = (au_fail a)[c := f] ! m"
      "\<forall>m\<in>(\<lambda>i. snd (au_edges a ! i)) ` set is. fail_ok ws (?a\<lparr>au_fail := fl\<rparr>) m"
    using Cons.IH [OF sh Cons.prems(2,3) old, of "queue @ [c]"] Cons.prems(5) by auto
  have "fail_ok ws (a\<lparr>au_fail := fl\<rparr>) c"
  proof (cases "c \<in> (\<lambda>i. snd (au_edges a ! i)) ` set is")
    case True
    then show ?thesis using fl(4) by auto
  next
    case False
    then have "fl ! c = f" using fl(3) c(1) len by simp
    then show ?thesis using f(1,3) c(2) by (simp add: fail_ok_def)
  qed
  then show ?case using fl f(2) e by (intro exI [of _ fl]) auto
qed

definition parent_in :: "u8 list list \<Rightarrow> nat set \<Rightarrow> nat \<Rightarrow> bool" where
  "parent_in ws S c \<longleftrightarrow> (\<exists>n\<in>S. n < length ws \<and> c < length ws \<and> (\<exists>b. ws ! c = ws ! n @ [b]))"

definition out_ok :: "u8 list list \<Rightarrow> u8 list set \<Rightarrow> automaton \<Rightarrow> nat \<Rightarrow> bool" where
  "out_ok ws T a n \<longleftrightarrow> au_out a ! n = length (lsuf (insert [] T) (ws ! n))"

definition link_inv :: "u8 list list \<Rightarrow> u8 list set \<Rightarrow> nat list \<Rightarrow> nat list \<Rightarrow> automaton \<Rightarrow> bool" where
  "link_inv ws T P Q a \<longleftrightarrow> shape ws a \<and> distinct (P @ Q)
     \<and> set (P @ Q) = {c. parent_in ws (insert 0 (set P)) c}
     \<and> sorted (map (\<lambda>n. length (ws ! n)) (P @ Q))
     \<and> (\<forall>n Q'. Q = n # Q' \<longrightarrow> (\<forall>q\<in>set Q'. length (ws ! q) \<le> Suc (length (ws ! n))))
     \<and> (\<forall>m\<in>set (P @ Q). fail_ok ws a m) \<and> (\<forall>m\<in>insert 0 (set P). out_ok ws T a m)"

text \<open>The nodes above the head of the queue are done.\<close>

lemma link_inv_above:
  assumes "link_inv ws T P Q a" "m < length ws" "m \<noteq> 0" "\<And>q. q \<in> set Q \<Longrightarrow> length (ws ! m) < length (ws ! q)"
  shows "m \<in> set P"
  using assms(2-4)
proof (induction "length (ws ! m)" arbitrary: m rule: less_induct)
  case less
  have w: "words_ok ws" using assms(1) by (simp add: link_inv_def shape_def)
  note W = words_okD [OF w]
  have ne: "ws ! m \<noteq> []" using word_inj [OF w less.prems(1) W(1)] W(2) less.prems(2) by simp
  then obtain u b where u: "ws ! m = u @ [b]" by (cases "ws ! m" rule: rev_cases) auto
  then have "u \<in> set ws" using W(5) [of u b] nth_mem [OF less.prems(1)] by simp
  then obtain n where n: "n < length ws" "ws ! n = u" by (auto simp: in_set_conv_nth)
  have "n = 0 \<or> n \<in> set P"
    using less.hyps [of n] n u less.prems(3) by (metis Suc_lessD length_append_singleton lessI)
  then have "parent_in ws (insert 0 (set P)) m" unfolding parent_in_def using n u less.prems(1) by auto
  then have "m \<in> set P \<or> m \<in> set Q" using assms(1) unfolding link_inv_def by auto
  then show ?case using less.prems(3) by blast
qed

lemma map_nth_slice: "lo \<le> hi \<Longrightarrow> hi \<le> length xs \<Longrightarrow> map ((!) xs) [lo..<hi] = take (hi - lo) (drop lo xs)"
  by (rule nth_equalityI) auto

lemma children_edges:
  assumes "shape ws a" "n < length ws"
  shows "map ((!) (au_edges a)) [au_first a ! n ..< au_first a ! Suc n] = au_children a n"
  using assms by (simp add: shape_def au_children_def map_nth_slice)

lemma children_nodes:
  assumes "shape ws a" "n < length ws"
  shows "c \<in> set (map snd (au_children a n)) \<longleftrightarrow> parent_in ws {n} c" "distinct (map snd (au_children a n))"
proof -
  have e: "edges_ok ws n (au_children a n)" using assms by (simp add: shape_def)
  then show "c \<in> set (map snd (au_children a n)) \<longleftrightarrow> parent_in ws {n} c"
    using assms(2) by (force simp: edges_ok_def parent_in_def)
  have "inj_on snd (set (au_children a n))"
    using e by (auto simp: edges_ok_def inj_on_def)
  moreover have "distinct (au_children a n)" using e by (auto simp: edges_ok_def distinct_map)
  ultimately show "distinct (map snd (au_children a n))" by (simp add: distinct_map)
qed

lemma parent_unique:
  assumes "words_ok ws" "parent_in ws {n} c" "parent_in ws {m} c"
  shows "n = m"
  using assms word_inj [OF assms(1), of n m] by (auto simp: parent_in_def)

lemma parent_in_iff: "parent_in ws S c \<longleftrightarrow> (\<exists>n\<in>S. parent_in ws {n} c)"
  by (auto simp: parent_in_def)

lemma parent_in_nonzero: "words_ok ws \<Longrightarrow> parent_in ws S c \<Longrightarrow> c \<noteq> 0 \<and> c < length ws"
  using words_okD(2) [of ws] by (cases "c = 0") (auto simp: parent_in_def)

lemma link_inv_node:
  assumes "link_inv ws T P Q a" "m \<in> set P \<union> set Q"
  shows "m < length ws" "m \<noteq> 0"
proof -
  have "set (P @ Q) = {c. parent_in ws (insert 0 (set P)) c}" and w: "words_ok ws"
    using assms(1) unfolding link_inv_def shape_def by blast+
  then have "parent_in ws (insert 0 (set P)) m" using assms(2) by auto
  then show "m < length ws" "m \<noteq> 0" using parent_in_nonzero [OF w] by blast+
qed

lemma link_out:
  assumes "link_inv ws T P (n # Q) a" "T \<subseteq> set ws"
  shows "(if ws ! n \<in> T then au_depth a ! n else au_out a ! (au_fail a ! n)) = length (lsuf (insert [] T) (ws ! n))"
proof (cases "ws ! n \<in> T")
  case True
  have sh: "shape ws a" using assms(1) by (simp add: link_inv_def)
  have "n < length ws" using link_inv_node [OF assms(1)] by simp
  with sh show ?thesis using True by (simp add: shape_def)
next
  case False
  note inv = assms(1) [unfolded link_inv_def]
  have w: "words_ok ws" using inv by (simp add: shape_def)
  note W = words_okD [OF w]
  have n: "n < length ws" "n \<noteq> 0" using link_inv_node [OF assms(1), of n] by auto
  then have ne: "ws ! n \<noteq> []" using word_inj [OF w _ W(1)] W(2) by metis
  let ?f = "au_fail a ! n"
  have f: "?f < length ws" "ws ! ?f = lsuf (set ws) (tl (ws ! n))" using inv by (auto simp: fail_ok_def)
  have short: "length (ws ! ?f) < length (ws ! n)"
    unfolding f(2) using lsuf_length [of "set ws" "tl (ws ! n)"] ne by (cases "ws ! n") auto
  have low: "length (ws ! n) \<le> length (ws ! q)" if "q \<in> set (n # Q)" for q
    using inv that by (auto simp: sorted_append)
  have "?f = 0 \<or> ?f \<in> set P"
    using link_inv_above [OF assms(1) f(1)] short low by (meson order.strict_trans2)
  then have "au_out a ! ?f = length (lsuf (insert [] T) (ws ! ?f))" using inv by (auto simp: out_ok_def)
  also have "lsuf (insert [] T) (ws ! ?f) = lsuf (insert [] T) (tl (ws ! n))"
    unfolding f(2) by (rule lsuf_lsuf) (use assms(2) W(4) in auto)
  also have "\<dots> = lsuf (insert [] T) (ws ! n)" using False ne by (cases "ws ! n") auto
  finally show ?thesis using False by simp
qed

lemma sorted_const: "(\<And>x. x \<in> set xs \<Longrightarrow> f x = k) \<Longrightarrow> sorted (map f xs)" for k :: nat
  by (induction xs) auto

text \<open>The queue spans two levels.\<close>

lemma link_inv_levels:
  assumes "link_inv ws T P (n # Q) a"
  shows "q \<in> set (n # Q) \<Longrightarrow> length (ws ! n) \<le> length (ws ! q)"
    and "q \<in> set (P @ n # Q) \<Longrightarrow> length (ws ! q) \<le> Suc (length (ws ! n))"
proof -
  note inv = assms [unfolded link_inv_def]
  show "length (ws ! n) \<le> length (ws ! q)" if "q \<in> set (n # Q)" using inv that by (auto simp: sorted_append)
  show "length (ws ! q) \<le> Suc (length (ws ! n))" if q: "q \<in> set (P @ n # Q)"
  proof (cases "q \<in> set P")
    case True
    then have "length (ws ! q) \<le> length (ws ! n)" using inv unfolding sorted_append map_append by auto
    then show ?thesis by simp
  next
    case False
    moreover have "\<forall>q\<in>set Q. length (ws ! q) \<le> Suc (length (ws ! n))" using inv by blast
    ultimately show ?thesis using q by (cases "q = n") simp_all
  qed
qed

lemma link_inv_linked:
  assumes "link_inv ws T P (n # Q) a" "m < length ws" "m \<noteq> 0" "length (ws ! m) \<le> length (ws ! n)"
  shows "fail_ok ws a m"
proof -
  note inv = assms(1) [unfolded link_inv_def]
  have w: "words_ok ws" using inv by (simp add: shape_def)
  note W = words_okD [OF w]
  obtain u b where u: "ws ! m = u @ [b]"
    using word_inj [OF w assms(2) W(1)] W(2) assms(3) by (cases "ws ! m" rule: rev_cases) auto
  then obtain k where k: "k < length ws" "ws ! k = u"
    using W(5) [of u b] nth_mem [OF assms(2)] by (auto simp: in_set_conv_nth)
  have "length (ws ! k) < length (ws ! q)" if "q \<in> set (n # Q)" for q
    using link_inv_levels(1) [OF assms(1) that] assms(4) u k(2) by simp
  then have "k = 0 \<or> k \<in> set P" using link_inv_above [OF assms(1) k(1)] by blast
  then have "parent_in ws (insert 0 (set P)) m" unfolding parent_in_def using k u assms(2) by auto
  then have "m \<in> set (P @ n # Q)" using inv by blast
  then show ?thesis using inv by blast
qed

lemma link_children_new:
  assumes "link_inv ws T P (n # Q) a" "parent_in ws {n} c"
  shows "c \<notin> set (P @ n # Q)"
proof
  note inv = assms(1) [unfolded link_inv_def]
  have w: "words_ok ws" using inv by (simp add: shape_def)
  assume "c \<in> set (P @ n # Q)"
  then have "parent_in ws (insert 0 (set P)) c" using inv by blast
  then obtain k where "k \<in> insert 0 (set P)" "parent_in ws {k} c" unfolding parent_in_iff [of ws "insert 0 (set P)"] by blast
  then have "n \<in> insert 0 (set P)" using parent_unique [OF w _ assms(2)] by blast
  moreover have "n \<notin> set P" using inv by simp
  ultimately show False using link_inv_node(2) [OF assms(1), of n] by simp
qed

lemma link_step:
  assumes "link_inv ws T P (n # Q) a" "T \<subseteq> set ws"
  defines "a1 \<equiv> a\<lparr>au_out := (au_out a)[n := if ws ! n \<in> T then au_depth a ! n else au_out a ! (au_fail a ! n)]\<rparr>"
  shows "\<exists>a2. link_edges n [au_first a1 ! n ..< au_first a1 ! Suc n] Q a1 = Some (Q @ map snd (au_children a n), a2)
    \<and> link_inv ws T (P @ [n]) (Q @ map snd (au_children a n)) a2"
proof -
  note inv = assms(1) [unfolded link_inv_def]
  have w: "words_ok ws" and sh: "shape ws a" using inv by (auto simp: shape_def)
  note W = words_okD [OF w]
  have n: "n < length ws" "n \<noteq> 0" using link_inv_node [OF assms(1), of n] by auto
  have sh1: "shape ws a1" unfolding a1_def by (rule shape_out [OF sh]) (use sh in \<open>simp add: shape_def\<close>)
  have ch1: "au_children a1 n = au_children a n" by (simp add: a1_def au_children_def)
  note low = link_inv_levels(1) [OF assms(1)] and top = link_inv_levels(2) [OF assms(1)]
  have fails: "fail_ok ws a1 m" if "m < length ws" "m \<noteq> 0" "length (ws ! m) \<le> length (ws ! n)" for m
    using link_inv_linked [OF assms(1) that] fail_ok_cong [of a1 m a ws] by (simp add: a1_def)
  let ?is = "[au_first a1 ! n ..< au_first a1 ! Suc n]"
  have es: "map ((!) (au_edges a1)) ?is = au_children a n" using children_edges [OF sh1 n(1)] ch1 by simp
  have img: "(\<lambda>i. snd (au_edges a1 ! i)) ` set ?is = set (map snd (au_children a n))"
    and mp: "map (\<lambda>i. snd (au_edges a1 ! i)) ?is = map snd (au_children a n)"
    unfolding es [symmetric] by (simp_all add: image_image comp_def)
  have ok: "\<forall>i\<in>set ?is. snd (au_edges a1 ! i) < length ws \<and> ws ! snd (au_edges a1 ! i) = ws ! n @ [fst (au_edges a1 ! i)]"
  proof
    fix i assume "i \<in> set ?is"
    then have "(fst (au_edges a1 ! i), snd (au_edges a1 ! i)) \<in> set (au_children a n)" unfolding es [symmetric] by simp
    moreover have "edges_ok ws n (au_children a n)" using sh n(1) by (simp add: shape_def)
    ultimately show "snd (au_edges a1 ! i) < length ws \<and> ws ! snd (au_edges a1 ! i) = ws ! n @ [fst (au_edges a1 ! i)]"
      unfolding edges_ok_def by blast
  qed
  obtain fl where fl: "link_edges n ?is Q a1 = Some (Q @ map snd (au_children a n), a1\<lparr>au_fail := fl\<rparr>)"
      "length fl = length ws" "\<forall>m. m \<notin> set (map snd (au_children a n)) \<longrightarrow> fl ! m = au_fail a1 ! m"
      "\<forall>m\<in>set (map snd (au_children a n)). fail_ok ws (a1\<lparr>au_fail := fl\<rparr>) m"
    using link_edges_ok [OF sh1 n fails ok, of Q] unfolding img mp by blast
  let ?a2 = "a1\<lparr>au_fail := fl\<rparr>"
  note cn = children_nodes [OF sh n(1)]
  have deep: "length (ws ! c) = Suc (length (ws ! n))" if "c \<in> set (map snd (au_children a n))" for c
    using that unfolding cn(1) by (auto simp: parent_in_def)
  have new: "c \<notin> set (P @ n # Q)" if "c \<in> set (map snd (au_children a n))" for c
    using link_children_new [OF assms(1)] that cn(1) by blast
  have "link_inv ws T (P @ [n]) (Q @ map snd (au_children a n)) ?a2"
    unfolding link_inv_def
  proof (intro conjI)
    show "shape ws ?a2" by (rule shape_fail [OF sh1 fl(2)])
    show "distinct ((P @ [n]) @ Q @ map snd (au_children a n))" using inv cn(2) new by auto
    show "set ((P @ [n]) @ Q @ map snd (au_children a n)) = {c. parent_in ws (insert 0 (set (P @ [n]))) c}"
    proof -
      have "parent_in ws (insert 0 (set (P @ [n]))) c \<longleftrightarrow> parent_in ws (insert 0 (set P)) c \<or> parent_in ws {n} c" for c
        unfolding parent_in_iff [of ws "insert 0 (set (P @ [n]))"] parent_in_iff [of ws "insert 0 (set P)"] by auto
      moreover have "set (P @ n # Q) = {c. parent_in ws (insert 0 (set P)) c}" using inv by blast
      ultimately show ?thesis using cn(1) by auto
    qed
    show "sorted (map (\<lambda>n. length (ws ! n)) ((P @ [n]) @ Q @ map snd (au_children a n)))"
    proof -
      have "sorted (map (\<lambda>n. length (ws ! n)) (P @ n # Q))" using inv by blast
      moreover have "sorted (map (\<lambda>n. length (ws ! n)) (map snd (au_children a n)))" by (rule sorted_const [OF deep])
      ultimately have "sorted (map (\<lambda>n. length (ws ! n)) (P @ n # Q) @ map (\<lambda>n. length (ws ! n)) (map snd (au_children a n)))"
        unfolding sorted_append using top deep by (intro conjI ballI) (assumption | force)+
      then show ?thesis by simp
    qed
    show "\<forall>k Q'. Q @ map snd (au_children a n) = k # Q' \<longrightarrow> (\<forall>q\<in>set Q'. length (ws ! q) \<le> Suc (length (ws ! k)))"
    proof (intro allI impI ballI)
      fix k Q' q assume k: "Q @ map snd (au_children a n) = k # Q'" and q: "q \<in> set Q'"
      have "k \<in> set (n # Q) \<union> set (map snd (au_children a n))" "q \<in> set (n # Q) \<union> set (map snd (au_children a n))"
        using k q by (metis Un_iff list.set_intros(1,2) set_append)+
      then have "length (ws ! n) \<le> length (ws ! k)" "length (ws ! q) \<le> Suc (length (ws ! n))"
        using low [of k] deep [of k] top [of q] deep [of q]
        by (auto simp only: Un_iff set_append set_simps insert_iff intro: order.refl)
      then show "length (ws ! q) \<le> Suc (length (ws ! k))" by simp
    qed
    show "\<forall>m\<in>set ((P @ [n]) @ Q @ map snd (au_children a n)). fail_ok ws ?a2 m"
    proof
      fix m assume "m \<in> set ((P @ [n]) @ Q @ map snd (au_children a n))"
      then consider "m \<in> set (map snd (au_children a n))" | "m \<notin> set (map snd (au_children a n))" "m \<in> set (P @ n # Q)" by auto
      then show "fail_ok ws ?a2 m"
      proof cases
        case 1
        then show ?thesis using fl(4) by blast
      next
        case 2
        have "au_fail ?a2 ! m = au_fail a ! m" using fl(3) 2(1) by (simp add: a1_def)
        moreover have "fail_ok ws a m" using inv 2(2) by blast
        ultimately show ?thesis using fail_ok_cong by blast
      qed
    qed
    show "\<forall>m\<in>insert 0 (set (P @ [n])). out_ok ws T ?a2 m"
    proof
      fix m assume m: "m \<in> insert 0 (set (P @ [n]))"
      have "length (au_out a) = length ws" using sh by (simp add: shape_def)
      then show "out_ok ws T ?a2 m"
        using m inv link_out [OF assms(1,2)] n by (cases "m = n") (auto simp: out_ok_def a1_def)
    qed
  qed
  then show ?thesis using fl(1) by blast
qed

definition links_ok :: "u8 list list \<Rightarrow> u8 list set \<Rightarrow> automaton \<Rightarrow> bool" where
  "links_ok ws T a \<longleftrightarrow> shape ws a \<and> (\<forall>m<length ws. m \<noteq> 0 \<longrightarrow> fail_ok ws a m) \<and> (\<forall>m<length ws. out_ok ws T a m)"

lemma link_ok:
  assumes "link_inv ws T P Q a" "T \<subseteq> set ws" "\<forall>n<length ws. terminal ! n = (ws ! n \<in> T)"
  shows "\<exists>a'. link terminal Q a = Some a' \<and> links_ok ws T a'"
  using assms(1)
proof (induction "length ws - length P" arbitrary: P Q a rule: less_induct)
  case less
  show ?case
  proof (cases Q)
    case Nil
    have "m \<in> set P" if "m < length ws" "m \<noteq> 0" for m
      using link_inv_above [OF less.prems that] Nil by simp
    then have "fail_ok ws a m" "out_ok ws T a m" if "m < length ws" "m \<noteq> 0" for m
      using less.prems that unfolding link_inv_def by auto
    moreover have "out_ok ws T a 0" "shape ws a" using less.prems unfolding link_inv_def by auto
    moreover have "link terminal Q a = Some a" using Nil by (simp add: link.simps)
    ultimately show ?thesis unfolding links_ok_def by (metis)
  next
    case (Cons n Q')
    note inv = less.prems [unfolded Cons]
    have n: "n < length ws" using link_inv_node [OF inv, of n] by simp
    let ?a1 = "a\<lparr>au_out := (au_out a)[n := if ws ! n \<in> T then au_depth a ! n else au_out a ! (au_fail a ! n)]\<rparr>"
    obtain a2 where a2: "link_edges n [au_first ?a1 ! n ..< au_first ?a1 ! Suc n] Q' ?a1 = Some (Q' @ map snd (au_children a n), a2)"
      "link_inv ws T (P @ [n]) (Q' @ map snd (au_children a n)) a2"
      using link_step [OF inv assms(2)] by blast
    have "link terminal Q a = link terminal (Q' @ map snd (au_children a n)) a2"
      using a2(1) assms(3) n unfolding Cons by (subst link.simps) (simp add: Let_def)
    moreover have "length (P @ [n]) \<le> length ws"
    proof -
      have "distinct (P @ [n])" using inv by (simp add: link_inv_def)
      moreover have "set (P @ [n]) \<subseteq> {..<length ws}" using link_inv_node(1) [OF inv] by auto
      ultimately show ?thesis using card_mono [of "{..<length ws}" "set (P @ [n])"] distinct_card by fastforce
    qed
    ultimately show ?thesis using less.hyps [OF _ a2(2)] by simp
  qed
qed

lemma laid_inv:
  assumes "trie_ok ws tr" "length ws \<le> 2 ^ 32"
  shows "link_inv ws T [] (map snd (au_children (laid tr) 0)) (laid tr)"
proof -
  have sh: "shape ws (laid tr)" by (rule laid_shape [OF assms])
  have w: "words_ok ws" using sh by (simp add: shape_def)
  note W = words_okD [OF w]
  note cn = children_nodes [OF sh W(1)]
  have one: "length (ws ! c) = 1" "c < length ws" if "c \<in> set (map snd (au_children (laid tr) 0))" for c
    using that unfolding cn(1) by (auto simp: parent_in_def W(2))
  have z: "au_fail (laid tr) ! m = 0" "au_out (laid tr) ! m = 0" if "m < length ws" for m
    using assms(1) that by (simp_all add: laid_def case_prod_beta Let_def trie_ok_def)
  have "fail_ok ws (laid tr) m" if "m \<in> set (map snd (au_children (laid tr) 0))" for m
  proof -
    have "tl (ws ! m) = []" using one(1) [OF that] by (cases "ws ! m") auto
    then show ?thesis using z(1) [OF one(2) [OF that]] W(1,2) by (simp add: fail_ok_def)
  qed
  moreover have "sorted (map (\<lambda>n. length (ws ! n)) (map snd (au_children (laid tr) 0)))"
    by (rule sorted_const [OF one(1)])
  moreover have "\<forall>n Q'. map snd (au_children (laid tr) 0) = n # Q' \<longrightarrow> (\<forall>q\<in>set Q'. length (ws ! q) \<le> Suc (length (ws ! n)))"
    using one(1) by (metis le_SucI list.set_intros(1,2) order.refl)
  moreover have "out_ok ws T (laid tr) 0" using z(2) [OF W(1)] W(2) by (simp add: out_ok_def)
  moreover have "set (map snd (au_children (laid tr) 0)) = {c. parent_in ws (insert 0 (set [])) c}"
    using cn(1) by (auto simp only: list.set(1))
  ultimately show ?thesis unfolding link_inv_def using sh cn(2) by (simp del: list.set_map set_map)
qed

text \<open>
  Whatever the values are, \<open>build\<close> returns, and the nodes of what it returns are the prefixes of the values.
\<close>

lemma build_ok:
  assumes "Suc (sum_list (map length vs)) \<le> 2 ^ 32"
  obtains ws a where "build vs = Some a" "links_ok ws (set vs) a" "set ws = {[]} \<union> {p. \<exists>v\<in>set vs. prefix p v}"
proof -
  obtain ws where ws: "trie_ok ws (trie_of vs)" "length ws \<le> Suc (sum_list (map length vs))"
      "set ws = {[]} \<union> {p. \<exists>v\<in>set vs. prefix p v}" "\<forall>n<length ws. tr_terminal (trie_of vs) ! n = (ws ! n \<in> set vs)"
    using trie_of_ok [OF assms] by blast
  have "length ws \<le> 2 ^ 32" using ws(2) assms by linarith
  moreover have "set vs \<subseteq> set ws" using ws(3) by auto
  ultimately show ?thesis
    using link_ok [OF laid_inv [OF ws(1)] _ ws(4)] ws(3) that by (auto simp: build_def Let_def)
qed

end
