(* ===== verification/Log_Records.thy ===== *)
theory Log_Records
  imports Sentinel_Prelude
begin

text \<open>
  The record encoding of \<open>crates/sentinel-protocol/src/logs.rs\<close>, which the worker's spool and the
  controller's log share.  A record is a frame of output or the end of a log; the numbers are little
  endian.  \<open>encode_frame\<close> and \<open>record_encode\<close> append to a buffer, as the source does; \<open>record_decode\<close>
  reads one record from the front of a buffer and tells how many bytes it took.
\<close>

subsection \<open>Little-endian numbers\<close>

definition to_le :: "nat \<Rightarrow> 'a::len word \<Rightarrow> u8 list" where
  "to_le n w = map (\<lambda>i. ucast (drop_bit (8 * i) w)) [0..<n]"

definition from_le :: "u8 list \<Rightarrow> 'a::len word" where
  "from_le bytes = foldr (\<lambda>b acc. ucast b OR push_bit 8 acc) bytes 0"

lemma length_to_le [simp]: "length (to_le n w) = n"
  by (simp add: to_le_def)

lemma to_le_Suc: "to_le (Suc n) w = ucast w # to_le n (drop_bit 8 w)"
  unfolding to_le_def by (subst map_upt_Suc) (simp add: drop_bit_drop_bit add.commute)

lemma from_le_to_le: "from_le (to_le n w) = take_bit (8 * n) (w :: 'a::len word)"
proof (induction n arbitrary: w)
  case 0
  then show ?case by (simp add: to_le_def from_le_def)
next
  case (Suc n)
  have "from_le (to_le (Suc n) w) = ucast (ucast w :: u8) OR push_bit 8 (from_le (to_le n (drop_bit 8 w)) :: 'a word)"
    by (simp add: to_le_Suc from_le_def)
  also have "\<dots> = ucast (ucast w :: u8) OR push_bit 8 (take_bit (8 * n) (drop_bit 8 w))" using Suc by simp
  also have "\<dots> = take_bit (8 * Suc n) w"
    by (rule bit_word_eqI) (auto simp: bit_simps)
  finally show ?case .
qed

lemma from_le_u64 [simp]: "from_le (to_le 8 w) = (w :: u64)"
  using from_le_to_le [of 8 w] by (simp add: take_bit_length_eq [where 'a = 64, simplified])

lemma from_le_u32 [simp]: "from_le (to_le 4 w) = (w :: u32)"
  using from_le_to_le [of 4 w] by (simp add: take_bit_length_eq [where 'a = 32, simplified])

lemma to_le_from_le:
  assumes "length bytes = n" "8 * n \<le> LENGTH('a)"
  shows "to_le n (from_le bytes :: 'a::len word) = bytes"
  using assms
proof (induction bytes arbitrary: n)
  case Nil
  then show ?case by (simp add: to_le_def)
next
  case (Cons b bytes)
  then obtain k where k: "n = Suc k" "length bytes = k" by (cases n) auto
  let ?r = "from_le bytes :: 'a word"
  have "from_le (b # bytes) = ucast b OR push_bit 8 ?r" by (simp add: from_le_def)
  moreover have "ucast (ucast b OR push_bit 8 ?r) = b"
    by (rule bit_word_eqI) (use Cons.prems(2) k in \<open>auto simp: bit_simps dest: bit_imp_le_length\<close>)
  moreover have "drop_bit 8 (ucast b OR push_bit 8 ?r) = take_bit (LENGTH('a) - 8) ?r"
    by (rule bit_word_eqI) (use Cons.prems(2) k in \<open>auto simp: bit_simps dest: bit_imp_le_length\<close>)
  moreover have "to_le k (take_bit (LENGTH('a) - 8) ?r) = to_le k ?r"
    unfolding to_le_def
    by (rule map_cong [OF refl], rule bit_word_eqI) (use Cons.prems(2) k in \<open>auto simp: bit_simps dest: bit_imp_le_length\<close>)
  ultimately show ?case using Cons.IH [OF k(2)] Cons.prems(2) k(1) by (simp add: to_le_Suc)
qed

subsection \<open>Records\<close>

definition MAX_LOG_FRAME_BYTES :: nat where "MAX_LOG_FRAME_BYTES = 32 * 2 ^ 10"
definition FRAME_HEADER_BYTES :: nat where "FRAME_HEADER_BYTES = 1 + 8 + 4 + 1 + 4"
definition MAX_GAPS :: nat where "MAX_GAPS = 256"
definition KIND_FRAME :: u8 where "KIND_FRAME = 1"
definition KIND_END :: u8 where "KIND_END = 2"

datatype stream = Stdout | Stderr

definition stream_code :: "stream \<Rightarrow> u8" where
  "stream_code s = (case s of Stdout \<Rightarrow> 1 | Stderr \<Rightarrow> 2)"

definition stream_from_code :: "u8 \<Rightarrow> stream option" where
  "stream_from_code code = (if code = 1 then Some Stdout else if code = 2 then Some Stderr else None)"

record log_frame =
  fr_seq :: u64
  fr_step :: u32
  fr_stream :: stream
  fr_bytes :: "u8 list"

datatype log_record = Rec_Frame log_frame | Rec_End u64 "(u64 \<times> u64) list"

datatype record_error = Incomplete | Invalid_Record

definition encode_frame :: "u64 \<Rightarrow> u32 \<Rightarrow> stream \<Rightarrow> u8 list \<Rightarrow> u8 list \<Rightarrow> record_error + u8 list" where
  "encode_frame sq step stream bytes out =
     (if length bytes > MAX_LOG_FRAME_BYTES then Inl Invalid_Record
      else Inr (out @ [KIND_FRAME] @ to_le 8 sq @ to_le 4 step @ [stream_code stream]
        @ to_le 4 (of_nat (length bytes) :: u32) @ bytes))"

definition record_encode :: "log_record \<Rightarrow> u8 list \<Rightarrow> record_error + u8 list" where
  "record_encode r out =
     (case r of
        Rec_Frame f \<Rightarrow> encode_frame (fr_seq f) (fr_step f) (fr_stream f) (fr_bytes f) out
      | Rec_End last_seq gaps \<Rightarrow>
          if length gaps > MAX_GAPS then Inl Invalid_Record
          else Inr (out @ [KIND_END] @ to_le 8 last_seq @ to_le 4 (of_nat (length gaps) :: u32)
            @ concat (map (\<lambda>(from, to). to_le 8 from @ to_le 8 to) gaps)))"

definition subslice :: "'a list \<Rightarrow> nat \<Rightarrow> nat \<Rightarrow> 'a list" where
  "subslice xs from to = take (to - from) (drop from xs)"

definition decode_gap :: "u8 list \<Rightarrow> nat \<Rightarrow> u64 \<times> u64" where
  "decode_gap bytes i =
     (let at = 13 + i * 16
      in (from_le (subslice bytes at (at + 8)), from_le (subslice bytes (at + 8) (at + 16))))"

definition record_decode :: "u8 list \<Rightarrow> record_error + log_record \<times> nat" where
  "record_decode bytes =
     (case bytes of
        [] \<Rightarrow> Inl Incomplete
      | kind # _ \<Rightarrow>
          if kind = KIND_FRAME then
            if length bytes < FRAME_HEADER_BYTES then Inl Incomplete
            else
              let sq = from_le (subslice bytes 1 9); step = from_le (subslice bytes 9 13)
              in res_bind (ok_or Invalid_Record (stream_from_code (bytes ! 13))) (\<lambda>stream.
                 let len = unat (from_le (subslice bytes 14 18) :: u32) in
                 if len > MAX_LOG_FRAME_BYTES then Inl Invalid_Record
                 else
                   let end = FRAME_HEADER_BYTES + len in
                   if length bytes < end then Inl Incomplete
                   else Inr (Rec_Frame \<lparr>fr_seq = sq, fr_step = step, fr_stream = stream,
                          fr_bytes = subslice bytes FRAME_HEADER_BYTES end\<rparr>, end))
          else if kind = KIND_END then
            if length bytes < 13 then Inl Incomplete
            else
              let last_seq = from_le (subslice bytes 1 9); count = unat (from_le (subslice bytes 9 13) :: u32)
              in if count > MAX_GAPS then Inl Invalid_Record
                 else
                   let end = 13 + count * 16 in
                   if length bytes < end then Inl Incomplete
                   else Inr (Rec_End last_seq (map (decode_gap bytes) [0..<count]), end)
          else Inl Invalid_Record)"

lemmas log_consts = MAX_LOG_FRAME_BYTES_def FRAME_HEADER_BYTES_def MAX_GAPS_def KIND_FRAME_def KIND_END_def

interpretation stream_tab: code_table stream_code stream_from_code
proof
  show "stream_from_code (stream_code s) = Some s" for s by (cases s) (simp_all add: stream_code_def stream_from_code_def)
qed (auto simp: stream_code_def stream_from_code_def split: if_splits)

declare stream_tab.code_round_trip [simp]

lemma slice_mid: "length xs = from \<Longrightarrow> length ys = to - from \<Longrightarrow> subslice (xs @ ys @ zs) from to = ys"
  by (simp add: subslice_def)

lemma slice_gap:
  assumes "length h = 13" "i < length gaps"
  shows "decode_gap (h @ concat (map (\<lambda>(from, to). to_le 8 from @ to_le 8 to) gaps) @ rest) i = gaps ! i"
proof -
  let ?e = "\<lambda>(from, to). to_le 8 (from :: u64) @ to_le 8 (to :: u64)"
  obtain a b where ab: "gaps ! i = (a, b)" by (cases "gaps ! i")
  have len: "length (concat (map ?e gs)) = length gs * 16" for gs by (induction gs) auto
  have g: "gaps = take i gaps @ (a, b) # drop (Suc i) gaps" using id_take_nth_drop [OF assms(2)] ab by simp
  let ?pre = "h @ concat (map ?e (take i gaps))" and ?post = "concat (map ?e (drop (Suc i) gaps)) @ rest"
  have "h @ concat (map ?e gaps) @ rest = ?pre @ to_le 8 a @ to_le 8 b @ ?post"
    by (subst g) simp
  moreover have "length ?pre = 13 + i * 16" using assms len [of "take i gaps"] by simp
  ultimately have "subslice (h @ concat (map ?e gaps) @ rest) (13 + i * 16) (13 + i * 16 + 8) = to_le 8 a"
    "subslice (h @ concat (map ?e gaps) @ rest) (13 + i * 16 + 8) (13 + i * 16 + 16) = to_le 8 b"
    using slice_mid [of ?pre "13 + i * 16" "to_le 8 a" "13 + i * 16 + 8" "to_le 8 b @ ?post"]
      slice_mid [of "?pre @ to_le 8 a" "13 + i * 16 + 8" "to_le 8 b" "13 + i * 16 + 16" ?post] by simp_all
  then show ?thesis by (simp add: decode_gap_def Let_def ab)
qed

subsection \<open>Reading what was written\<close>

definition frame_head :: "log_frame \<Rightarrow> u8 list" where
  "frame_head f = [KIND_FRAME] @ to_le 8 (fr_seq f) @ to_le 4 (fr_step f) @ [stream_code (fr_stream f)]
     @ to_le 4 (of_nat (length (fr_bytes f)) :: u32)"

definition end_head :: "u64 \<Rightarrow> (u64 \<times> u64) list \<Rightarrow> u8 list" where
  "end_head last_seq gaps = [KIND_END] @ to_le 8 last_seq @ to_le 4 (of_nat (length gaps) :: u32)"

abbreviation gap_bytes :: "(u64 \<times> u64) list \<Rightarrow> u8 list" where
  "gap_bytes gaps \<equiv> concat (map (\<lambda>(from, to). to_le 8 from @ to_le 8 to) gaps)"

lemma length_gap_bytes: "length (gap_bytes gaps) = length gaps * 16"
  by (induction gaps) auto

lemma frame_head_reads:
  "length (frame_head f) = 18" "frame_head f @ tail = KIND_FRAME # tl (frame_head f) @ tail"
  "subslice (frame_head f @ tail) 1 9 = to_le 8 (fr_seq f)" "subslice (frame_head f @ tail) 9 13 = to_le 4 (fr_step f)"
  "(frame_head f @ tail) ! 13 = stream_code (fr_stream f)"
  "subslice (frame_head f @ tail) 14 18 = to_le 4 (of_nat (length (fr_bytes f)) :: u32)"
  using slice_mid [of "[KIND_FRAME]" 1 "to_le 8 (fr_seq f)" 9]
    slice_mid [of "[KIND_FRAME] @ to_le 8 (fr_seq f)" 9 "to_le 4 (fr_step f)" 13]
    slice_mid [of "[KIND_FRAME] @ to_le 8 (fr_seq f) @ to_le 4 (fr_step f) @ [stream_code (fr_stream f)]" 14
      "to_le 4 (of_nat (length (fr_bytes f)) :: u32)" 18]
  by (simp_all add: frame_head_def nth_append)

lemma record_decode_hd:
  assumes "bs \<noteq> []"
  shows "record_decode bs =
     (if hd bs = KIND_FRAME then
        if length bs < FRAME_HEADER_BYTES then Inl Incomplete
        else
          let sq = from_le (subslice bs 1 9); step = from_le (subslice bs 9 13)
          in res_bind (ok_or Invalid_Record (stream_from_code (bs ! 13))) (\<lambda>stream.
             let len = unat (from_le (subslice bs 14 18) :: u32) in
             if len > MAX_LOG_FRAME_BYTES then Inl Invalid_Record
             else
               let end = FRAME_HEADER_BYTES + len in
               if length bs < end then Inl Incomplete
               else Inr (Rec_Frame \<lparr>fr_seq = sq, fr_step = step, fr_stream = stream,
                      fr_bytes = subslice bs FRAME_HEADER_BYTES end\<rparr>, end))
      else if hd bs = KIND_END then
        if length bs < 13 then Inl Incomplete
        else
          let last_seq = from_le (subslice bs 1 9); count = unat (from_le (subslice bs 9 13) :: u32)
          in if count > MAX_GAPS then Inl Invalid_Record
             else
               let end = 13 + count * 16 in
               if length bs < end then Inl Incomplete
               else Inr (Rec_End last_seq (map (decode_gap bs) [0..<count]), end)
      else Inl Invalid_Record)"
  using assms by (cases bs) (simp, simp only: record_decode_def list.case list.sel)

lemma kinds_differ [simp]: "KIND_END \<noteq> KIND_FRAME" "KIND_FRAME \<noteq> KIND_END"
  by (simp_all add: KIND_FRAME_def KIND_END_def)

lemma header_bytes [simp]: "FRAME_HEADER_BYTES = 18"
  by (simp add: FRAME_HEADER_BYTES_def)

lemma decode_frame:
  assumes "length (fr_bytes f) \<le> MAX_LOG_FRAME_BYTES"
  shows "record_decode (frame_head f @ tail) =
    (if length tail < length (fr_bytes f) then Inl Incomplete
     else Inr (Rec_Frame (f\<lparr>fr_bytes := take (length (fr_bytes f)) tail\<rparr>), 18 + length (fr_bytes f)))"
proof -
  note h = frame_head_reads(1) [of f] frame_head_reads(3-6) [of f tail]
  have len: "unat (of_nat (length (fr_bytes f)) :: u32) = length (fr_bytes f)"
    using assms by (simp add: unsigned_of_nat take_bit_eq_mod MAX_LOG_FRAME_BYTES_def)
  have body: "subslice (frame_head f @ tail) 18 (18 + n) = take n tail" for n
    using h(1) by (simp add: subslice_def)
  have eq: "\<lparr>fr_seq = fr_seq f, fr_step = fr_step f, fr_stream = fr_stream f, fr_bytes = x\<rparr> = f\<lparr>fr_bytes := x\<rparr>" for x
    by simp
  have hd: "frame_head f @ tail \<noteq> []" "hd (frame_head f @ tail) = KIND_FRAME" by (simp_all add: frame_head_def)
  show ?thesis
    unfolding record_decode_hd [OF hd(1)] hd(2) using assms by (simp add: h [unfolded One_nat_def] len body Let_def eq)
qed

lemma end_head_reads:
  "length (end_head s gaps) = 13" "end_head s gaps @ tail = KIND_END # tl (end_head s gaps) @ tail"
  "subslice (end_head s gaps @ tail) 1 9 = to_le 8 s"
  "subslice (end_head s gaps @ tail) 9 13 = to_le 4 (of_nat (length gaps) :: u32)"
  using slice_mid [of "[KIND_END]" 1 "to_le 8 s" 9]
    slice_mid [of "[KIND_END] @ to_le 8 s" 9 "to_le 4 (of_nat (length gaps) :: u32)" 13]
  by (simp_all add: end_head_def)

lemma decode_end:
  assumes "length gaps \<le> MAX_GAPS"
  shows "record_decode (end_head s gaps @ tail) =
    (if length tail < length gaps * 16 then Inl Incomplete
     else Inr (Rec_End s (map (decode_gap (end_head s gaps @ tail)) [0..<length gaps]), 13 + length gaps * 16))"
proof -
  note h = end_head_reads(1) [of s gaps] end_head_reads(3-4) [of s gaps tail]
  have len: "unat (of_nat (length gaps) :: u32) = length gaps"
    using assms by (simp add: unsigned_of_nat take_bit_eq_mod MAX_GAPS_def)
  have hd: "end_head s gaps @ tail \<noteq> []" "hd (end_head s gaps @ tail) = KIND_END" by (simp_all add: end_head_def)
  show ?thesis
    unfolding record_decode_hd [OF hd(1)] hd(2) using assms by (simp add: h [unfolded One_nat_def] len Let_def)
qed

lemma record_encode_cases:
  assumes "record_encode r out = Inr bytes"
  obtains f where "r = Rec_Frame f" "length (fr_bytes f) \<le> MAX_LOG_FRAME_BYTES" "bytes = out @ frame_head f @ fr_bytes f"
  | s gaps where "r = Rec_End s gaps" "length gaps \<le> MAX_GAPS" "bytes = out @ end_head s gaps @ gap_bytes gaps"
proof (cases r)
  case (Rec_Frame f)
  then show ?thesis using assms that(1) [of f] by (auto simp: record_encode_def encode_frame_def frame_head_def split: if_splits)
next
  case (Rec_End s gaps)
  then show ?thesis using assms that(2) [of s gaps] by (auto simp: record_encode_def end_head_def split: if_splits)
qed

lemma decode_short:
  "hd bs = KIND_FRAME \<Longrightarrow> length bs < 18 \<Longrightarrow> record_decode bs = Inl Incomplete"
  "hd bs = KIND_END \<Longrightarrow> length bs < 13 \<Longrightarrow> record_decode bs = Inl Incomplete"
  by (cases "bs = []", simp add: record_decode_def, simp add: record_decode_hd)+

lemma decode_cut:
  "hd e = KIND_FRAME \<Longrightarrow> n < 18 \<Longrightarrow> record_decode (take n e) = Inl Incomplete"
  "hd e = KIND_END \<Longrightarrow> n < 13 \<Longrightarrow> record_decode (take n e) = Inl Incomplete"
  by (cases "n = 0", simp add: record_decode_def, intro decode_short, simp add: hd_take, simp)+

text \<open>
  C36: a log record is read back as it was written.  The bytes a record is encoded to decode to that record
  and to their own length, whatever follows them; and a record that was cut off anywhere is reported
  incomplete, never as another record.
\<close>

theorem record_round_trip:
  assumes "record_encode r out = Inr bytes"
  shows "\<exists>enc. bytes = out @ enc \<and> record_decode (enc @ rest) = Inr (r, length enc)
    \<and> (\<forall>n<length enc. record_decode (take n enc) = Inl Incomplete)"
  using assms
proof (cases rule: record_encode_cases)
  case (1 f)
  have cut: "record_decode (take n (frame_head f @ fr_bytes f)) = Inl Incomplete"
    if "n < length (frame_head f @ fr_bytes f)" for n
  proof (cases "n < 18")
    case True
    then show ?thesis by (intro decode_cut(1)) (simp_all add: frame_head_def)
  next
    case False
    then show ?thesis using that decode_frame [OF 1(2), of "take (n - 18) (fr_bytes f)"] frame_head_reads(1) [of f] by simp
  qed
  show ?thesis
    using cut decode_frame [OF 1(2), of "fr_bytes f @ rest"] 1(1,3) frame_head_reads(1) [of f]
    by (intro exI [of _ "frame_head f @ fr_bytes f"]) simp
next
  case (2 s gaps)
  have cut: "record_decode (take n (end_head s gaps @ gap_bytes gaps)) = Inl Incomplete"
    if "n < length (end_head s gaps @ gap_bytes gaps)" for n
  proof (cases "n < 13")
    case True
    then show ?thesis by (intro decode_cut(2)) (simp_all add: end_head_def)
  next
    case False
    then show ?thesis
      using that decode_end [OF 2(2), of s "take (n - 13) (gap_bytes gaps)"] end_head_reads(1) [of s gaps]
      by (simp add: length_gap_bytes)
  qed
  have "map (decode_gap (end_head s gaps @ gap_bytes gaps @ rest)) [0..<length gaps] = gaps"
    by (rule nth_equalityI) (simp_all add: slice_gap end_head_reads(1))
  then show ?thesis
    using cut decode_end [OF 2(2), of s "gap_bytes gaps @ rest"] 2(1,3) end_head_reads(1) [of s gaps]
    by (intro exI [of _ "end_head s gaps @ gap_bytes gaps"]) (simp add: length_gap_bytes)
qed

theorem record_round_trip_witness:
  "\<exists>enc. record_encode (Rec_End 5 [(2, 3)]) [9] = Inr (9 # enc) \<and> record_decode (enc @ [7]) = Inr (Rec_End 5 [(2, 3)], 29)"
proof -
  obtain bytes where b: "record_encode (Rec_End 5 [(2, 3)]) [9] = Inr bytes" and "length bytes = 30"
    by (simp add: record_encode_def MAX_GAPS_def)
  then show ?thesis using record_round_trip [OF b, of "[7]"] by auto
qed

end
