(* ===== verification/Redact_Scan.thy ===== *)
theory Redact_Scan
  imports Redact_Automaton Log_Records
begin

text \<open>
  The scanner of \<open>crates/sentinel-worker/src/redact.rs\<close>: \<open>Redactor\<close> with the two automata, the carry of
  every stream, \<open>scan\<close>, \<open>apply\<close>, \<open>redact_all\<close> and \<open>flush\<close>.

  \<open>scan\<close> finds the starts of all matches with the automaton of the reversed values, read from the end of
  the buffer, and the places where a value may still be open with the forward automaton, and then copies
  the buffer once.  The loops are those of the source, with its indices; the loops that follow failure
  links are \<open>partial_function (option)\<close>s.  Overwriting freed memory with zeros is not modelled.

  The specification is \<open>ref_scan\<close>: from left to right, the longest value that starts at a position is
  replaced; with \<open>hold\<close>, the scan stops at the first position from which the rest of the buffer is the
  beginning of a longer value.
\<close>

definition MIN_SECRET_BYTES :: nat where "MIN_SECRET_BYTES = 4"
definition REPLACEMENT :: "u8 list" where "REPLACEMENT = [42, 42, 42]"

record matcher =
  mt_reversed :: automaton
  mt_forward :: automaton

record redactor =
  rd_secrets :: "u8 list list"
  rd_longest :: nat
  rd_matcher :: "matcher option"
  rd_starts :: "(nat \<times> nat) list"
  rd_carry :: "u8 list list"

definition redactor_new :: redactor where
  "redactor_new = \<lparr>rd_secrets = [], rd_longest = 0, rd_matcher = None, rd_starts = [], rd_carry = [[], [], []]\<rparr>"

definition rd_insert :: "redactor \<Rightarrow> u8 list \<Rightarrow> redactor" where
  "rd_insert r value =
     r\<lparr>rd_longest := max (rd_longest r) (length value), rd_secrets := rd_secrets r @ [value]\<rparr>"

definition the_matcher :: "redactor \<Rightarrow> (matcher \<times> redactor) option" where
  "the_matcher r =
     (case rd_matcher r of
        Some m \<Rightarrow> Some (m, r)
      | None \<Rightarrow>
          let secrets = remdups_adj (sort (rd_secrets r)) in
          Option.bind (build (map rev secrets)) (\<lambda>reversed.
          Option.bind (build secrets) (\<lambda>forward.
          let m = \<lparr>mt_reversed = reversed, mt_forward = forward\<rparr>
          in Some (m, r\<lparr>rd_secrets := secrets, rd_matcher := Some m\<rparr>))))"

subsection \<open>The scan\<close>

text \<open>The first loop: from the end of the buffer to its front.\<close>

fun mark_starts ::
    "automaton \<Rightarrow> u8 list \<Rightarrow> nat \<Rightarrow> nat \<Rightarrow> (nat \<times> nat) list \<Rightarrow> (nat \<times> nat) list option" where
  "mark_starts reversed buf 0 state starts = Some starts"
| "mark_starts reversed buf (Suc i) state starts =
     Option.bind (if state = 0 then Some (au_root reversed ! unat (buf ! i))
                  else au_next reversed state (buf ! i)) (\<lambda>state.
     mark_starts reversed buf i state
       (if state \<noteq> 0 \<and> au_out reversed ! state \<noteq> 0 then starts @ [(as_u32 i, au_out reversed ! state)]
        else starts))"

fun read_all :: "automaton \<Rightarrow> nat \<Rightarrow> u8 list \<Rightarrow> nat option" where
  "read_all a state [] = Some state"
| "read_all a state (byte # rest) = Option.bind (au_next a state byte) (\<lambda>state. read_all a state rest)"

text \<open>The closure \<open>candidate\<close>: the next place where a value is open, and the rest of the chain.\<close>

partial_function (option) candidate :: "automaton \<Rightarrow> nat \<Rightarrow> nat \<Rightarrow> (nat option \<times> nat) option" where
  [code]: "candidate forward len chain =
     (if chain = 0 then Some (None, 0)
      else if au_first forward ! chain < au_first forward ! Suc chain
      then Some (Some (len - au_depth forward ! chain), au_fail forward ! chain)
      else candidate forward len (au_fail forward ! chain))"

partial_function (option) skip_held ::
    "automaton \<Rightarrow> nat \<Rightarrow> nat \<Rightarrow> nat option \<Rightarrow> nat \<Rightarrow> (nat option \<times> nat) option" where
  [code]: "skip_held forward len at next_hold chain =
     (case next_hold of
        Some q \<Rightarrow>
          if q < at then Option.bind (candidate forward len chain) (\<lambda>(next_hold, chain).
            skip_held forward len at next_hold chain)
          else Some (Some q, chain)
      | None \<Rightarrow> Some (None, chain))"

fun skip_starts :: "(nat \<times> nat) list \<Rightarrow> nat \<Rightarrow> nat \<Rightarrow> nat" where
  "skip_starts starts at 0 = 0"
| "skip_starts starts at (Suc n) = (if fst (starts ! n) < at then skip_starts starts at n else Suc n)"

lemma skip_starts_le: "skip_starts starts at n \<le> n"
  by (induction n) (auto intro: le_SucI)

text \<open>The inner loop: replaces the matches before \<open>stop\<close>.\<close>

function copy_until ::
    "u8 list \<Rightarrow> (nat \<times> nat) list \<Rightarrow> nat \<Rightarrow> nat \<Rightarrow> nat \<Rightarrow> nat \<Rightarrow> u8 list \<Rightarrow> nat \<times> nat \<times> nat \<times> u8 list" where
  "copy_until buf starts stop at plain nx out =
     (let nx = skip_starts starts at nx in
      if nx = 0 \<or> stop \<le> fst (starts ! (nx - 1)) then (stop, plain, nx, out)
      else
        let (pos, len) = starts ! (nx - 1);
            out = out @ subslice buf plain pos @ REPLACEMENT;
            at = pos + len
        in if stop < at then (at, at, nx - 1, out)
           else copy_until buf starts stop at at (nx - 1) out)"
  by auto
termination
  by (relation "measure (\<lambda>(buf, starts, stop, at, plain, nx, out). nx)")
    (auto intro: order.strict_trans2 [OF diff_less skip_starts_le])

declare copy_until.simps [simp del]

partial_function (option) copy_all ::
    "automaton \<Rightarrow> u8 list \<Rightarrow> (nat \<times> nat) list \<Rightarrow> nat \<Rightarrow> nat \<Rightarrow> nat option \<Rightarrow> nat \<Rightarrow> u8 list \<Rightarrow> (u8 list \<times> nat) option" where
  [code]: "copy_all forward buf starts at nx next_hold chain out =
     Option.bind (skip_held forward (length buf) at next_hold chain) (\<lambda>(next_hold, chain).
     let stop = (case next_hold of Some q \<Rightarrow> q | None \<Rightarrow> length buf)
     in case copy_until buf starts stop at at nx out of (at, plain, nx, out) \<Rightarrow>
          if at = stop then Some (out @ subslice buf plain at, at)
          else copy_all forward buf starts at nx next_hold chain out)"

definition scan :: "redactor \<Rightarrow> u8 list \<Rightarrow> bool \<Rightarrow> ((u8 list \<times> nat) \<times> redactor) option" where
  "scan r buf hold =
     (let longest = rd_longest r in
      Option.bind (the_matcher r) (\<lambda>(m, r).
      Option.bind (mark_starts (mt_reversed m) buf (length buf) 0 []) (\<lambda>starts.
      Option.bind (if hold then read_all (mt_forward m) 0 (drop (length buf - longest) buf) else Some 0) (\<lambda>chain.
      Option.bind (candidate (mt_forward m) (length buf) chain) (\<lambda>(next_hold, chain).
      Option.bind (copy_all (mt_forward m) buf starts 0 (length starts) next_hold chain []) (\<lambda>(out, at).
      Some ((out, at), r\<lparr>rd_starts := starts\<rparr>)))))))"

definition carry_of :: "redactor \<Rightarrow> stream \<Rightarrow> u8 list" where
  "carry_of r stream = rd_carry r ! unat (stream_code stream)"

definition set_carry :: "redactor \<Rightarrow> stream \<Rightarrow> u8 list \<Rightarrow> redactor" where
  "set_carry r stream bytes = r\<lparr>rd_carry := (rd_carry r)[unat (stream_code stream) := bytes]\<rparr>"

definition redact_apply :: "redactor \<Rightarrow> stream \<Rightarrow> u8 list \<Rightarrow> (u8 list \<times> redactor) option" where
  "redact_apply r stream chunk =
     (if rd_secrets r = [] then Some (chunk, r)
      else
        let buf = carry_of r stream @ chunk; r = set_carry r stream []
        in Option.bind (scan r buf True) (\<lambda>((out, at), r). Some (out, set_carry r stream (drop at buf))))"

definition redact_all :: "redactor \<Rightarrow> u8 list \<Rightarrow> (u8 list \<times> redactor) option" where
  "redact_all r bytes =
     (if rd_secrets r = [] then Some (bytes, r)
      else Option.bind (scan r bytes False) (\<lambda>((out, at), r). Some (out @ drop at bytes, r)))"

definition redact_flush :: "redactor \<Rightarrow> stream \<Rightarrow> u8 list \<times> redactor" where
  "redact_flush r stream = (carry_of r stream, set_carry r stream [])"

subsection \<open>The reference\<close>

text \<open>The length of the longest value that starts here, 0 when none does.\<close>

definition best :: "u8 list list \<Rightarrow> u8 list \<Rightarrow> nat" where
  "best ss w = fold (\<lambda>s m. if prefix s w then max m (length s) else m) ss 0"

definition open_at :: "u8 list list \<Rightarrow> u8 list \<Rightarrow> bool" where
  "open_at ss w \<longleftrightarrow> list_ex (\<lambda>s. length w < length s \<and> prefix w s) ss"

function ref_scan :: "u8 list list \<Rightarrow> bool \<Rightarrow> u8 list \<Rightarrow> u8 list \<times> nat" where
  "ref_scan ss hold w =
     (if w = [] \<or> hold \<and> open_at ss w then ([], 0)
      else if best ss w = 0 then (let (out, n) = ref_scan ss hold (tl w) in (hd w # out, Suc n))
      else (let (out, n) = ref_scan ss hold (drop (best ss w) w) in (REPLACEMENT @ out, best ss w + n)))"
  by auto
termination
  by (relation "measure (\<lambda>(ss, hold, w). length w)") auto

declare ref_scan.simps [simp del]

definition ref_all :: "u8 list list \<Rightarrow> u8 list \<Rightarrow> u8 list" where
  "ref_all ss w = fst (ref_scan ss False w)"

subsection \<open>Reading with the automata\<close>

definition reads :: "u8 list list \<Rightarrow> nat \<Rightarrow> u8 list \<Rightarrow> bool" where
  "reads ws s t \<longleftrightarrow> s < length ws \<and> ws ! s = lsuf (set ws) t"

lemma links_words: "links_ok ws T a \<Longrightarrow> words_ok ws"
  by (simp add: links_ok_def shape_def)

lemma reads_start: "words_ok ws \<Longrightarrow> reads ws 0 []"
  using words_okD(1,2) [of ws] by (simp add: reads_def)

lemma reads_next:
  assumes "links_ok ws T a" "reads ws s t"
  shows "\<exists>s'. au_next a s b = Some s' \<and> reads ws s' (t @ [b])"
proof -
  have sh: "shape ws a" and s: "s < length ws" "ws ! s = lsuf (set ws) t" using assms by (auto simp: links_ok_def reads_def)
  have "fail_ok ws a m" if "m < length ws" "m \<noteq> 0" for m using assms(1) that by (simp add: links_ok_def)
  then obtain s' where "s' < length ws" "au_next a s b = Some s'" "ws ! s' = lsuf (set ws) (ws ! s @ [b])"
    using au_next_eq [OF sh s(1)] by blast
  moreover have "lsuf (set ws) (ws ! s @ [b]) = lsuf (set ws) (t @ [b])"
    unfolding s(2) by (rule lsuf_snoc [symmetric]) (use words_okD(4,5) [OF links_words [OF assms(1)]] in auto)
  ultimately show ?thesis by (auto simp: reads_def)
qed

lemma reads_out:
  assumes "links_ok ws T a" "T \<subseteq> set ws" "reads ws s t"
  shows "au_out a ! s = length (lsuf (insert [] T) t)"
proof -
  have "au_out a ! s = length (lsuf (insert [] T) (lsuf (set ws) t))"
    using assms by (simp add: links_ok_def out_ok_def reads_def)
  also have "lsuf (insert [] T) (lsuf (set ws) t) = lsuf (insert [] T) t"
    by (rule lsuf_lsuf) (use assms words_okD(4) [OF links_words [OF assms(1)]] in auto)
  finally show ?thesis .
qed

lemma read_all_ok:
  "links_ok ws T a \<Longrightarrow> reads ws s t \<Longrightarrow> \<exists>s'. read_all a s u = Some s' \<and> reads ws s' (t @ u)"
proof (induction u arbitrary: s t)
  case (Cons b u)
  obtain s' where s': "au_next a s b = Some s'" "reads ws s' (t @ [b])" using reads_next [OF Cons.prems] by blast
  then show ?case using Cons.IH [OF Cons.prems(1) s'(2)] by auto
qed auto

subsection \<open>The longest match\<close>

lemma best_fold: "fold (\<lambda>s m. if prefix s w then max m (length s) else m) ss k = max k (best ss w)"
proof (induction ss arbitrary: k)
  case (Cons s ss)
  let ?f = "\<lambda>s m. if prefix s w then max m (length s) else m"
  have "best (s # ss) w = max (?f s 0) (best ss w)" unfolding best_def using Cons [of "?f s 0"] by (simp add: best_def)
  then show ?case using Cons [of "?f s k"] by (auto simp: max.assoc)
qed (simp add: best_def)

lemma best_Nil: "best [] w = 0"
  by (simp add: best_def)

lemma best_Cons: "best (s # ss) w = max (if prefix s w then length s else 0) (best ss w)"
  using best_fold [of w ss "if prefix s w then length s else 0"] by (simp add: best_def)

lemma best_upper: "s \<in> set ss \<Longrightarrow> prefix s w \<Longrightarrow> length s \<le> best ss w"
  by (induction ss) (auto simp: best_Cons)

lemma best_attained: "best ss w \<noteq> 0 \<Longrightarrow> \<exists>s\<in>set ss. prefix s w \<and> length s = best ss w"
  by (induction ss) (auto simp: best_Nil best_Cons max_def split: if_splits)

lemma best_le: "best ss w \<le> length w"
  using best_attained [of ss w] by (cases "best ss w = 0") (auto dest: prefix_length_le)

lemma best_cong: "set ss = set ss' \<Longrightarrow> best ss w = best ss' w"
proof (rule antisym)
  show "best ss w \<le> best ss' w" if "set ss = set ss'"
    using best_attained [of ss w] best_upper [of _ ss' w] that by (cases "best ss w = 0") fastforce+
  show "best ss' w \<le> best ss w" if "set ss = set ss'"
    using best_attained [of ss' w] best_upper [of _ ss w] that by (cases "best ss' w = 0") fastforce+
qed

lemma lsuf_best: "length (lsuf (insert [] (rev ` set ss)) (rev w)) = best ss w"
proof (rule antisym)
  let ?v = "lsuf (insert [] (rev ` set ss)) (rev w)"
  have "?v \<in> insert [] (rev ` set ss)" by (rule lsuf_in) simp
  moreover have "suffix ?v (rev w)" by (rule lsuf_suffix)
  ultimately show "length ?v \<le> best ss w" using best_upper [of _ ss w] by (auto simp: suffix_to_prefix)
  show "best ss w \<le> length ?v"
  proof (cases "best ss w = 0")
    case False
    then obtain s where s: "s \<in> set ss" "prefix s w" "length s = best ss w" using best_attained by blast
    then have "suffix (rev s) ?v" by (intro lsuf_longest) (auto simp: suffix_to_prefix)
    then show ?thesis using s(3) suffix_length_le by fastforce
  qed simp
qed

definition match_list :: "u8 list list \<Rightarrow> u8 list \<Rightarrow> nat \<Rightarrow> (nat \<times> nat) list" where
  "match_list ss buf n = map (\<lambda>j. (j, best ss (drop j buf))) (filter (\<lambda>j. best ss (drop j buf) \<noteq> 0) [0..<n])"

lemma mark_starts_ok:
  assumes "links_ok ws (rev ` set ss) a" "rev ` set ss \<subseteq> set ws" "length buf \<le> 2 ^ 32"
    "i \<le> length buf" "reads ws state (rev (drop i buf))"
  shows "mark_starts a buf i state starts = Some (starts @ rev (match_list ss buf i))"
  using assms(4,5)
proof (induction i arbitrary: state starts)
  case (Suc i)
  have d: "rev (drop (Suc i) buf) @ [buf ! i] = rev (drop i buf)"
    using Suc.prems(1) by (metis Cons_nth_drop_Suc Suc_le_eq rev.simps(2))
  obtain s' where s': "au_next a state (buf ! i) = Some s'" "reads ws s' (rev (drop i buf))"
    using reads_next [OF assms(1) Suc.prems(2), of "buf ! i"] d by auto
  have "(if state = 0 then Some (au_root a ! unat (buf ! i)) else au_next a state (buf ! i)) = Some s'"
    using s'(1) au_next_root by auto
  moreover have out: "au_out a ! s' = best ss (drop i buf)"
    using reads_out [OF assms(1,2) s'(2)] lsuf_best by simp
  moreover have "au_out a ! 0 = 0"
    using reads_out [OF assms(1,2) reads_start [OF links_words [OF assms(1)]]] by simp
  moreover have "as_u32 i = i" using Suc.prems(1) assms(3) by simp
  moreover have "s' = 0 \<Longrightarrow> best ss (drop i buf) = 0" using calculation(2,3) by auto
  ultimately show ?case using Suc.IH [OF _ s'(2)] Suc.prems(1) by (auto simp: match_list_def)
qed (simp add: match_list_def)

subsection \<open>Where a value may still be open\<close>

definition forward_ok :: "u8 list list \<Rightarrow> u8 list list \<Rightarrow> automaton \<Rightarrow> bool" where
  "forward_ok ss ws a \<longleftrightarrow> links_ok ws (set ss) a \<and> set ws = {[]} \<union> {p. \<exists>s\<in>set ss. prefix p s}"

lemma open_at_iff: "open_at ss w \<longleftrightarrow> (\<exists>s\<in>set ss. \<exists>b. prefix (w @ [b]) s)"
proof -
  have "length w < length s \<and> prefix w s \<longleftrightarrow> (\<exists>b. prefix (w @ [b]) s)" for s
    by (auto simp: prefix_def) (metis append.right_neutral append_Cons append_Nil append_assoc length_append less_irrefl
        list.exhaust add.right_neutral list.size(3))
  then show ?thesis by (auto simp: open_at_def list_ex_iff)
qed

lemma open_word: "forward_ok ss ws a \<Longrightarrow> open_at ss w \<Longrightarrow> w \<in> set ws"
  by (auto simp: forward_ok_def open_at_def list_ex_iff)

lemma has_children:
  assumes "forward_ok ss ws a" "c < length ws"
  shows "au_first a ! c < au_first a ! Suc c \<longleftrightarrow> open_at ss (ws ! c)"
proof -
  have sh: "shape ws a" using assms(1) by (simp add: forward_ok_def links_ok_def)
  then have "au_first a ! c < au_first a ! Suc c \<longleftrightarrow> au_children a c \<noteq> []"
    using assms(2) by (auto simp: shape_def au_children_def)
  also have "\<dots> \<longleftrightarrow> (\<exists>b c'. (b, c') \<in> set (au_children a c))" by (metis list.set_intros(1) list.exhaust surj_pair empty_iff list.set(1))
  also have "\<dots> \<longleftrightarrow> (\<exists>b. ws ! c @ [b] \<in> set ws)"
    using sh assms(2) by (auto simp: shape_def edges_ok_def in_set_conv_nth)
  also have "\<dots> \<longleftrightarrow> open_at ss (ws ! c)" using assms(1) by (auto simp: open_at_iff forward_ok_def)
  finally show ?thesis .
qed

text \<open>A state of the chain is a node whose word the buffer ends with.\<close>

definition on_chain :: "u8 list list \<Rightarrow> u8 list \<Rightarrow> nat \<Rightarrow> bool" where
  "on_chain ws buf c \<longleftrightarrow> c < length ws \<and> suffix (ws ! c) buf"

definition chain_covers :: "u8 list list \<Rightarrow> u8 list list \<Rightarrow> u8 list \<Rightarrow> nat \<Rightarrow> nat \<Rightarrow> bool" where
  "chain_covers ss ws buf lo c \<longleftrightarrow>
     (\<forall>q. lo \<le> q \<longrightarrow> q < length buf \<longrightarrow> open_at ss (drop q buf) \<longrightarrow> length buf - length (ws ! c) \<le> q)"

lemma chain_word: "on_chain ws buf c \<Longrightarrow> drop (length buf - length (ws ! c)) buf = ws ! c"
  by (auto simp: on_chain_def suffix_def)

lemma chain_fail:
  assumes "forward_ok ss ws a" "on_chain ws buf c" "c \<noteq> 0"
  shows "on_chain ws buf (au_fail a ! c)" "length (ws ! (au_fail a ! c)) < length (ws ! c)"
    and "chain_covers ss ws buf lo c \<Longrightarrow> chain_covers ss ws buf (max lo (Suc (length buf - length (ws ! c)))) (au_fail a ! c)"
proof -
  let ?f = "au_fail a ! c"
  have lk: "links_ok ws (set ss) a" using assms(1) by (simp add: forward_ok_def)
  have w: "words_ok ws" by (rule links_words [OF lk])
  have c: "c < length ws" "suffix (ws ! c) buf" using assms(2) by (auto simp: on_chain_def)
  have f: "?f < length ws" "ws ! ?f = lsuf (set ws) (tl (ws ! c))"
    using lk c(1) assms(3) by (auto simp: links_ok_def fail_ok_def)
  have ne: "ws ! c \<noteq> []" using word_inj [OF w c(1) words_okD(1) [OF w]] words_okD(2) [OF w] assms(3) by simp
  have "suffix (ws ! ?f) (tl (ws ! c))" unfolding f(2) by (rule lsuf_suffix)
  then have "suffix (ws ! ?f) (ws ! c)" by (meson suffix_order.trans suffix_tl)
  then show "on_chain ws buf ?f" using f(1) c(2) unfolding on_chain_def by (meson suffix_order.trans)
  show "length (ws ! ?f) < length (ws ! c)"
    unfolding f(2) using lsuf_length [of "set ws" "tl (ws ! c)"] ne by (cases "ws ! c") auto
  show "chain_covers ss ws buf (max lo (Suc (length buf - length (ws ! c)))) ?f" if "chain_covers ss ws buf lo c"
    unfolding chain_covers_def
  proof (intro allI impI)
    fix q assume q: "max lo (Suc (length buf - length (ws ! c))) \<le> q" "q < length buf" "open_at ss (drop q buf)"
    have "suffix (drop q buf) (tl (ws ! c))"
    proof -
      have "tl (ws ! c) = drop (Suc (length buf - length (ws ! c))) buf"
        by (subst chain_word [OF assms(2), symmetric]) (simp add: drop_Suc tl_drop)
      then show ?thesis using q(1) by (metis drop_drop le_add_diff_inverse2 max.boundedE suffix_drop)
    qed
    then have "suffix (drop q buf) (ws ! ?f)" unfolding f(2) by (rule lsuf_longest [OF _ open_word [OF assms(1) q(3)]])
    then have "length buf - q \<le> length (ws ! ?f)" using suffix_length_le by fastforce
    then show "length buf - length (ws ! ?f) \<le> q" by simp
  qed
qed

text \<open>What a pending candidate tells about the positions from \<open>lo\<close> on.\<close>

definition pending_ok :: "u8 list list \<Rightarrow> u8 list list \<Rightarrow> u8 list \<Rightarrow> nat \<Rightarrow> nat option \<Rightarrow> nat \<Rightarrow> bool" where
  "pending_ok ss ws buf lo h c \<longleftrightarrow> on_chain ws buf c \<and>
     (case h of
        None \<Rightarrow> \<forall>q. lo \<le> q \<longrightarrow> q < length buf \<longrightarrow> \<not> open_at ss (drop q buf)
      | Some q \<Rightarrow> q < length buf \<and> open_at ss (drop q buf) \<and> (\<forall>q'. lo \<le> q' \<longrightarrow> q' < q \<longrightarrow> \<not> open_at ss (drop q' buf))
          \<and> chain_covers ss ws buf (max lo (Suc q)) c)"

lemma candidate_zero: "candidate a n 0 = Some (None, 0)"
  by (simp add: candidate.simps)

lemma candidate_ok:
  assumes "forward_ok ss ws a" "on_chain ws buf c" "chain_covers ss ws buf lo c"
  shows "\<exists>h c'. candidate a (length buf) c = Some (h, c') \<and> pending_ok ss ws buf lo h c'
    \<and> (h \<noteq> None \<longrightarrow> length (ws ! c') < length (ws ! c))"
  using assms(2,3)
proof (induction "length (ws ! c)" arbitrary: c rule: less_induct)
  case less
  have lk: "links_ok ws (set ss) a" using assms(1) by (simp add: forward_ok_def)
  have w: "words_ok ws" by (rule links_words [OF lk])
  have c: "c < length ws" using less.prems(1) by (simp add: on_chain_def)
  show ?case
  proof (cases "c = 0")
    case True
    have "\<not> (lo \<le> q \<and> q < length buf \<and> open_at ss (drop q buf))" for q
      using less.prems(2) True words_okD(2) [OF w] by (auto simp: chain_covers_def)
    then show ?thesis using True less.prems(1) candidate_zero [of a "length buf"] by (auto simp: pending_ok_def)
  next
    case False
    note f = chain_fail [OF assms(1) less.prems(1) False]
    let ?q = "length buf - length (ws ! c)"
    have dep: "au_depth a ! c = length (ws ! c)" using lk c by (simp add: links_ok_def shape_def)
    have ne: "0 < length (ws ! c)" using f(2) by linarith
    have "length (ws ! c) \<le> length buf" using less.prems(1) suffix_length_le by (auto simp: on_chain_def)
    then have q: "?q < length buf" using ne by linarith
    show ?thesis
    proof (cases "open_at ss (ws ! c)")
      case True
      then have "candidate a (length buf) c = Some (Some ?q, au_fail a ! c)"
        using False has_children [OF assms(1) c] dep by (subst candidate.simps) simp
      moreover have "\<forall>q'. lo \<le> q' \<longrightarrow> q' < ?q \<longrightarrow> \<not> open_at ss (drop q' buf)"
        using less.prems(2) q by (auto simp: chain_covers_def)
      ultimately show ?thesis
        using f(1,2) f(3) [OF less.prems(2)] q True chain_word [OF less.prems(1)] by (auto simp: pending_ok_def)
    next
      case no: False
      have "candidate a (length buf) c = candidate a (length buf) (au_fail a ! c)"
        using False has_children [OF assms(1) c] no by (subst candidate.simps) simp
      moreover have "chain_covers ss ws buf lo (au_fail a ! c)"
        unfolding chain_covers_def
      proof (intro allI impI)
        fix q assume q: "lo \<le> q" "q < length buf" "open_at ss (drop q buf)"
        have "?q \<le> q" using less.prems(2) q by (simp add: chain_covers_def)
        moreover have "q \<noteq> ?q" using q(3) no chain_word [OF less.prems(1)] by auto
        ultimately show "length buf - length (ws ! (au_fail a ! c)) \<le> q"
          using f(3) [OF less.prems(2)] q unfolding chain_covers_def by simp
      qed
      ultimately obtain h c' where "candidate a (length buf) c = Some (h, c')" "pending_ok ss ws buf lo h c'"
          "h \<noteq> None \<longrightarrow> length (ws ! c') < length (ws ! (au_fail a ! c))"
        using less.hyps [OF f(2) f(1)] by auto
      then show ?thesis using f(2) by (intro exI [of _ h] exI [of _ c']) auto
    qed
  qed
qed

lemma skip_held_ok:
  assumes "forward_ok ss ws a" "pending_ok ss ws buf lo h c" "lo \<le> at"
  shows "\<exists>h' c'. skip_held a (length buf) at h c = Some (h', c') \<and> pending_ok ss ws buf at h' c'
    \<and> (\<forall>q. h' = Some q \<longrightarrow> at \<le> q)"
  using assms(2,3)
proof (induction "length (ws ! c)" arbitrary: h c lo rule: less_induct)
  case less
  show ?case
  proof (cases h)
    case None
    then have "skip_held a (length buf) at h c = Some (None, c)" by (subst skip_held.simps) simp
    then show ?thesis using less.prems None by (auto simp: pending_ok_def)
  next
    case (Some q)
    show ?thesis
    proof (cases "q < at")
      case False
      then have "skip_held a (length buf) at h c = Some (Some q, c)" using Some by (subst skip_held.simps) simp
      moreover have "pending_ok ss ws buf at (Some q) c"
        using less.prems Some False by (auto simp: pending_ok_def chain_covers_def)
      ultimately show ?thesis using False by auto
    next
      case True
      have cov: "chain_covers ss ws buf (max lo (Suc q)) c" "on_chain ws buf c"
        using less.prems Some by (auto simp: pending_ok_def)
      obtain h' c' where c': "candidate a (length buf) c = Some (h', c')" "pending_ok ss ws buf (max lo (Suc q)) h' c'"
          "h' \<noteq> None \<longrightarrow> length (ws ! c') < length (ws ! c)"
        using candidate_ok [OF assms(1) cov(2,1)] by blast
      have step: "skip_held a (length buf) at h c = skip_held a (length buf) at h' c'"
        using Some True c'(1) by (subst skip_held.simps) simp
      show ?thesis
      proof (cases h')
        case None
        then have "skip_held a (length buf) at h' c' = Some (None, c')" by (subst skip_held.simps) simp
        then show ?thesis using step c'(2) None less.prems(2) True by (auto simp: pending_ok_def)
      next
        case (Some q2)
        then show ?thesis using less.hyps [OF _ c'(2)] step c'(3) less.prems(2) True by auto
      qed
    qed
  qed
qed

subsection \<open>The matches that remain\<close>

lemma skip_starts_rem:
  "nx \<le> length starts \<Longrightarrow>
     rev (take (skip_starts starts at nx) starts) = dropWhile (\<lambda>x. fst x < at) (rev (take nx starts))"
  by (induction nx) (auto simp: take_Suc_conv_app_nth)

lemma dropWhile_sorted: "sorted (map fst xs) \<Longrightarrow> dropWhile (\<lambda>x. fst x < at) xs = filter (\<lambda>x. at \<le> fst x) xs" for at :: nat
  by (induction xs) (auto intro!: filter_True [symmetric])

lemma match_list_sorted: "sorted (map fst (match_list ss buf n))"
  by (simp add: match_list_def comp_def sorted_wrt_filter)

lemma match_list_mem: "(p, l) \<in> set (match_list ss buf n) \<longleftrightarrow> p < n \<and> l = best ss (drop p buf) \<and> l \<noteq> 0"
  by (auto simp: match_list_def)

abbreviation matches_from :: "u8 list list \<Rightarrow> u8 list \<Rightarrow> nat \<Rightarrow> (nat \<times> nat) list" where
  "matches_from ss buf at \<equiv> filter (\<lambda>x. at \<le> fst x) (match_list ss buf (length buf))"

text \<open>Nothing at or after \<open>at\<close> has been taken.\<close>

definition remaining :: "u8 list list \<Rightarrow> u8 list \<Rightarrow> (nat \<times> nat) list \<Rightarrow> nat \<Rightarrow> nat \<Rightarrow> bool" where
  "remaining ss buf starts nx at \<longleftrightarrow> nx \<le> length starts \<and> starts = rev (match_list ss buf (length buf))
     \<and> filter (\<lambda>x. at \<le> fst x) (rev (take nx starts)) = matches_from ss buf at"

lemma sorted_rem:
  assumes "remaining ss buf starts nx at"
  shows "sorted (map fst (rev (take nx starts)))"
proof -
  have "rev (take nx starts) = drop (length starts - nx) (match_list ss buf (length buf))"
    using assms by (simp add: remaining_def rev_take)
  then show ?thesis using match_list_sorted [of ss buf "length buf"] by (simp add: drop_map [symmetric] sorted_wrt_drop)
qed

lemma skip_remaining:
  assumes "remaining ss buf starts nx at"
  shows "rev (take (skip_starts starts at nx) starts) = matches_from ss buf at"
proof -
  have "rev (take (skip_starts starts at nx) starts) = dropWhile (\<lambda>x. fst x < at) (rev (take nx starts))"
    by (rule skip_starts_rem) (use assms [unfolded remaining_def] in blast)
  also have "\<dots> = filter (\<lambda>x. at \<le> fst x) (rev (take nx starts))" by (rule dropWhile_sorted [OF sorted_rem [OF assms]])
  also have "\<dots> = matches_from ss buf at" using assms unfolding remaining_def by blast
  finally show ?thesis .
qed

lemma first_match:
  assumes "matches_from ss buf at = (p, l) # rest"
  shows "at \<le> p" "p < length buf" "l = best ss (drop p buf)" "l \<noteq> 0"
    "\<And>j. at \<le> j \<Longrightarrow> j < p \<Longrightarrow> best ss (drop j buf) = 0"
    "p < at' \<Longrightarrow> filter (\<lambda>x. at' \<le> fst x) rest = matches_from ss buf at'"
proof -
  have m: "(p, l) \<in> set (matches_from ss buf at)" by (simp add: assms)
  then show "at \<le> p" "p < length buf" "l = best ss (drop p buf)" "l \<noteq> 0" by (auto simp: match_list_mem)
  have srt: "sorted (map fst (matches_from ss buf at))" by (rule sorted_filter [OF match_list_sorted])
  show "best ss (drop j buf) = 0" if "at \<le> j" "j < p" for j
  proof (rule ccontr)
    assume "best ss (drop j buf) \<noteq> 0"
    then have "(j, best ss (drop j buf)) \<in> set (matches_from ss buf at)"
      using that \<open>p < length buf\<close> by (simp add: match_list_mem)
    then show False using srt that(2) unfolding assms by auto
  qed
  show "filter (\<lambda>x. at' \<le> fst x) rest = matches_from ss buf at'" if "p < at'"
  proof -
    have "matches_from ss buf at' = filter (\<lambda>x. at' \<le> fst x) (matches_from ss buf at)"
      using \<open>at \<le> p\<close> that by (auto simp: filter_filter intro: filter_cong)
    then show ?thesis using that by (simp add: assms)
  qed
qed

lemma matches_none:
  assumes "matches_from ss buf at = []" "at \<le> j" "j < length buf"
  shows "best ss (drop j buf) = 0"
proof (rule ccontr)
  assume "best ss (drop j buf) \<noteq> 0"
  then have "(j, best ss (drop j buf)) \<in> set (matches_from ss buf at)" using assms(2,3) by (simp add: match_list_mem)
  then show False using assms(1) by simp
qed

subsection \<open>Copying is the reference\<close>

abbreviation ref_at :: "u8 list list \<Rightarrow> bool \<Rightarrow> u8 list \<Rightarrow> nat \<Rightarrow> u8 list \<times> nat" where
  "ref_at ss hold buf k \<equiv> ref_scan ss hold (drop k buf)"

lemma ref_plain:
  assumes "k \<le> e" "e \<le> length buf"
    "\<And>j. k \<le> j \<Longrightarrow> j < e \<Longrightarrow> best ss (drop j buf) = 0 \<and> \<not> (hold \<and> open_at ss (drop j buf))"
  shows "ref_at ss hold buf k = (subslice buf k e @ fst (ref_at ss hold buf e), (e - k) + snd (ref_at ss hold buf e))"
  using assms
proof (induction "e - k" arbitrary: k)
  case 0
  then show ?case by (simp add: subslice_def)
next
  case (Suc d)
  then have k: "k < length buf" "k < e" by simp_all
  have "ref_at ss hold buf (Suc k) = (subslice buf (Suc k) e @ fst (ref_at ss hold buf e), (e - Suc k) + snd (ref_at ss hold buf e))"
    by (rule Suc.hyps(1)) (use Suc in auto)
  moreover have "ref_at ss hold buf k = (let (out, n) = ref_at ss hold buf (Suc k) in (buf ! k # out, Suc n))"
    using Suc.prems(3) [of k] k by (subst ref_scan.simps) (auto simp: hd_drop_conv_nth drop_Suc tl_drop)
  moreover have "subslice buf k e = buf ! k # subslice buf (Suc k) e"
    using k by (simp add: subslice_def Cons_nth_drop_Suc [symmetric] take_Cons' )
  ultimately show ?case using k by simp
qed

lemma ref_match:
  assumes "p < length buf" "\<not> (hold \<and> open_at ss (drop p buf))" "best ss (drop p buf) = l" "l \<noteq> 0"
  shows "ref_at ss hold buf p = (REPLACEMENT @ fst (ref_at ss hold buf (p + l)), l + snd (ref_at ss hold buf (p + l)))"
  using assms by (subst ref_scan.simps) (auto simp: case_prod_beta Let_def add.commute)

lemma rev_take_step: "0 < k \<Longrightarrow> k \<le> length xs \<Longrightarrow> rev (take k xs) = xs ! (k - 1) # rev (take (k - 1) xs)"
  by (cases k) (simp_all add: take_Suc_conv_app_nth)

lemma matches_from_later: "at \<le> at' \<Longrightarrow> filter (\<lambda>x. at' \<le> fst x) (matches_from ss buf at) = matches_from ss buf at'"
  by (auto simp: filter_filter intro: filter_cong)

text \<open>From a position to the next match, and over it.\<close>

lemma ref_to_match:
  assumes "matches_from ss buf at = (p, l) # rest" "\<And>j. at \<le> j \<Longrightarrow> j \<le> p \<Longrightarrow> \<not> (hold \<and> open_at ss (drop j buf))"
  shows "ref_at ss hold buf at = ((subslice buf at p @ REPLACEMENT) @ fst (ref_at ss hold buf (p + l)),
      (p + l - at) + snd (ref_at ss hold buf (p + l)))"
proof -
  note fm = first_match [OF assms(1)]
  have "ref_at ss hold buf at = (subslice buf at p @ fst (ref_at ss hold buf p), (p - at) + snd (ref_at ss hold buf p))"
    by (rule ref_plain) (use fm assms(2) in auto)
  moreover have "ref_at ss hold buf p = (REPLACEMENT @ fst (ref_at ss hold buf (p + l)), l + snd (ref_at ss hold buf (p + l)))"
    by (rule ref_match) (use fm assms(2) in auto)
  ultimately show ?thesis using fm(1) by simp
qed

lemma copy_until_stops:
  assumes "skip_starts starts at nx = k" "k = 0 \<or> stop \<le> fst (starts ! (k - 1))"
  shows "copy_until buf starts stop at plain nx out = (stop, plain, k, out)"
  using assms by (subst copy_until.simps) (simp add: Let_def)

lemma copy_until_steps:
  assumes "skip_starts starts at nx = k" "k \<noteq> 0" "starts ! (k - 1) = (p, l)" "p < stop"
  shows "copy_until buf starts stop at plain nx out =
    (if stop < p + l then (p + l, p + l, k - 1, out @ subslice buf plain p @ REPLACEMENT)
     else copy_until buf starts stop (p + l) (p + l) (k - 1) (out @ subslice buf plain p @ REPLACEMENT))"
  using assms by (subst copy_until.simps) (simp add: Let_def)

lemma copy_until_ok:
  assumes "copy_until buf starts stop at at nx out = (at', plain', nx', out')" "remaining ss buf starts nx at"
    "at \<le> stop" "stop \<le> length buf" "\<And>j. at \<le> j \<Longrightarrow> j < stop \<Longrightarrow> \<not> (hold \<and> open_at ss (drop j buf))"
  shows "remaining ss buf starts nx' at' \<and> stop \<le> at' \<and> at' \<le> length buf \<and> (stop < at' \<longrightarrow> plain' = at')
    \<and> (\<exists>o'. out' = out @ o' \<and> ref_at ss hold buf at
        = (o' @ subslice buf plain' at' @ fst (ref_at ss hold buf at'), (at' - at) + snd (ref_at ss hold buf at')))"
  using assms
proof (induction nx arbitrary: at out rule: less_induct)
  case (less nx)
  let ?k = "skip_starts starts at nx"
  have k: "?k \<le> nx" "nx \<le> length starts" using skip_starts_le less.prems(2) by (auto simp: remaining_def)
  have starts: "starts = rev (match_list ss buf (length buf))" using less.prems(2) by (simp add: remaining_def)
  note rem = skip_remaining [OF less.prems(2)]
  show ?case
  proof (cases "?k = 0 \<or> stop \<le> fst (starts ! (?k - 1))")
    case True
    have eq: "at' = stop" "plain' = at" "nx' = ?k" "out' = out"
      using less.prems(1) copy_until_stops [OF refl True, of buf at out] by (auto simp only: prod.inject)
    have none: "best ss (drop j buf) = 0" if j: "at \<le> j" "j < stop" for j
    proof (cases "?k = 0")
      case True
      then show ?thesis using matches_none [of at ss buf j] rem j less.prems(4) by simp
    next
      case False
      then obtain p l where pl: "starts ! (?k - 1) = (p, l)" "stop \<le> p" using True by (cases "starts ! (?k - 1)") auto
      then have "matches_from ss buf at = (p, l) # rev (take (?k - 1) starts)"
        using rem rev_take_step [of ?k starts] False k by simp
      then show ?thesis using first_match(5) j pl(2) by fastforce
    qed
    have "ref_at ss hold buf at = (subslice buf at stop @ fst (ref_at ss hold buf stop), (stop - at) + snd (ref_at ss hold buf stop))"
      by (rule ref_plain [OF less.prems(3,4)]) (use none less.prems(5) in auto)
    moreover have "remaining ss buf starts ?k stop"
      unfolding remaining_def rem using matches_from_later [OF less.prems(3)] k starts by simp
    ultimately show ?thesis using eq less.prems(4) by auto
  next
    case False
    then obtain p l where pl: "starts ! (?k - 1) = (p, l)" "p < stop" by (cases "starts ! (?k - 1)") auto
    have mf: "matches_from ss buf at = (p, l) # rev (take (?k - 1) starts)"
      using rem rev_take_step [of ?k starts] False k pl(1) by simp
    note fm = first_match [OF mf]
    let ?out = "out @ subslice buf at p @ REPLACEMENT"
    have ref: "ref_at ss hold buf at = ((subslice buf at p @ REPLACEMENT) @ fst (ref_at ss hold buf (p + l)),
        (p + l - at) + snd (ref_at ss hold buf (p + l)))"
      by (rule ref_to_match [OF mf]) (use less.prems(5) pl(2) in auto)
    have rem2: "remaining ss buf starts (?k - 1) (p + l)"
      unfolding remaining_def using fm(4) fm(6) [of "p + l"] k starts by simp
    have bound: "p + l \<le> length buf" using best_le [of ss "drop p buf"] fm(2,3) by simp
    have step: "copy_until buf starts stop at at nx out =
        (if stop < p + l then (p + l, p + l, ?k - 1, ?out) else copy_until buf starts stop (p + l) (p + l) (?k - 1) ?out)"
      using copy_until_steps [OF refl _ pl(1,2)] False by simp
    show ?thesis
    proof (cases "stop < p + l")
      case True
      then have "at' = p + l" "plain' = p + l" "nx' = ?k - 1" "out' = ?out" using step less.prems(1) by simp_all
      then show ?thesis using ref rem2 bound True by (auto simp: subslice_def)
    next
      case more: False
      have cu: "copy_until buf starts stop (p + l) (p + l) (?k - 1) ?out = (at', plain', nx', out')"
        using step less.prems(1) more by simp
      have lt: "?k - 1 < nx" using False k by linarith
      have "remaining ss buf starts nx' at' \<and> stop \<le> at' \<and> at' \<le> length buf \<and> (stop < at' \<longrightarrow> plain' = at')
        \<and> (\<exists>o'. out' = ?out @ o' \<and> ref_at ss hold buf (p + l)
          = (o' @ subslice buf plain' at' @ fst (ref_at ss hold buf at'), (at' - (p + l)) + snd (ref_at ss hold buf at')))"
        by (rule less.IH [OF lt cu rem2 _ less.prems(4)]) (use more less.prems(5) fm(1) in auto)
      then show ?thesis using ref fm(1) more by auto
    qed
  qed
qed

lemma copy_all_ok:
  assumes "forward_ok ss ws a" "remaining ss buf starts nx at" "at \<le> length buf"
    "hold \<Longrightarrow> \<exists>lo\<le>at. pending_ok ss ws buf lo h c" "\<not> hold \<Longrightarrow> h = None"
  shows "copy_all a buf starts at nx h c out
    = Some (out @ fst (ref_at ss hold buf at), at + snd (ref_at ss hold buf at))"
  using assms(2-5)
proof (induction "length buf - at" arbitrary: at nx h c out rule: less_induct)
  case less
  obtain h' c' where sk: "skip_held a (length buf) at h c = Some (h', c')" "hold \<Longrightarrow> pending_ok ss ws buf at h' c'"
      "\<not> hold \<Longrightarrow> h' = None" "\<And>q. h' = Some q \<Longrightarrow> at \<le> q"
  proof (cases hold)
    case True
    then show ?thesis using that skip_held_ok [OF assms(1)] less.prems(3) by blast
  next
    case False
    then have "skip_held a (length buf) at h c = Some (None, c)" using less.prems(4) by (subst skip_held.simps) simp
    then show ?thesis using that [of None c] False by simp
  qed
  let ?stop = "case h' of Some q \<Rightarrow> q | None \<Rightarrow> length buf"
  have stop: "at \<le> ?stop" "?stop \<le> length buf"
    using sk(2-4) less.prems(2) by (cases h'; cases hold; auto simp: pending_ok_def)+
  have closed: "\<not> (hold \<and> open_at ss (drop j buf))" if "at \<le> j" "j < ?stop" for j
    using sk(2) that by (cases h') (auto simp: pending_ok_def)
  have ends: "ref_at ss hold buf ?stop = ([], 0)"
    using sk(2,3) by (subst ref_scan.simps) (cases h'; auto simp: pending_ok_def)
  obtain at' plain nx' out' where cu: "copy_until buf starts ?stop at at nx out = (at', plain, nx', out')"
    by (cases "copy_until buf starts ?stop at at nx out") auto
  obtain o' where cu2: "remaining ss buf starts nx' at'" "?stop \<le> at'" "at' \<le> length buf" "?stop < at' \<longrightarrow> plain = at'"
      "out' = out @ o'" "ref_at ss hold buf at
        = (o' @ subslice buf plain at' @ fst (ref_at ss hold buf at'), (at' - at) + snd (ref_at ss hold buf at'))"
    using copy_until_ok [OF cu less.prems(1) stop closed] by blast
  show ?case
  proof (cases "at' = ?stop")
    case True
    have "copy_all a buf starts at nx h c out = Some (out' @ subslice buf plain at', at')"
      using sk(1) cu True by (subst copy_all.simps) (simp add: Let_def)
    then show ?thesis using cu2(5,6) ends True stop by simp
  next
    case False
    then have later: "?stop < at'" using cu2(2) by simp
    have "copy_all a buf starts at nx h c out = copy_all a buf starts at' nx' h' c' out'"
      using sk(1) cu False by (subst copy_all.simps) (simp add: Let_def)
    also have "\<dots> = Some (out' @ fst (ref_at ss hold buf at'), at' + snd (ref_at ss hold buf at'))"
      by (rule less.hyps [OF _ cu2(1,3)]) (use later stop sk(2,3) cu2(3) in \<open>auto intro: exI [of _ at]\<close>)
    finally show ?thesis using cu2(4-6) later stop by (simp add: subslice_def)
  qed
qed

subsection \<open>The redactor\<close>

definition matcher_ok :: "u8 list list \<Rightarrow> matcher \<Rightarrow> bool" where
  "matcher_ok ss m \<longleftrightarrow> (\<exists>ws. forward_ok ss ws (mt_forward m))
     \<and> (\<exists>ws. links_ok ws (rev ` set ss) (mt_reversed m) \<and> rev ` set ss \<subseteq> set ws)"

text \<open>
  The invariant of a redactor.  The bound keeps the node numbers of the automata within \<open>u32\<close>.
\<close>

definition redactor_ok :: "redactor \<Rightarrow> bool" where
  "redactor_ok r \<longleftrightarrow> (\<forall>s\<in>set (rd_secrets r). s \<noteq> [] \<and> length s \<le> rd_longest r)
     \<and> Suc (sum_list (map length (rd_secrets r))) \<le> 2 ^ 32
     \<and> length (rd_carry r) = 3
     \<and> (\<forall>m. rd_matcher r = Some m \<longrightarrow> matcher_ok (rd_secrets r) m)"

definition same_values :: "redactor \<Rightarrow> redactor \<Rightarrow> bool" where
  "same_values r r' \<longleftrightarrow> set (rd_secrets r') = set (rd_secrets r) \<and> rd_longest r' = rd_longest r \<and> rd_carry r' = rd_carry r"

lemma sum_remdups_adj: "sum_list (map length (remdups_adj xs)) \<le> sum_list (map length xs)"
  by (induction xs rule: remdups_adj.induct) auto

lemma sum_insort: "sum_list (map length (insort x xs)) = length x + sum_list (map length xs)" for x :: "u8 list"
  by (induction xs) auto

lemma sum_sort: "sum_list (map length (sort xs)) = sum_list (map length xs)" for xs :: "u8 list list"
  by (induction xs) (auto simp: sum_insort)

lemma the_matcher_ok:
  assumes "redactor_ok r"
  obtains m r' where "the_matcher r = Some (m, r')" "redactor_ok r'" "matcher_ok (rd_secrets r') m" "same_values r r'"
proof (cases "rd_matcher r")
  case None
  let ?ss = "remdups_adj (sort (rd_secrets r))"
  have bound: "Suc (sum_list (map length ?ss)) \<le> 2 ^ 32"
    using assms sum_remdups_adj [of "sort (rd_secrets r)"] by (simp add: redactor_ok_def sum_sort)
  then have "Suc (sum_list (map length (map rev ?ss))) \<le> 2 ^ 32" by (simp add: comp_def)
  then obtain wr ar where r: "build (map rev ?ss) = Some ar" "links_ok wr (rev ` set ?ss) ar" "rev ` set ?ss \<subseteq> set wr"
    by (rule build_ok) force
  obtain wf af where f: "build ?ss = Some af" "links_ok wf (set ?ss) af" "set wf = {[]} \<union> {p. \<exists>v\<in>set ?ss. prefix p v}"
    by (rule build_ok [OF bound]) blast
  have m: "matcher_ok ?ss \<lparr>mt_reversed = ar, mt_forward = af\<rparr>"
    using r(2,3) f(2,3) by (auto simp: matcher_ok_def forward_ok_def)
  show ?thesis
    by (rule that [of "\<lparr>mt_reversed = ar, mt_forward = af\<rparr>"
          "r\<lparr>rd_secrets := ?ss, rd_matcher := Some \<lparr>mt_reversed = ar, mt_forward = af\<rparr>\<rparr>"])
      (use None r(1) f(1) m assms bound in \<open>auto simp: the_matcher_def Let_def redactor_ok_def same_values_def\<close>)
next
  case (Some m)
  then show ?thesis using that [of m r] assms by (auto simp: the_matcher_def redactor_ok_def same_values_def)
qed

lemma chain_start:
  assumes "forward_ok ss ws a" "\<forall>s\<in>set ss. length s \<le> n"
  obtains c where "read_all a 0 (drop (length buf - n) buf) = Some c" "on_chain ws buf c" "chain_covers ss ws buf 0 c"
proof -
  have lk: "links_ok ws (set ss) a" using assms(1) by (simp add: forward_ok_def)
  have w: "words_ok ws" by (rule links_words [OF lk])
  let ?t = "drop (length buf - n) buf"
  obtain c where c: "read_all a 0 ?t = Some c" "c < length ws" "ws ! c = lsuf (set ws) ?t"
    using read_all_ok [OF lk reads_start [OF w], of ?t] by (auto simp: reads_def)
  have "on_chain ws buf c"
    using c(2) suffix_order.trans [OF lsuf_suffix suffix_drop] by (auto simp: on_chain_def c(3))
  moreover have "length buf - length (ws ! c) \<le> q" if q: "q < length buf" "open_at ss (drop q buf)" for q
  proof -
    obtain s where "s \<in> set ss" "length (drop q buf) < length s" using q(2) by (auto simp: open_at_def list_ex_iff)
    then have "length buf - n \<le> q" using assms(2) q(1) by fastforce
    then have "suffix (drop q buf) ?t" by (metis drop_drop le_add_diff_inverse2 suffix_drop)
    then have "suffix (drop q buf) (ws ! c)" unfolding c(3) by (rule lsuf_longest [OF _ open_word [OF assms(1) q(2)]])
    then have "length buf - q \<le> length (ws ! c)" using suffix_length_le by fastforce
    then show ?thesis by simp
  qed
  ultimately show ?thesis using that c(1) by (auto simp: chain_covers_def)
qed

lemma ref_scan_cong: "set ss = set ss' \<Longrightarrow> ref_scan ss hold w = ref_scan ss' hold w"
proof (induction ss hold w rule: ref_scan.induct)
  case (1 ss hold w)
  have b: "best ss w = best ss' w" by (rule best_cong [OF 1(3)])
  have o: "open_at ss w = open_at ss' w" using 1(3) by (simp add: open_at_def list_ex_iff)
  show ?case
    by (subst (1 2) ref_scan.simps) (use 1(1,2,3) b o in \<open>auto simp: case_prod_beta Let_def\<close>)
qed

lemma hold_start:
  assumes "forward_ok ss ws a" "\<forall>s\<in>set ss. length s \<le> n"
  obtains c0 h c where "(if hold then read_all a 0 (drop (length buf - n) buf) else Some 0) = Some c0"
    "candidate a (length buf) c0 = Some (h, c)" "hold \<longrightarrow> pending_ok ss ws buf 0 h c" "\<not> hold \<longrightarrow> h = None"
proof (cases hold)
  case True
  obtain c0 where "read_all a 0 (drop (length buf - n) buf) = Some c0" "on_chain ws buf c0" "chain_covers ss ws buf 0 c0"
    by (rule chain_start [OF assms])
  then show ?thesis using that candidate_ok [OF assms(1)] True by metis
next
  case False
  then show ?thesis using that [of 0 None 0] candidate_zero by simp
qed

lemma scan_ok:
  assumes "redactor_ok r" "length buf \<le> 2 ^ 32"
  obtains r' where "scan r buf hold = Some (ref_scan (rd_secrets r) hold buf, r')" "redactor_ok r'" "same_values r r'"
proof -
  obtain m r' where m: "the_matcher r = Some (m, r')" "redactor_ok r'" "matcher_ok (rd_secrets r') m" "same_values r r'"
    by (rule the_matcher_ok [OF assms(1)])
  let ?ss = "rd_secrets r'"
  let ?starts = "rev (match_list ?ss buf (length buf))"
  obtain wf where f: "forward_ok ?ss wf (mt_forward m)" using m(3) by (auto simp: matcher_ok_def)
  obtain wr where w: "links_ok wr (rev ` set ?ss) (mt_reversed m)" "rev ` set ?ss \<subseteq> set wr"
    using m(3) by (auto simp: matcher_ok_def)
  have starts: "mark_starts (mt_reversed m) buf (length buf) 0 [] = Some ?starts"
    using mark_starts_ok [OF w assms(2) order.refl, of 0 "[]"] reads_start [OF links_words [OF w(1)]] by simp
  have len: "\<forall>s\<in>set ?ss. length s \<le> rd_longest r" using m(2,4) by (auto simp: redactor_ok_def same_values_def)
  obtain c0 h c where c: "(if hold then read_all (mt_forward m) 0 (drop (length buf - rd_longest r) buf) else Some 0) = Some c0"
      "candidate (mt_forward m) (length buf) c0 = Some (h, c)" "hold \<longrightarrow> pending_ok ?ss wf buf 0 h c" "\<not> hold \<longrightarrow> h = None"
    by (rule hold_start [OF f len, where buf = buf and hold = hold])
  have "remaining ?ss buf ?starts (length ?starts) 0" by (simp add: remaining_def)
  then have "copy_all (mt_forward m) buf ?starts 0 (length ?starts) h c [] = Some (ref_scan ?ss hold buf)"
    using copy_all_ok [OF f, of buf ?starts "length ?starts" 0 hold h c "[]"] c(3,4) by auto
  moreover have "ref_scan ?ss hold buf = ref_scan (rd_secrets r) hold buf"
    by (rule ref_scan_cong) (use m(4) in \<open>simp add: same_values_def\<close>)
  ultimately have "scan r buf hold = Some (ref_scan (rd_secrets r) hold buf, r'\<lparr>rd_starts := ?starts\<rparr>)"
    unfolding scan_def Let_def m(1) using starts c(1,2) by (simp only: bind.bind_lunit prod.case) (simp add: case_prod_beta)
  then show ?thesis by (rule that) (use m(2,4) in \<open>auto simp: redactor_ok_def same_values_def\<close>)
qed

subsection \<open>Reading in chunks\<close>

lemma best_append:
  assumes "\<not> open_at ss w"
  shows "best ss (w @ rest) = best ss w"
proof (rule antisym)
  show "best ss w \<le> best ss (w @ rest)"
    using best_attained [of ss w] best_upper [of _ ss "w @ rest"]
    by (cases "best ss w = 0") (auto, metis prefix_prefix)
  show "best ss (w @ rest) \<le> best ss w"
  proof (cases "best ss (w @ rest) = 0")
    case False
    then obtain s where s: "s \<in> set ss" "prefix s (w @ rest)" "length s = best ss (w @ rest)"
      using best_attained by blast
    have "length s \<le> length w"
    proof (rule ccontr)
      assume "\<not> length s \<le> length w"
      moreover from this have "prefix w s" using s(2) prefix_length_prefix [of w "w @ rest" s] by simp
      ultimately show False using assms s(1) by (auto simp: open_at_def list_ex_iff)
    qed
    then have "prefix s w" using s(2) prefix_length_prefix [of s "w @ rest" w] by simp
    then show ?thesis using best_upper [OF s(1)] s(3) by fastforce
  qed simp
qed

lemma open_append: "open_at ss (w @ rest) \<Longrightarrow> open_at ss w"
  by (auto simp: open_at_def list_ex_iff) (metis add_lessD1 append_prefixD)

lemma ref_scan_le: "snd (ref_scan ss hold w) \<le> length w"
proof (induction ss hold w rule: ref_scan.induct)
  case (1 ss hold w)
  show ?case
    by (subst ref_scan.simps) (use 1 best_le [of ss w] in \<open>cases w; auto simp: case_prod_beta Let_def\<close>)
qed

text \<open>What the scan leaves is empty or open.\<close>

lemma ref_scan_rest:
  "drop (snd (ref_scan ss hold w)) w = [] \<or> hold \<and> open_at ss (drop (snd (ref_scan ss hold w)) w)"
proof (induction ss hold w rule: ref_scan.induct)
  case (1 ss hold w)
  show ?case
    by (subst (1 2) ref_scan.simps) (use 1 in \<open>cases w; auto simp: case_prod_beta Let_def add.commute\<close>)
qed

text \<open>A scan can be resumed with what comes later.\<close>

lemma ref_scan_append:
  "ref_scan ss True (w @ rest) =
     (let (out, n) = ref_scan ss True w; (out', n') = ref_scan ss True (drop n w @ rest) in (out @ out', n + n'))"
proof (induction "length w" arbitrary: w rule: less_induct)
  case less
  show ?case
  proof (cases "w = [] \<or> open_at ss w")
    case True
    then have "ref_scan ss True w = ([], 0)" by (subst ref_scan.simps) auto
    then show ?thesis by (simp add: case_prod_beta Let_def)
  next
    case False
    then have no: "\<not> open_at ss (w @ rest)" using open_append by blast
    have b: "best ss (w @ rest) = best ss w" by (rule best_append) (use False in simp)
    show ?thesis
    proof (cases "best ss w = 0")
      case True
      then show ?thesis
        using less [of "tl w"] False no b ref_scan.simps [of ss True w] ref_scan.simps [of ss True "w @ rest"]
        by (cases w) (auto simp: case_prod_beta Let_def)
    next
      case longer: False
      let ?v = "drop (best ss w) w"
      have v: "drop (best ss w) (w @ rest) = ?v @ rest" using best_le [of ss w] by simp
      have "length ?v < length w" using longer False by simp
      then show ?thesis
        using less [of ?v] False no b longer v ref_scan.simps [of ss True w] ref_scan.simps [of ss True "w @ rest"]
        by (auto simp: case_prod_beta Let_def add.commute)
    qed
  qed
qed

lemma ref_scan_none: "ref_scan [] hold w = (w, length w)"
  by (induction w) (subst ref_scan.simps; simp add: best_Nil open_at_def)+

text \<open>The bytes held back for a stream are empty or the beginning of a longer value.\<close>

definition carry_ok :: "redactor \<Rightarrow> bool" where
  "carry_ok r \<longleftrightarrow> (\<forall>s. carry_of r s = [] \<or> open_at (rd_secrets r) (carry_of r s))"

lemma stream_code_bound [simp]: "unat (stream_code s) < 3"
  by (cases s) (simp_all add: stream_code_def)

lemma stream_code_inj [simp]: "unat (stream_code s) = unat (stream_code s') \<longleftrightarrow> s = s'"
  by (cases s; cases s') (simp_all add: stream_code_def)

lemma carry_of_set [simp]:
  "length (rd_carry r) = 3 \<Longrightarrow> carry_of (set_carry r s bs) s' = (if s' = s then bs else carry_of r s')"
  by (auto simp: carry_of_def set_carry_def nth_list_update)

lemma set_carry_ok [simp]: "redactor_ok (set_carry r s bs) \<longleftrightarrow> redactor_ok r"
  by (simp add: redactor_ok_def set_carry_def)

lemma set_carry_values [simp]: "rd_secrets (set_carry r s bs) = rd_secrets r" "rd_longest (set_carry r s bs) = rd_longest r"
  by (simp_all add: set_carry_def)

lemma carry_short:
  assumes "redactor_ok r" "carry_ok r"
  shows "length (carry_of r s) \<le> rd_longest r"
  using assms unfolding redactor_ok_def carry_ok_def open_at_def list_ex_iff by (metis le_trans less_imp_le list.size(3) zero_le)

lemma open_at_cong: "set ss = set ss' \<Longrightarrow> open_at ss w = open_at ss' w"
  by (simp add: open_at_def list_ex_iff)

text \<open>What a call of \<open>apply\<close> does to every stream.\<close>

definition applies :: "redactor \<Rightarrow> stream \<Rightarrow> u8 list \<Rightarrow> u8 list \<Rightarrow> redactor \<Rightarrow> bool" where
  "applies r s chunk out r' \<longleftrightarrow> redactor_ok r' \<and> carry_ok r' \<and> set (rd_secrets r') = set (rd_secrets r)
     \<and> rd_longest r' = rd_longest r
     \<and> out = fst (ref_scan (rd_secrets r) True (carry_of r s @ chunk))
     \<and> carry_of r' s = drop (snd (ref_scan (rd_secrets r) True (carry_of r s @ chunk))) (carry_of r s @ chunk)
     \<and> (\<forall>s'. s' \<noteq> s \<longrightarrow> carry_of r' s' = carry_of r s')"

lemma apply_ok:
  assumes "redactor_ok r" "carry_ok r" "rd_longest r + length chunk \<le> 2 ^ 32"
  obtains out r' where "redact_apply r s chunk = Some (out, r')" "applies r s chunk out r'"
proof (cases "rd_secrets r = []")
  case True
  then have "carry_of r s' = []" for s' using assms(2) by (auto simp: carry_ok_def open_at_def)
  then show ?thesis
    using that [of chunk r] True assms(1,2) by (auto simp: redact_apply_def applies_def ref_scan_none)
next
  case False
  let ?buf = "carry_of r s @ chunk"
  let ?res = "ref_scan (rd_secrets r) True ?buf"
  have "length ?buf \<le> 2 ^ 32" using carry_short [OF assms(1,2), of s] assms(3) by simp
  then obtain r1 where r1: "scan (set_carry r s []) ?buf True = Some (?res, r1)" "redactor_ok r1" "same_values (set_carry r s []) r1"
    using scan_ok [of "set_carry r s []" ?buf True] assms(1) by auto
  let ?r2 = "set_carry r1 s (drop (snd ?res) ?buf)"
  have three: "length (rd_carry r1) = 3" "length (rd_carry r) = 3" using r1(2) assms(1) by (auto simp: redactor_ok_def)
  have secrets: "set (rd_secrets ?r2) = set (rd_secrets r)" using r1(3) by (simp add: same_values_def)
  have "carry_of r1 s' = carry_of (set_carry r s []) s'" for s' using r1(3) by (simp add: same_values_def carry_of_def)
  then have carry: "carry_of ?r2 s' = (if s' = s then drop (snd ?res) ?buf else carry_of r s')" for s' using three by simp
  have "carry_ok ?r2"
    unfolding carry_ok_def open_at_cong [OF secrets] carry using ref_scan_rest [of "rd_secrets r" True ?buf] assms(2)
    by (simp add: carry_ok_def)
  then have "applies r s chunk (fst ?res) ?r2"
    using r1(2,3) secrets carry by (simp add: applies_def same_values_def)
  moreover have "redact_apply r s chunk = Some (fst ?res, ?r2)"
    using False r1(1) by (simp add: redact_apply_def Let_def case_prod_beta)
  ultimately show ?thesis using that by blast
qed

text \<open>A sequence of chunks, in the order they were read from the two pipes.\<close>

fun redact_events :: "redactor \<Rightarrow> (stream \<times> u8 list) list \<Rightarrow> ((stream \<times> u8 list) list \<times> redactor) option" where
  "redact_events r [] = Some ([], r)"
| "redact_events r ((s, chunk) # es) =
     Option.bind (redact_apply r s chunk) (\<lambda>(out, r).
     Option.bind (redact_events r es) (\<lambda>(outs, r). Some ((s, out) # outs, r)))"

definition bytes_of :: "stream \<Rightarrow> (stream \<times> u8 list) list \<Rightarrow> u8 list" where
  "bytes_of s es = concat (map snd (filter (\<lambda>e. fst e = s) es))"

lemma bytes_of_simps [simp]:
  "bytes_of s [] = []" "bytes_of s ((s', c) # es) = (if s' = s then c else []) @ bytes_of s es"
  by (simp_all add: bytes_of_def)

lemma drop_add_append: "k \<le> length w \<Longrightarrow> drop (k + n) (w @ u) = drop n (drop k w @ u)"
  by (metis add.commute append_eq_append_conv_if drop_append drop_drop diff_is_0_eq drop0)

lemma redact_events_ok:
  assumes "redactor_ok r" "carry_ok r" "\<forall>e\<in>set es. rd_longest r + length (snd e) \<le> 2 ^ 32"
  shows "\<exists>outs r'. redact_events r es = Some (outs, r') \<and> redactor_ok r' \<and> carry_ok r' \<and> set (rd_secrets r') = set (rd_secrets r)
    \<and> (\<forall>s. (bytes_of s outs, carry_of r' s) = (let (out, n) = ref_scan (rd_secrets r) True (carry_of r s @ bytes_of s es)
          in (out, drop n (carry_of r s @ bytes_of s es))))"
  using assms
proof (induction es arbitrary: r)
  case Nil
  have "(fst (ref_scan (rd_secrets r) True (carry_of r s)), snd (ref_scan (rd_secrets r) True (carry_of r s))) = ([], 0)" for s
    using Nil(2) by (subst (1 2) ref_scan.simps) (auto simp: carry_ok_def)
  then show ?case using Nil by (auto simp: case_prod_beta)
next
  case (Cons e es)
  obtain s c where e: "e = (s, c)" by (cases e)
  have "rd_longest r + length c \<le> 2 ^ 32" using Cons.prems(3) e by simp
  then obtain out r1 where r1: "redact_apply r s c = Some (out, r1)" "applies r s c out r1"
    by (rule apply_ok [OF Cons.prems(1,2)])
  have ap: "redactor_ok r1" "carry_ok r1" "rd_longest r1 = rd_longest r" "set (rd_secrets r1) = set (rd_secrets r)"
    using r1(2) by (simp_all add: applies_def)
  obtain outs r' where r': "redact_events r1 es = Some (outs, r')" "redactor_ok r'" "carry_ok r'" "set (rd_secrets r') = set (rd_secrets r1)"
      "\<And>s. (bytes_of s outs, carry_of r' s) = (let (out, n) = ref_scan (rd_secrets r1) True (carry_of r1 s @ bytes_of s es)
          in (out, drop n (carry_of r1 s @ bytes_of s es)))"
    using Cons.IH [OF ap(1,2)] Cons.prems(3) ap(3) by auto
  have "(bytes_of s' ((s, out) # outs), carry_of r' s') = (let (out, n) = ref_scan (rd_secrets r) True (carry_of r s' @ bytes_of s' (e # es))
          in (out, drop n (carry_of r s' @ bytes_of s' (e # es))))" for s'
  proof (cases "s' = s")
    case True
    let ?w = "carry_of r s @ c"
    have "drop (snd (ref_scan (rd_secrets r) True ?w) + n) (?w @ bytes_of s es)
        = drop n (drop (snd (ref_scan (rd_secrets r) True ?w)) ?w @ bytes_of s es)" for n
      by (rule drop_add_append [OF ref_scan_le])
    then show ?thesis
      using r'(5) [of s] ref_scan_append [of "rd_secrets r" ?w "bytes_of s es"] r1(2) True e
        ref_scan_cong [OF ap(4), of True "carry_of r1 s @ bytes_of s es"]
      by (simp add: applies_def case_prod_beta Let_def)
  next
    case False
    then show ?thesis
      using r'(5) [of s'] r1(2) e ref_scan_cong [OF ap(4), of True "carry_of r1 s' @ bytes_of s' es"]
      by (simp add: applies_def)
  qed
  then show ?case using r1(1) r'(1-4) ap(4) e by auto
qed

subsection \<open>No value is left\<close>

lemma ref_scan_plain: "42 \<notin> set p \<Longrightarrow> prefix p (fst (ref_scan ss hold w)) \<Longrightarrow> prefix p w"
proof (induction ss hold w arbitrary: p rule: ref_scan.induct)
  case (1 ss hold w)
  show ?case
    using 1(4) by (subst (asm) ref_scan.simps)
      (use 1(1-3) in \<open>cases w; cases p; auto simp: case_prod_beta Let_def REPLACEMENT_def split: if_splits\<close>)
qed

lemma ref_scan_clean:
  assumes "v \<in> set ss" "v \<noteq> []" "42 \<notin> set v"
  shows "\<not> sublist v (fst (ref_scan ss hold w))"
  using assms
proof (induction ss hold w rule: ref_scan.induct)
  case (1 ss hold w)
  have best: "best ss w \<noteq> 0" if "prefix v (fst (ref_scan ss hold w))"
    using best_upper [OF 1(3) ref_scan_plain [OF 1(5) that]] 1(4) by (cases v) auto
  have star: "sublist v (42 # out) \<longleftrightarrow> sublist v out" for out
    using 1(4,5) by (cases v) (auto simp: sublist_Cons_right)
  show ?case
  proof (cases "w = [] \<or> hold \<and> open_at ss w")
    case True
    then have "ref_scan ss hold w = ([], 0)" by (subst ref_scan.simps) auto
    then show ?thesis using 1(4) by simp
  next
    case go: False
    show ?thesis
    proof (cases "best ss w = 0")
      case True
      then have "fst (ref_scan ss hold w) = hd w # fst (ref_scan ss hold (tl w))"
        using go by (subst ref_scan.simps) (auto simp: case_prod_beta Let_def)
      then show ?thesis using best True 1(1) [OF go True 1(3-5)] by (auto simp: sublist_Cons_right)
    next
      case False
      then have "fst (ref_scan ss hold w) = 42 # 42 # 42 # fst (ref_scan ss hold (drop (best ss w) w))"
        using go by (subst ref_scan.simps) (auto simp: case_prod_beta Let_def REPLACEMENT_def)
      then show ?thesis using 1(2) [OF go False 1(3-5)] by (simp add: star)
    qed
  qed
qed

lemma redact_all_ok:
  assumes "redactor_ok r" "length bytes \<le> 2 ^ 32"
  shows "map_option fst (redact_all r bytes) = Some (ref_all (rd_secrets r) bytes)"
proof (cases "rd_secrets r = []")
  case True
  then show ?thesis by (simp add: redact_all_def ref_all_def ref_scan_none)
next
  case False
  let ?res = "ref_scan (rd_secrets r) False bytes"
  obtain r' where "scan r bytes False = Some (?res, r')" by (rule scan_ok [OF assms, of False])
  then show ?thesis
    using False ref_scan_rest [of "rd_secrets r" False bytes] by (simp add: redact_all_def ref_all_def case_prod_beta)
qed

end
