(* ===== verification/Redact_Values.thy ===== *)
theory Redact_Values
  imports Redact_Scan
begin

text \<open>
  What \<open>Redactor::register\<close> of \<open>crates/sentinel-worker/src/redact.rs\<close> adds for a value: the value, its JSON
  escapings, its lines, its base64 fragments at the three alignments and its percent encodings.  The
  closures that receive a form one by one are lists of the forms in the order of the calls.

  The lemmas show that every form decodes to the value, that a base64 text with the value inside it
  contains a registered fragment, and that the invariant of the redactor is kept.  The properties of
  redaction are at the end: over any sequence of registrations, reads and flushes.  \<open>op_room\<close> bounds what
  a registration adds to the automata; with \<open>ops_fit\<close> the node numbers and buffer positions stay within \<open>u32\<close>.
\<close>

unbundle bit_operations_syntax

definition MAX_ENCODED_SOURCE_BYTES :: nat where "MAX_ENCODED_SOURCE_BYTES = 16 * 1024"
definition MIN_FRAGMENT_BYTES :: nat where "MIN_FRAGMENT_BYTES = 8"

definition ascii :: "string \<Rightarrow> u8 list" where
  "ascii s = map (\<lambda>c. word_of_nat (of_char c)) s"

definition u8_digit :: "u8 \<Rightarrow> bool" where "u8_digit b \<longleftrightarrow> 48 \<le> b \<and> b \<le> 57"
definition u8_alphabetic :: "u8 \<Rightarrow> bool" where
  "u8_alphabetic b \<longleftrightarrow> 65 \<le> b \<and> b \<le> 90 \<or> 97 \<le> b \<and> b \<le> 122"
definition u8_punctuation :: "u8 \<Rightarrow> bool" where
  "u8_punctuation b \<longleftrightarrow>
     33 \<le> b \<and> b \<le> 47 \<or> 58 \<le> b \<and> b \<le> 64 \<or> 91 \<le> b \<and> b \<le> 96 \<or> 123 \<le> b \<and> b \<le> 126"
definition u8_whitespace :: "u8 \<Rightarrow> bool" where
  "u8_whitespace b \<longleftrightarrow> b \<in> {9, 10, 12, 13, 32}"

definition carries_material :: "u8 list \<Rightarrow> bool" where
  "carries_material line \<longleftrightarrow> list_ex (\<lambda>byte. \<not> (u8_punctuation byte \<or> u8_whitespace byte)) line"

subsection \<open>Base64\<close>

definition STD :: "u8 list" where
  "STD = ascii ''ABCDEFGHIJKLMNOPQRSTUVWXYZabcdefghijklmnopqrstuvwxyz0123456789+/''"
definition URL :: "u8 list" where
  "URL = ascii ''ABCDEFGHIJKLMNOPQRSTUVWXYZabcdefghijklmnopqrstuvwxyz0123456789-_''"

text \<open>The loop over \<open>input.chunks(3)\<close>.\<close>

definition encode_group :: "u8 list \<Rightarrow> u8 list \<Rightarrow> u8 list" where
  "encode_group table grp =
     (let n = push_bit (8 * (3 - length grp)) (fold (\<lambda>b acc. push_bit 8 acc OR ucast b) grp (0 :: u32))
      in map (\<lambda>i. table ! unat (drop_bit (18 - 6 * i) n AND 63)) [0..<Suc (length grp)])"

fun encode_groups :: "u8 list \<Rightarrow> u8 list \<Rightarrow> u8 list" where
  "encode_groups table [] = []"
| "encode_groups table (b # bs) = encode_group table (take 3 (b # bs)) @ encode_groups table (drop 2 bs)"

definition trims :: "nat \<Rightarrow> bool \<Rightarrow> nat list" where
  "trims shift complete =
     (if shift = 0 \<and> \<not> complete then [0, 1] else if complete then [0] else [1])"

definition lead :: "nat \<Rightarrow> nat" where
  "lead shift = [0, 2, 3] ! shift"

definition fragments_at :: "bool \<Rightarrow> u8 list \<Rightarrow> nat \<Rightarrow> u8 list \<Rightarrow> u8 list list" where
  "fragments_at url table shift value =
     (let encoded = encode_groups table (replicate shift 0 @ value);
          complete = ((shift + length value) mod 3 = 0)
      in concat (map (\<lambda>trim.
           let e = length encoded - trim;
               fragment = subslice encoded (min (lead shift) e) e;
               distinct = (\<not> url \<or> list_ex (\<lambda>b. b \<in> {45, 95}) fragment);
               standalone = (shift = 0 \<and> trim = 0)
           in if distinct \<and> (standalone \<or> MIN_FRAGMENT_BYTES \<le> length fragment) then [fragment] else [])
         (trims shift complete)))"

definition base64_fragments :: "u8 list \<Rightarrow> u8 list list" where
  "base64_fragments value =
     concat (map (\<lambda>(url, table). concat (map (\<lambda>shift. fragments_at url table shift value) [0, 1, 2]))
       [(False, STD), (True, URL)])"

subsection \<open>Percent encoding\<close>

definition unreserved :: "u8 \<Rightarrow> bool" where
  "unreserved b \<longleftrightarrow> u8_alphabetic b \<or> u8_digit b \<or> b \<in> {45, 46, 95, 126}"

definition HEX_UPPER :: "u8 list" where "HEX_UPPER = ascii ''0123456789ABCDEF''"
definition HEX :: "u8 list" where "HEX = ascii ''0123456789abcdef''"

fun percent_form :: "u8 list \<Rightarrow> bool \<Rightarrow> u8 list \<Rightarrow> u8 list" where
  "percent_form hex form [] = []"
| "percent_form hex form (byte # rest) =
     (if unreserved byte then [byte]
      else if form \<and> byte = 32 then [43]
      else [37, hex ! unat (drop_bit 4 byte), hex ! unat (byte AND 15)]) @ percent_form hex form rest"

definition percent_encodings :: "u8 list \<Rightarrow> u8 list list" where
  "percent_encodings value =
     (if list_all unreserved value then []
      else map (\<lambda>(hex, form). percent_form hex form value)
             [(HEX_UPPER, False), (HEX, False), (HEX_UPPER, True)])"

subsection \<open>JSON escapings\<close>

text \<open>The UTF-8 encodings of U+2028 and U+2029 are \<open>e2 80 a8\<close> and \<open>e2 80 a9\<close>.\<close>

definition separator_tail :: "u8 list \<Rightarrow> bool" where
  "separator_tail rest \<longleftrightarrow> 2 \<le> length rest \<and> rest ! 0 = 0x80 \<and> (rest ! 1 = 0xa8 \<or> rest ! 1 = 0xa9)"

fun json_needs :: "u8 list \<Rightarrow> bool" where
  "json_needs [] = False"
| "json_needs (byte # rest) \<longleftrightarrow>
     byte \<in> {34, 92, 60, 62, 38} \<or> byte \<le> 0x1f \<or> byte = 0xe2 \<and> separator_tail rest \<or> json_needs rest"

definition json_u00 :: "u8 \<Rightarrow> u8 list" where
  "json_u00 byte = [92, 117, 48, 48, HEX ! unat (drop_bit 4 byte), HEX ! unat (byte AND 15)]"

fun json_escape :: "bool \<Rightarrow> bool \<Rightarrow> u8 list \<Rightarrow> u8 list" where
  "json_escape short html [] = []"
| "json_escape short html (byte # rest) =
     (if byte = 34 then [92, 34] @ json_escape short html rest
      else if byte = 92 then [92, 92] @ json_escape short html rest
      else if byte = 10 then [92, 110] @ json_escape short html rest
      else if byte = 13 then [92, 114] @ json_escape short html rest
      else if byte = 9 then [92, 116] @ json_escape short html rest
      else if byte = 8 \<and> short then [92, 98] @ json_escape short html rest
      else if byte = 12 \<and> short then [92, 102] @ json_escape short html rest
      else if byte \<in> {60, 62, 38} \<and> html then json_u00 byte @ json_escape short html rest
      else if byte \<le> 0x1f then json_u00 byte @ json_escape short html rest
      else if byte = 0xe2 \<and> html \<and> separator_tail rest
      then (if rest ! 1 = 0xa8 then [92, 117, 50, 48, 50, 56] else [92, 117, 50, 48, 50, 57])
             @ json_escape short html (drop 2 rest)
      else byte # json_escape short html rest)"

definition json_escapings :: "u8 list \<Rightarrow> u8 list list" where
  "json_escapings value =
     (if \<not> json_needs value then []
      else fold (\<lambda>(short, html) seen.
             let out = json_escape short html value
             in if out \<noteq> value \<and> out \<notin> set seen then seen @ [out] else seen)
           [(True, False), (False, False), (True, True), (False, True)] [])"

subsection \<open>Registration\<close>

definition strip_cr :: "u8 list \<Rightarrow> u8 list" where
  "strip_cr line = (if line \<noteq> [] \<and> last line = 13 then butlast line else line)"

definition line_forms :: "u8 list \<Rightarrow> u8 list list" where
  "line_forms line =
     (let line = strip_cr line in if carries_material line then line # json_escapings line else [])"

definition register_exact :: "redactor \<Rightarrow> u8 list \<Rightarrow> redactor" where
  "register_exact r secret =
     (if secret = [] then r
      else
        let r = rd_insert r secret;
            r = foldl rd_insert r (json_escapings secret);
            r = (if 10 \<in> set secret
                 then foldl (\<lambda>r line. foldl rd_insert r (line_forms line)) r (split_on 10 secret)
                 else r)
        in r\<lparr>rd_matcher := None\<rparr>)"

definition register :: "redactor \<Rightarrow> u8 list \<Rightarrow> bool \<times> redactor" where
  "register r secret =
     (if length secret < MIN_SECRET_BYTES then (False, r)
      else if secret \<in> set (rd_secrets r) then (True, r)
      else
        let r = register_exact r secret;
            r = (if length secret \<le> MAX_ENCODED_SOURCE_BYTES
                 then foldl rd_insert (foldl rd_insert r (base64_fragments secret)) (percent_encodings secret)
                 else r)
        in (True, r))"

subsection \<open>Every character of base64 depends on at most two bytes\<close>



























subsection \<open>The decoders\<close>

text \<open>
  What a reader of an encoded text does: percent decoding, with \<open>+\<close> for a space in a form, and the body
  of a JSON string, where a quote or a control character must be escaped.
\<close>

definition unhex :: "u8 \<Rightarrow> u8 option" where
  "unhex c = (if 48 \<le> c \<and> c \<le> 57 then Some (c - 48)
     else if 65 \<le> c \<and> c \<le> 70 then Some (c - 55)
     else if 97 \<le> c \<and> c \<le> 102 then Some (c - 87) else None)"

definition unhex2 :: "u8 \<Rightarrow> u8 \<Rightarrow> u8 option" where
  "unhex2 h l = Option.bind (unhex h) (\<lambda>h. map_option (\<lambda>l. push_bit 4 h OR l) (unhex l))"

fun percent_decode :: "bool \<Rightarrow> u8 list \<Rightarrow> u8 list option" where
  "percent_decode form [] = Some []"
| "percent_decode form (b # rest) =
     (if b = 37
      then (case rest of
              h # l # rest \<Rightarrow> Option.bind (unhex2 h l) (\<lambda>b. map_option ((#) b) (percent_decode form rest))
            | _ \<Rightarrow> None)
      else map_option ((#) (if form \<and> b = 43 then 32 else b)) (percent_decode form rest))"




lemma hex_tables: "list_all (\<lambda>i. unhex (HEX_UPPER ! i) = Some (word_of_nat i) \<and> unhex (HEX ! i) = Some (word_of_nat i)) [0..<16]"
  by code_simp

lemma nibbles: "unat (drop_bit 4 b) < 16" "unat (b AND 15) < 16" "push_bit 4 (drop_bit 4 b) OR (b AND 15) = b" for b :: u8
proof -
  have "unat b < 256" using unsigned_less [of b, where 'a = nat] by simp
  then show "unat (drop_bit 4 b) < 16" by (simp add: unat_div drop_bit_eq_div)
  have low: "b AND 15 = take_bit 4 b" by (simp add: take_bit_eq_mask mask_eq_exp_minus_1)
  have "take_bit 4 (unat b) < (2 :: nat) ^ 4" by (rule take_bit_nat_less_exp)
  then show "unat (b AND 15) < 16" unfolding low by (simp add: unsigned_take_bit_eq)
  show "push_bit 4 (drop_bit 4 b) OR (b AND 15) = b"
    unfolding low by (rule bit_eqI) (auto simp: bit_simps)
qed

lemma hex_digits:
  "unhex2 (HEX_UPPER ! unat (drop_bit 4 b)) (HEX_UPPER ! unat (b AND 15)) = Some b"
  "unhex2 (HEX ! unat (drop_bit 4 b)) (HEX ! unat (b AND 15)) = Some b"
  using hex_tables nibbles [of b] by (auto simp: unhex2_def list_all_iff)

lemma unreserved_plain: "unreserved b \<Longrightarrow> b \<noteq> 37 \<and> b \<noteq> 43"
  by (auto simp: unreserved_def u8_alphabetic_def u8_digit_def)

lemma percent_form_decode:
  assumes "hex = HEX_UPPER \<or> hex = HEX"
  shows "percent_decode form (percent_form hex form v) = Some v"
proof (induction v)
  case (Cons b v)
  have hex: "unhex2 (hex ! unat (drop_bit 4 b)) (hex ! unat (b AND 15)) = Some b" using assms hex_digits by blast
  consider "unreserved b" | "\<not> unreserved b" "form \<and> b = 32" | "\<not> unreserved b" "\<not> (form \<and> b = 32)" by blast
  then show ?case
  proof cases
    case 1
    then show ?thesis using Cons.IH unreserved_plain [OF 1] by simp
  next
    case 2
    then show ?thesis using Cons.IH by simp
  next
    case 3
    then show ?thesis using Cons.IH hex by (simp only: percent_form.simps if_False append.simps percent_decode.simps list.case) simp
  qed
qed simp

lemma percent_encodings_decode:
  "map2 percent_decode [False, False, True] (percent_encodings v)
     = replicate (length (percent_encodings v)) (Some v)"
  by (simp add: percent_encodings_def percent_form_decode numeral_3_eq_3)














subsection \<open>What registration keeps\<close>

definition exact_forms :: "u8 list \<Rightarrow> u8 list list" where
  "exact_forms v = v # json_escapings v @ (if 10 \<in> set v then concat (map line_forms (split_on 10 v)) else [])"

definition encoded_forms :: "u8 list \<Rightarrow> u8 list list" where
  "encoded_forms v = (if length v \<le> MAX_ENCODED_SOURCE_BYTES then base64_fragments v @ percent_encodings v else [])"

lemma foldl_lines: "foldl (\<lambda>r line. foldl rd_insert r (line_forms line)) r ls = foldl rd_insert r (concat (map line_forms ls))"
  by (induction ls arbitrary: r) simp_all

lemma insert_forget: "rd_insert (r\<lparr>rd_matcher := None\<rparr>) v = (rd_insert r v)\<lparr>rd_matcher := None\<rparr>"
  by (simp add: rd_insert_def)

lemma inserts_forget: "foldl rd_insert (r\<lparr>rd_matcher := None\<rparr>) vs = (foldl rd_insert r vs)\<lparr>rd_matcher := None\<rparr>"
  by (induction vs arbitrary: r) (simp_all add: insert_forget)

lemma register_fresh:
  assumes "MIN_SECRET_BYTES \<le> length v" "v \<notin> set (rd_secrets r)"
  shows "register r v = (True, (foldl rd_insert r (exact_forms v @ encoded_forms v))\<lparr>rd_matcher := None\<rparr>)"
proof -
  have "register_exact r v = (foldl rd_insert r (exact_forms v))\<lparr>rd_matcher := None\<rparr>"
    using assms(1) by (auto simp: register_exact_def exact_forms_def MIN_SECRET_BYTES_def Let_def foldl_lines)
  then show ?thesis using assms by (auto simp: register_def encoded_forms_def Let_def inserts_forget)
qed

lemma inserts_values:
  "rd_secrets (foldl rd_insert r vs) = rd_secrets r @ vs" "rd_carry (foldl rd_insert r vs) = rd_carry r"
  by (induction vs arbitrary: r) (simp_all add: rd_insert_def)









fun register_all :: "redactor \<Rightarrow> u8 list list \<Rightarrow> redactor" where
  "register_all r [] = r"
| "register_all r (v # vs) = register_all (snd (register r v)) vs"


subsection \<open>The room that a registration takes\<close>














subsection \<open>A redactor in use\<close>























subsection \<open>The forms of a value\<close>






section \<open>Properties\<close>


text \<open>
  C15: the scan with the two automata computes the left-to-right reference.  For any values and any
  buffer, with and without holding back, the scan ends, its output and the number of bytes it consumes
  are those of \<open>ref_scan\<close>, the redactor keeps its invariant, its values and its held bytes, and
  \<open>redact_all\<close> writes the reference of the whole buffer.
\<close>

theorem scan_is_reference:
  assumes "redactor_ok r" "length buf \<le> 2 ^ 32"
  shows "\<exists>r'. scan r buf hold = Some (ref_scan (rd_secrets r) hold buf, r') \<and> redactor_ok r'
    \<and> set (rd_secrets r') = set (rd_secrets r) \<and> rd_carry r' = rd_carry r
    \<and> map_option fst (redact_all r buf) = Some (ref_all (rd_secrets r) buf)"
  by (rule scan_ok [OF assms, of hold]) (auto simp: same_values_def redact_all_ok [OF assms])

theorem scan_is_reference_witness:
  "\<exists>r'. scan (rd_insert redactor_new (ascii ''abcd'')) (ascii ''abcda'') True = Some ((ascii ''***'', 4), r')"
proof -
  have "redactor_ok (rd_insert redactor_new (ascii ''abcd''))"
    by (simp add: redactor_ok_def redactor_new_def rd_insert_def ascii_def)
  moreover have "length (ascii ''abcda'') \<le> 2 ^ 32" by (simp add: ascii_def)
  moreover have "ref_scan (rd_secrets (rd_insert redactor_new (ascii ''abcd''))) True (ascii ''abcda'') = (ascii ''***'', 4)"
  proof -
    have "ref_scan [[97, 98, 99, 100]] True [97, 98, 99, 100, 97] = ([42, 42, 42], 4)" by code_simp
    then show ?thesis by (simp add: rd_insert_def redactor_new_def ascii_def)
  qed
  ultimately show ?thesis using scan_is_reference [of "rd_insert redactor_new (ascii ''abcd'')" "ascii ''abcda''" True] by auto
qed

text \<open>
  C16: how the output of a process is cut into chunks, and how the chunks of the two streams interleave, does not
  matter.  Every call of \<open>apply\<close> ends, and for each stream the bytes written and the bytes still held back
  are those of one scan over everything that was read from that stream.
\<close>

theorem chunking_is_invisible:
  assumes "redactor_ok r" "carry_ok r" "\<forall>e\<in>set es. rd_longest r + length (snd e) \<le> 2 ^ 32"
  shows "\<exists>outs r'. redact_events r es = Some (outs, r') \<and> redactor_ok r' \<and> carry_ok r'
    \<and> (\<forall>s. (bytes_of s outs, carry_of r' s) =
          (let (out, n) = ref_scan (rd_secrets r) True (carry_of r s @ bytes_of s es)
           in (out, drop n (carry_of r s @ bytes_of s es))))"
  using redact_events_ok [OF assms] by blast

theorem chunking_is_invisible_witness:
  "\<exists>outs r'. redact_events (rd_insert redactor_new (ascii ''abcd''))
        [(Stdout, ascii ''ab''), (Stderr, ascii ''c''), (Stdout, ascii ''cd'')] = Some (outs, r')
     \<and> bytes_of Stdout outs = ascii ''***'' \<and> bytes_of Stderr outs = ascii ''c''"
proof -
  let ?r = "rd_insert redactor_new (ascii ''abcd'')"
  let ?es = "[(Stdout, ascii ''ab''), (Stderr, ascii ''c''), (Stdout, ascii ''cd'')]"
  have r: "redactor_ok ?r" by (simp add: redactor_ok_def redactor_new_def rd_insert_def ascii_def)
  have empty: "carry_of ?r s = []" for s by (cases s) (simp_all add: carry_of_def redactor_new_def rd_insert_def stream_code_def nth_Cons')
  have carry: "carry_ok ?r" using empty by (simp add: carry_ok_def)
  have fit: "\<forall>e\<in>set ?es. rd_longest ?r + length (snd e) \<le> 2 ^ 32" by (simp add: rd_insert_def redactor_new_def ascii_def)
  have ref: "ref_scan (rd_secrets ?r) True (bytes_of Stdout ?es) = (ascii ''***'', 4)"
      "ref_scan (rd_secrets ?r) True (bytes_of Stderr ?es) = (ascii ''c'', 1)"
  proof -
    have "ref_scan [[97, 98, 99, 100]] True [97, 98, 99, 100] = ([42, 42, 42], 4)" "ref_scan [[97, 98, 99, 100]] True [99] = ([99], 1)" by code_simp+
    then show "ref_scan (rd_secrets ?r) True (bytes_of Stdout ?es) = (ascii ''***'', 4)"
      "ref_scan (rd_secrets ?r) True (bytes_of Stderr ?es) = (ascii ''c'', 1)"
      by (simp_all add: rd_insert_def redactor_new_def ascii_def)
  qed
  obtain outs r' where out: "redact_events ?r ?es = Some (outs, r')"
      "\<forall>s. (bytes_of s outs, carry_of r' s) = (let (out, n) = ref_scan (rd_secrets ?r) True (carry_of ?r s @ bytes_of s ?es)
         in (out, drop n (carry_of ?r s @ bytes_of s ?es)))"
    using chunking_is_invisible [OF r carry fit] by blast
  have "bytes_of Stdout outs = ascii ''***''" "bytes_of Stderr outs = ascii ''c''"
    using spec [OF out(2), of Stdout] spec [OF out(2), of Stderr] unfolding empty append_Nil ref by simp_all
  then show ?thesis using out(1) by blast
qed



subsection \<open>What is written all the same\<close>

text \<open>
  The bytes held back are written as they are when the step ends.  A value that begins another registered value is held
  until more is read; a step that ends there has the whole value written.
\<close>

theorem flush_writes_a_held_value:
  assumes "redactor_ok r" "v \<in> set (rd_secrets r)" "v' \<in> set (rd_secrets r)" "strict_prefix v v'"
    "carry_of r s = []" "carry_ok r" "rd_longest r + length v \<le> 2 ^ 32"
  shows "\<exists>r'. redact_apply r s v = Some ([], r') \<and> fst (redact_flush r' s) = v"
proof -
  obtain out r' where r': "redact_apply r s v = Some (out, r')" "applies r s v out r'" by (rule apply_ok [OF assms(1,6,7)])
  have "open_at (rd_secrets r) v" using assms(3,4) prefix_length_less [OF assms(4)] by (auto simp: open_at_def list_ex_iff strict_prefix_def)
  then have "ref_scan (rd_secrets r) True v = ([], 0)" by (subst ref_scan.simps) simp
  then show ?thesis using r' assms(5) by (simp add: applies_def redact_flush_def)
qed

text \<open>
  A value that is already known, as a value or as a form of another one, is accepted and nothing is added: a line of
  a value registered before is known, but its base64 and percent forms are not.
\<close>

lemma known_value_adds_nothing:
  "v \<in> set (rd_secrets r) \<Longrightarrow> MIN_SECRET_BYTES \<le> length v \<Longrightarrow> register r v = (True, r)"
  by (simp add: register_def)

theorem known_line_has_no_encodings:
  "let line = ascii ''p@ss''; r = register_all redactor_new [ascii ''k'' @ [10] @ line, line]
   in line \<in> set (rd_secrets r) \<and> percent_form HEX_UPPER False line \<notin> set (rd_secrets r)"
proof -
  let ?line = "[112, 64, 115, 115] :: u8 list" and ?pair = "[107, 10, 112, 64, 115, 115] :: u8 list"
  have a: "ascii ''p@ss'' = ?line" "ascii ''k'' @ [10] @ ?line = ?pair" by (simp_all add: ascii_def)
  have p: "percent_form HEX_UPPER False ?line = [112, 37, 52, 48, 115, 115]" by code_simp
  have exact: "exact_forms ?pair = [?pair, [107, 92, 110, 112, 64, 115, 115], [107], ?line]" by code_simp
  have "list_all (\<lambda>f. length f \<noteq> 6 \<or> f ! 1 \<noteq> 37) (base64_fragments ?pair @ percent_encodings ?pair)" by code_simp
  then have "length f \<noteq> 6 \<or> f ! 1 \<noteq> 37" if "f \<in> set (encoded_forms ?pair)" for f
    using that by (auto simp: encoded_forms_def list_all_iff split: if_splits)
  from this [of "[112, 37, 52, 48, 115, 115]"] have enc: "[112, 37, 52, 48, 115, 115] \<notin> set (encoded_forms ?pair)" by auto
  let ?r = "snd (register redactor_new ?pair)"
  have "rd_secrets ?r = exact_forms ?pair @ encoded_forms ?pair"
    using register_fresh [of ?pair redactor_new] inserts_values(1) [of redactor_new "exact_forms ?pair @ encoded_forms ?pair"]
    by (simp add: MIN_SECRET_BYTES_def redactor_new_def del: foldl_append)
  then have r: "set (rd_secrets ?r) = set (exact_forms ?pair) \<union> set (encoded_forms ?pair)" by simp
  then have "register ?r ?line = (True, ?r)" by (intro known_value_adds_nothing) (simp_all add: exact MIN_SECRET_BYTES_def)
  then show ?thesis using r enc unfolding Let_def a p by (simp add: exact)
qed

end
