(* ===== verification/Spec2Isabelle.thy ===== *)
theory Spec2Isabelle
  imports Core_State Core_Auth Core_Id Trigger_Policy Expr_RoundTrip Expr_Contexts Yaml_Doc Protocol_Cache
    Schema_Wf Schema_Duration
    Compile_Order Dispatch_Runs Redact_Values
begin

text \<open>
  \<^bold>\<open>Sentinel\<close> is a self-hosted continuous-integration service.  A controller loads a repository's pipeline file,
  compiles it, creates a run with its jobs, releases jobs as their needs finish, leases them to workers,
  and tells the forge the outcome as checks.  A worker runs the steps of a leased job and sends back its output,
  with secrets redacted.  This library models the parts that decide and leaves out the parts that talk to
  the operating system.  Paths below are under \<open>src/crates/\<close>.

  \<^bold>\<open>From a file to a compiled pipeline.\<close>
  \<^item> \<open>Yaml_Doc\<close>: the event receiver of \<open>sentinel-pipeline/src/yaml.rs\<close>; the scanner is its event list.  Whatever
    the events, a loaded document is within the limits on size, depth and nodes and has no repeated key.
  \<^item> \<open>Schema_Names\<close>, \<open>Schema_Reader\<close>, \<open>Schema_Decode\<close>: names, key-by-key reading and every decoder of \<open>schema.rs\<close>.
    \<open>Schema_Wf\<close>: a decoded pipeline is well formed, and an unknown or repeated key is refused at every level.
    \<open>Schema_Duration\<close>: durations against a declarative reading.
  \<^item> \<open>Expr_Syntax\<close>, \<open>Expr_Parse\<close>, \<open>Expr_Eval\<close>, \<open>Expr_Template\<close>: tokenizer, parser, printer, type check, evaluation and
    templates of \<open>expr.rs\<close>.  \<open>Expr_RoundTrip\<close>: parsing inverts printing and checks every subexpression.
    \<open>Expr_Contexts\<close>: the contexts of run creation, scheduling (store) and of the worker; a condition that passed the
    check evaluates to a boolean in the context it is for.  The locale \<open>eval_context\<close> is what the evaluator asks of a context.
  \<^item> \<open>Glob_Match\<close>, \<open>Trigger_Policy\<close>: both single-backtrack wildcard matchers (\<open>glob.rs\<close>, \<open>policy.rs\<close>) as instances of the locale
    \<open>last_star_matcher\<close>, against a matching relation; trigger admission.
  \<^item> \<open>Pipeline_Compile\<close>, \<open>Compile_Order\<close>: \<open>compile.rs\<close>; compilation returns, orders jobs topologically, reports
    exactly the cyclic pipelines, and does not depend on the order of the file.
  \<^item> \<open>Run_Spec\<close>: \<open>run.rs\<close>; stored specifications are read back, images parse and print, step commands are confined.

  \<^bold>\<open>From a run to an outcome.\<close>
  \<^item> \<open>Core_State\<close>: the fenced state machine of \<open>sentinel-core/src/state.rs\<close>, against an inductive life cycle, with the fences
    of \<open>id.rs\<close> and the time stamps of \<open>time.rs\<close>; run aggregation against a set-based specification.
    \<open>Core_Id\<close>: typed identifiers over a uuid codec (locale \<open>uuid_text\<close>).  \<open>Core_Auth\<close>: permission and scope sets.
  \<^item> \<open>Store_Tables\<close>: the database as a record of tables, a list of rows each, with the state codes of \<open>codec.rs\<close>.  SQL statements
    are functions on it: an \<open>UPDATE\<close> is \<open>update_where\<close>, constraints and triggers are checks that answer \<open>SE_Sqlite\<close>.  A function
    of the source that takes a transaction returns an error or the new database; an error leaves the database as it was.
  \<^item> \<open>Job_Store\<close>: \<open>sentinel-store/src/jobs.rs\<close>; a stored transition is one step of the state machine and nothing else.
  \<^item> \<open>Scheduler\<close>: \<open>release_dependents\<close> of \<open>dispatch.rs\<close>; jobs start, end or wait by their needs, a released run is not stuck,
    and conditions of compiled pipelines never fail to evaluate.
  \<^item> \<open>Attempts\<close>, \<open>Lease_Safety\<close>, \<open>Dispatch_Runs\<close>: the life of an attempt in \<open>dispatch.rs\<close>, the invariant that ties the job and
    attempt tables, and sequences of operations: a job is held by at most one attempt, an attempt that ended never
    acts, a later lease has a greater fence.  The locale \<open>statement_effect\<close> carries a relation through all operations.
  \<^item> \<open>Store_Checks\<close>, \<open>Checks_Outbox\<close>: \<open>checks.rs\<close>, the writer and the publisher of the outbox; its invariant, that what is owed comes due,
    that a stale publisher settles nothing, that retries end within their budget.  The locale \<open>row_effect\<close> plays the same part.
  \<^item> \<open>Protocol_Cache\<close>: the trust classes of \<open>sentinel-protocol/src/cache.rs\<close>.

  \<^bold>\<open>The output of a job.\<close>
  \<^item> \<open>Log_Records\<close>: the records of \<open>sentinel-protocol/src/logs.rs\<close>; a record is read back, a cut record is incomplete.
  \<^item> \<open>Redact_Automaton\<close>: the Aho-Corasick automaton of \<open>sentinel-worker/src/redact.rs\<close>, from the trie to the failure links;
    a state is the longest suffix read that begins a value.  \<open>Redact_Scan\<close>: the scan over the two automata
    equals a left-to-right reference, however the output is cut.  \<open>Redact_Values\<close>: registration; what is registered
    is not written, nor its encodings.

  \<^bold>\<open>Conventions.\<close>  \<open>Sentinel_Prelude\<close> holds them: a \<open>Result\<close> is a sum with the error left, a byte string is a \<^typ>\<open>string\<close> or
  a list of 8-bit words, integers that wrap or saturate are words or are clamped where the source does.  Loops that
  might not end are \<open>partial_function (option)\<close>s and their theorems state that they return.

  \<^bold>\<open>Bounds.\<close>  Job indices of the compiler are natural numbers where \<open>compile.rs\<close> casts to \<open>u16\<close>; decoded pipelines
  have at most 64 jobs.  Generations and counters of the outbox are unbounded where SQLite stores 64 bits.  Redaction assumes
  that registered forms and buffers fit the \<open>u32\<close> numbers of the automata (\<open>ops_fit\<close>): a registration of n bytes is
  counted as 84 * (n + 1), which is more than all its forms take, and all of them together and a chunk
  as at most 2 to the 31.

  \<^bold>\<open>Parameters.\<close>  The uuid codec, the postcard serializer, the hash of workspace files, the supply of fresh identifiers, the clock
  and the YAML scanner are arguments, with what the code relies on as hypotheses that an instance satisfies.

  \<^bold>\<open>Not modelled.\<close>  Sockets, TLS and sessions (\<open>sentinel-link\<close>), the HTTP interface (\<open>sentinel-api\<close>), processes, containers, virtual machines
  and the spool (\<open>sentinel-worker\<close>, \<open>sentinel-agent\<close>), cryptography (\<open>sentinel-auth\<close>), directory trees and objects
  (\<open>sentinel-cache\<close>, \<open>sentinel-s3\<close>), network clients (\<open>sentinel-github\<close>, \<open>sentinel-git\<close>, \<open>sentinel-mail\<close>), the command line and the benchmarks: they act on the
  system through libraries that are not part of the source.  Of the store, placement, run creation, intake, retention,
  credentials and migrations are left out; of redaction, the one-line excerpt of a diagnostic, which decodes lossy UTF-8.
\<close>

end
